(* ===== verification/Go_Prelude.thy ===== *)
theory Go_Prelude
  imports Main "HOL-Library.AList" "HOL-Library.Multiset" "HOL-Library.Monad_Syntax"
begin

text \<open>
  Shared vocabulary of the development: how the Go values of the sources are represented,
  and the generic facts on slices, maps and majorities that the components use.

  \<^item> A Go \<open>int\<close> is an \<^typ>\<open>int\<close>. Terms, log indexes and counters of the sources only grow by
    one per event, so the 64-bit range is never left; byte-level code uses words.
  \<^item> A function that can panic returns an \<^typ>\<open>'a option\<close>; \<^const>\<open>None\<close> is the run-time panic.
  \<^item> A slice is a list; a \<open>nil\<close> slice is the empty list, as \<open>len\<close>, \<open>range\<close> and \<open>append\<close> treat it.
  \<^item> A Go map is an association list with distinct keys. The order of the list is the order in
    which \<open>range\<close> happens to visit the map, so a result that must not depend on Go's random
    iteration order is proved equal for all lists with the same \<^const>\<open>map_of\<close>.
\<close>

section \<open>Collections of facts\<close>

named_theorems go_slice \<open>unfolding of the slice operations\<close>
named_theorems raft_defs \<open>definitions of the handlers of one Raft peer\<close>
named_theorems raft_frame \<open>fields a handler leaves unchanged\<close>

section \<open>Slices\<close>

text \<open>\<open>xs[i]\<close>, \<open>xs[i] = v\<close>, \<open>xs[i:]\<close> and \<open>xs[:i]\<close>, with the bounds check of the run time.
  The sources never reslice beyond the length of a slice.\<close>

definition go_nth :: "'a list \<Rightarrow> int \<Rightarrow> 'a option" where
  "go_nth xs i = (if 0 \<le> i \<and> i < int (length xs) then Some (xs ! nat i) else None)"

definition go_set :: "'a list \<Rightarrow> int \<Rightarrow> 'a \<Rightarrow> 'a list option" where
  "go_set xs i v = (if 0 \<le> i \<and> i < int (length xs) then Some (xs[nat i := v]) else None)"

definition go_from :: "'a list \<Rightarrow> int \<Rightarrow> 'a list option" where
  "go_from xs i = (if 0 \<le> i \<and> i \<le> int (length xs) then Some (drop (nat i) xs) else None)"

definition go_upto :: "'a list \<Rightarrow> int \<Rightarrow> 'a list option" where
  "go_upto xs i = (if 0 \<le> i \<and> i \<le> int (length xs) then Some (take (nat i) xs) else None)"

lemmas [go_slice] = go_nth_def go_set_def go_from_def go_upto_def

lemma go_nth_eq_Some_iff:
  "go_nth xs i = Some x \<longleftrightarrow> 0 \<le> i \<and> i < int (length xs) \<and> x = xs ! nat i"
  by (auto simp: go_nth_def)

lemma go_nth_neq_None_iff: "go_nth xs i \<noteq> None \<longleftrightarrow> 0 \<le> i \<and> i < int (length xs)"
  by (auto simp: go_nth_def)

lemma go_nth_mem: "go_nth xs i = Some x \<Longrightarrow> x \<in> set xs"
  by (auto simp: go_nth_def split: if_splits)

lemma go_set_length: "go_set xs i v = Some ys \<Longrightarrow> length ys = length xs"
  by (auto simp: go_set_def split: if_splits)

lemma go_set_nth: "go_set xs i v = Some ys \<Longrightarrow> go_nth ys j = (if j = i then Some v else go_nth xs j)"
  by (auto simp: go_set_def go_nth_def nth_list_update split: if_splits)

lemma nat_int_minus_one [simp]: "nat (int n - 1) = n - 1"
  by simp

lemma sorted_le_last: "sorted xs \<Longrightarrow> x \<in> set xs \<Longrightarrow> x \<le> last xs"
  by (induction xs) auto

section \<open>Maps\<close>

type_synonym ('k, 'v) gomap = "('k \<times> 'v) list"

text \<open>\<open>m[k]\<close> without the \<open>ok\<close> flag: the zero value when the key is absent.\<close>

definition mget :: "'v \<Rightarrow> ('k, 'v) gomap \<Rightarrow> 'k \<Rightarrow> 'v" where
  "mget z m k = (case map_of m k of None \<Rightarrow> z | Some v \<Rightarrow> v)"

definition gomap_ok :: "('k, 'v) gomap \<Rightarrow> bool" where
  "gomap_ok m = distinct (map fst m)"

lemma mget_update [simp]: "mget z (AList.update k v m) k' = (if k' = k then v else mget z m k')"
  by (auto simp: mget_def update_conv')

lemma gomap_ok_update [simp, intro]: "gomap_ok m \<Longrightarrow> gomap_ok (AList.update k v m)"
  by (simp add: gomap_ok_def distinct_update)

lemma gomap_ok_delete [simp, intro]: "gomap_ok m \<Longrightarrow> gomap_ok (AList.delete k m)"
  by (simp add: gomap_ok_def distinct_delete)

lemma gomap_ok_Nil [simp, intro]: "gomap_ok []"
  by (simp add: gomap_ok_def)

lemma keys_update [simp]: "fst ` set (AList.update k v m) = insert k (fst ` set m)"
  by (simp add: dom_update)

lemma mget_outside: "k \<notin> fst ` set m \<Longrightarrow> mget z m k = z"
  by (simp add: mget_def map_of_eq_None_iff[symmetric])

lemma mget_Cons: "mget z ((k, v) # m) k' = (if k' = k then v else mget z m k')"
  by (simp add: mget_def)

lemma mget_Nil [simp]: "mget z [] k = z"
  by (simp add: mget_def)

lemma gomap_ok_Cons: "gomap_ok ((k, v) # m) \<longleftrightarrow> k \<notin> fst ` set m \<and> gomap_ok m"
  by (simp add: gomap_ok_def)

lemma mget_in: "gomap_ok m \<Longrightarrow> (k, v) \<in> set m \<Longrightarrow> mget z m k = v"
  by (simp add: gomap_ok_def mget_def)

lemma mget_cong: "map_of m = map_of m' \<Longrightarrow> mget z m = mget z m'"
  by (auto simp: mget_def fun_eq_iff)

section \<open>Majorities\<close>

text \<open>Two sets of more than half of \<open>n\<close> peers share a peer.\<close>

lemma majorities_intersect:
  assumes "A \<subseteq> {..<n::nat}" "B \<subseteq> {..<n}" "n < 2 * card A" "n < 2 * card B"
  shows "A \<inter> B \<noteq> {}"
proof
  assume disj: "A \<inter> B = {}"
  from assms have fin: "finite A" "finite B"
    using finite_subset finite_lessThan by blast+
  have "card A + card B = card (A \<union> B)"
    using fin disj by (simp add: card_Un_disjoint)
  also have "\<dots> \<le> card {..<n}"
    using assms(1,2) by (intro card_mono) auto
  finally show False using assms(3,4) by simp
qed

end
