(* ===== verification/Service_Common.thy ===== *)
theory Service_Common
  imports Go_Prelude
begin

text \<open>
  What the three replicated services (\<open>kvraft\<close>, \<open>shardctrler\<close>, \<open>shardkv\<close>) have in common: the
  error strings, the channels on which a request waits for its result, the contract of the
  duplicate table (locales \<open>dedup_service\<close>, \<open>dedup_static\<close>) and of a key/value store (locale \<open>kv_store\<close>).

  A Go map that the services never iterate is a map \<^typ>\<open>'k \<Rightarrow> 'v option\<close>.
\<close>

section \<open>Errors\<close>

datatype Err = OK | ErrNoKey | ErrWrongLeader | ErrTimeout | ErrWrongGroup | ErrWrongConfig | ErrNotReady | ErrEmpty

text \<open>\<open>ErrEmpty\<close> is the zero value \<open>""\<close> of \<open>Err\<close>.\<close>

section \<open>Notification channels\<close>

text \<open>\<open>notifyChans\<close>: channels of capacity 1, reachable by log index. A request keeps its channel
  after the index is deleted from the map, so the channels are cells of a store and the map holds
  their addresses.\<close>

record 'r chans =
  ch_at :: "int \<Rightarrow> nat option"
  ch_cells :: "'r list list"

definition chans_empty :: "'r chans" where
  "chans_empty = \<lparr>ch_at = (\<lambda>_. None), ch_cells = []\<rparr>"

definition getNotifyChannel :: "'r chans \<Rightarrow> int \<Rightarrow> 'r chans \<times> nat" where
  "getNotifyChannel c index =
     (case ch_at c index of
        Some a \<Rightarrow> (c, a)
      | None \<Rightarrow> (c\<lparr>ch_at := (ch_at c)(index \<mapsto> length (ch_cells c)), ch_cells := ch_cells c @ [[]]\<rparr>,
                 length (ch_cells c)))"

definition removeNotifyChannel :: "'r chans \<Rightarrow> int \<Rightarrow> 'r chans" where
  "removeNotifyChannel c index = c\<lparr>ch_at := (ch_at c)(index := None)\<rparr>"

text \<open>\<open>ch <- v\<close> and \<open>v := <-ch\<close>; \<^const>\<open>None\<close> when the operation blocks.\<close>

definition chan_send :: "'r chans \<Rightarrow> nat \<Rightarrow> 'r \<Rightarrow> 'r chans option" where
  "chan_send c a v =
     (if a < length (ch_cells c) \<and> length (ch_cells c ! a) < 1
      then Some (c\<lparr>ch_cells := (ch_cells c)[a := ch_cells c ! a @ [v]]\<rparr>) else None)"

definition chan_recv :: "'r chans \<Rightarrow> nat \<Rightarrow> ('r chans \<times> 'r) option" where
  "chan_recv c a =
     (if a < length (ch_cells c) then
        case ch_cells c ! a of [] \<Rightarrow> None | v # vs \<Rightarrow> Some (c\<lparr>ch_cells := (ch_cells c)[a := vs]\<rparr>, v)
      else None)"

text \<open>Addresses are allocated, no two indexes share a channel, and the channels of indexes above
  \<open>n\<close> are empty. The applied index is \<open>n\<close>, so the next send never blocks.\<close>

definition chans_ok :: "int \<Rightarrow> 'r chans \<Rightarrow> bool" where
  "chans_ok n c \<longleftrightarrow>
     (\<forall>i a. ch_at c i = Some a \<longrightarrow> a < length (ch_cells c) \<and> (n < i \<longrightarrow> ch_cells c ! a = [])) \<and>
     (\<forall>i j a. ch_at c i = Some a \<longrightarrow> ch_at c j = Some a \<longrightarrow> i = j)"

lemma chans_ok_empty: "chans_ok n chans_empty"
  by (simp add: chans_ok_def chans_empty_def)

lemma chans_ok_get:
  assumes "chans_ok n c" "getNotifyChannel c i = (c', a)"
  shows "chans_ok n c'" "ch_at c' i = Some a"
proof -
  show "ch_at c' i = Some a" using assms(2) by (auto simp: getNotifyChannel_def split: option.splits)
  show "chans_ok n c'"
  proof (cases "ch_at c i")
    case None
    with assms(2) have c': "c' = c\<lparr>ch_at := (ch_at c)(i \<mapsto> length (ch_cells c)), ch_cells := ch_cells c @ [[]]\<rparr>"
      by (auto simp: getNotifyChannel_def)
    show ?thesis
      unfolding c' using assms(1) by (fastforce simp: chans_ok_def nth_append split: if_splits)
  next
    case (Some b)
    with assms show ?thesis by (simp add: getNotifyChannel_def)
  qed
qed

lemma chans_ok_remove: "chans_ok n c \<Longrightarrow> chans_ok n (removeNotifyChannel c i)"
  by (auto simp: chans_ok_def removeNotifyChannel_def split: if_splits)

lemma chans_ok_recv:
  assumes "chans_ok n c" "chan_recv c a = Some (c', v)"
  shows "chans_ok n c'"
proof -
  from assms(2) obtain vs where a: "a < length (ch_cells c)" "ch_cells c ! a = v # vs"
      "c' = c\<lparr>ch_cells := (ch_cells c)[a := vs]\<rparr>"
    by (auto simp: chan_recv_def split: if_splits list.splits)
  show ?thesis
    unfolding a(3) chans_ok_def
    using assms(1) a(1,2) by (auto simp: chans_ok_def nth_list_update)
qed

text \<open>Sending the result of index \<open>i\<close> when the applied index moves from below \<open>i\<close> to \<open>i\<close>.\<close>

lemma chans_ok_send:
  assumes "chans_ok n c" "n < i" "getNotifyChannel c i = (c1, a)"
  shows "\<exists>c'. chan_send c1 a v = Some c' \<and> chans_ok i c'"
proof -
  note ok = chans_ok_get[OF assms(1,3)]
  have a: "a < length (ch_cells c1)" "ch_cells c1 ! a = []" using ok assms(2) by (auto simp: chans_ok_def)
  then have "chan_send c1 a v = Some (c1\<lparr>ch_cells := (ch_cells c1)[a := [v]]\<rparr>)" by (simp add: chan_send_def)
  moreover have "chans_ok i (c1\<lparr>ch_cells := (ch_cells c1)[a := [v]]\<rparr>)"
    using ok assms(2) by (fastforce simp: chans_ok_def nth_list_update)
  ultimately show ?thesis by blast
qed

lemma chans_ok_mono: "chans_ok n c \<Longrightarrow> n \<le> m \<Longrightarrow> chans_ok m c"
  by (fastforce simp: chans_ok_def)

section \<open>The duplicate table\<close>

text \<open>
  A replicated service: \<open>step\<close> is what an operation does to the state, \<open>execute\<close> is what the
  server does with an operation from the log. An operation for which \<open>logged\<close> holds in the current
  state goes through the duplicate table \<open>dup\<close>, which holds the sequence number and the reply of
  the last operation of each client.
\<close>

locale dedup_service =
  fixes step :: "'st \<Rightarrow> 'op \<Rightarrow> ('st \<times> 'r) option"
    and logged :: "'st \<Rightarrow> 'op \<Rightarrow> bool"
    and client :: "'op \<Rightarrow> int"
    and seqno :: "'op \<Rightarrow> int"
    and execute :: "'srv \<Rightarrow> 'op \<Rightarrow> ('srv \<times> 'r) option"
    and state :: "'srv \<Rightarrow> 'st"
    and dup :: "'srv \<Rightarrow> int \<Rightarrow> (int \<times> 'r) option"
  assumes execute_dup: "logged (state s) oper \<Longrightarrow> dup s (client oper) = Some (n, r) \<Longrightarrow> seqno oper \<le> n \<Longrightarrow>
      \<exists>s'. execute s oper = Some (s', r) \<and> state s' = state s \<and> dup s' = dup s"
    and execute_new: "logged (state s) oper \<Longrightarrow> (\<And>n r. dup s (client oper) = Some (n, r) \<Longrightarrow> n < seqno oper) \<Longrightarrow>
      step (state s) oper = Some (x, r) \<Longrightarrow>
      \<exists>s'. execute s oper = Some (s', r) \<and> state s' = x \<and> dup s' = (dup s)(client oper \<mapsto> (seqno oper, r))"
    and execute_free: "\<not> logged (state s) oper \<Longrightarrow> step (state s) oper = Some (x, r) \<Longrightarrow>
      \<exists>s'. execute s oper = Some (s', r) \<and> state s' = x \<and> dup s' = dup s"
    and execute_panic: "step (state s) oper = None \<Longrightarrow>
      \<not> logged (state s) oper \<or> (\<forall>n r. dup s (client oper) = Some (n, r) \<longrightarrow> n < seqno oper) \<Longrightarrow> execute s oper = None"
begin

primrec run :: "'srv \<Rightarrow> 'op list \<Rightarrow> ('srv \<times> 'r list) option" where
  "run s [] = Some (s, [])"
| "run s (p # ps) = do { (s1, r) \<leftarrow> execute s p; (s2, rs) \<leftarrow> run s1 ps; Some (s2, r # rs) }"

text \<open>The reference: every logged operation takes effect the first time it appears.\<close>

fun once :: "'st \<Rightarrow> (int \<Rightarrow> (int \<times> 'r) option) \<Rightarrow> 'op list \<Rightarrow> ('st \<times> 'r list) option" where
  "once x d [] = Some (x, [])"
| "once x d (p # ps) =
     (case (if logged x p then d (client p) else None) of
        Some (n, r) \<Rightarrow>
          if seqno p \<le> n then map_option (map_prod id (Cons r)) (once x d ps)
          else do { (y, r') \<leftarrow> step x p;
                    map_option (map_prod id (Cons r')) (once y (d(client p \<mapsto> (seqno p, r'))) ps) }
      | None \<Rightarrow>
          do { (y, r') \<leftarrow> step x p;
               map_option (map_prod id (Cons r')) (once y (if logged x p then d(client p \<mapsto> (seqno p, r')) else d) ps) })"

lemma execute_cases:
  assumes "execute s p = Some (s', r)"
  obtains (dup) n where "logged (state s) p" "dup s (client p) = Some (n, r)" "seqno p \<le> n"
      "state s' = state s" "dup s' = dup s"
  | (new) "logged (state s) p" "\<And>n r. dup s (client p) = Some (n, r) \<Longrightarrow> n < seqno p"
      "step (state s) p = Some (state s', r)" "dup s' = (dup s)(client p \<mapsto> (seqno p, r))"
  | (free) "\<not> logged (state s) p" "step (state s) p = Some (state s', r)" "dup s' = dup s"
proof (cases "logged (state s) p")
  case True
  show thesis
  proof (cases "\<exists>n r. dup s (client p) = Some (n, r) \<and> seqno p \<le> n")
    case dup': True
    then obtain n r' where "dup s (client p) = Some (n, r')" "seqno p \<le> n" by blast
    with execute_dup[OF True this] assms dup[OF True] show thesis by auto
  next
    case False
    then have lt: "\<And>n r. dup s (client p) = Some (n, r) \<Longrightarrow> n < seqno p" by force
    show thesis
    proof (cases "step (state s) p")
      case None
      with execute_panic[OF None] lt assms show thesis by simp
    next
      case (Some xr)
      then obtain x r' where x: "step (state s) p = Some (x, r')" by (cases xr) auto
      with execute_new[OF True lt x] assms new[OF True lt] show thesis by auto
    qed
  qed
next
  case False
  show thesis
  proof (cases "step (state s) p")
    case None
    with execute_panic[OF None] False assms show thesis by simp
  next
    case (Some xr)
    then obtain x r' where x: "step (state s) p = Some (x, r')" by (cases xr) auto
    with execute_free[OF False x] assms free[OF False] show thesis by auto
  qed
qed

text \<open>Running the log is running it with every repetition answered from the table.\<close>

lemma run_once:
  assumes "run s ps = Some (s', rs)"
  shows "once (state s) (dup s) ps = Some (state s', rs)"
  using assms
proof (induction ps arbitrary: s rs)
  case Nil
  then show ?case by simp
next
  case (Cons p ps)
  from Cons.prems obtain s1 r rs' where ex: "execute s p = Some (s1, r)" and rec: "run s1 ps = Some (s', rs')"
    and rs: "rs = r # rs'"
    by (auto simp: bind_eq_Some_conv)
  note IH = Cons.IH[OF rec]
  from ex show ?case
  proof (cases rule: execute_cases)
    case (dup n)
    then show ?thesis using IH rs by simp
  next
    case new
    show ?thesis
    proof (cases "dup s (client p)")
      case None
      then show ?thesis using new(1,3,4) IH rs by (simp add: fun_upd_def)
    next
      case (Some nr)
      then obtain n r' where "dup s (client p) = Some (n, r')" by (cases nr) auto
      with new(2)[OF this] new(1,3,4) IH rs show ?thesis by (simp add: fun_upd_def)
    qed
  next
    case free
    then show ?thesis using IH rs by simp
  qed
qed

text \<open>A repeated operation changes nothing and gets the first reply, as long as the client has sent
  nothing newer and the operation is still one for the table.\<close>

lemma retry:
  assumes "execute s p = Some (s1, r)" "logged (state s) p"
    and "\<And>n r. dup s (client p) = Some (n, r) \<Longrightarrow> n < seqno p"
    and "dup s2 (client p) = dup s1 (client p)" "logged (state s2) p"
  shows "\<exists>s3. execute s2 p = Some (s3, r) \<and> state s3 = state s2 \<and> dup s3 = dup s2"
  using assms(1)
proof (cases rule: execute_cases)
  case (dup n)
  with assms(3) show ?thesis by fastforce
next
  case new
  then have "dup s2 (client p) = Some (seqno p, r)" using assms(4) by simp
  from execute_dup[OF assms(5) this] show ?thesis by simp
next
  case free
  with assms(2) show ?thesis by simp
qed

end

section \<open>Effective operations\<close>

text \<open>The operations of a log that take effect: the ones that bypass the table, and the writes newer than
  every earlier write of their client.\<close>

fun effective :: "('op \<Rightarrow> bool) \<Rightarrow> ('op \<Rightarrow> int) \<Rightarrow> ('op \<Rightarrow> int) \<Rightarrow> (int \<Rightarrow> int option) \<Rightarrow> 'op list \<Rightarrow> 'op list" where
  "effective wr client seqno seen [] = []"
| "effective wr client seqno seen (p # ps) =
     (if \<not> wr p then p # effective wr client seqno seen ps
      else if (case seen (client p) of Some n \<Rightarrow> seqno p \<le> n | None \<Rightarrow> False)
      then effective wr client seqno seen ps
      else p # effective wr client seqno (seen(client p \<mapsto> seqno p)) ps)"

primrec steps :: "('st \<Rightarrow> 'op \<Rightarrow> ('st \<times> 'r) option) \<Rightarrow> 'st \<Rightarrow> 'op list \<Rightarrow> 'st option" where
  "steps step x [] = Some x"
| "steps step x (p # ps) = do { (y, r) \<leftarrow> step x p; steps step y ps }"

text \<open>The sequence numbers of a duplicate table.\<close>

definition seen_of :: "(int \<Rightarrow> (int \<times> 'r) option) \<Rightarrow> int \<Rightarrow> int option" where
  "seen_of d c = map_option fst (d c)"

lemma seen_of_upd [simp]: "seen_of (d(c \<mapsto> (n, r))) = (seen_of d)(c \<mapsto> n)"
  by (auto simp: seen_of_def fun_eq_iff)

lemma effective_newer:
  assumes "w \<in> set (effective wr client seqno seen ps)" "wr w" "seen (client w) = Some n"
  shows "n < seqno w"
  using assms
proof (induction ps arbitrary: seen n)
  case Nil
  then show ?case by simp
next
  case (Cons p ps)
  let ?seen = "seen(client p \<mapsto> seqno p)"
  let ?dup = "case seen (client p) of Some n \<Rightarrow> seqno p \<le> n | None \<Rightarrow> False"
  consider "w \<in> set (effective wr client seqno seen ps)" | "w = p" "\<not> ?dup"
    | "w \<in> set (effective wr client seqno ?seen ps)" "\<not> ?dup"
    using Cons.prems(1,2) by (auto split: if_splits)
  then show ?case
  proof cases
    case 1
    then show ?thesis using Cons.IH Cons.prems(2,3) by blast
  next
    case 2
    then show ?thesis using Cons.prems(3) by simp
  next
    case 3
    show ?thesis
    proof (cases "client w = client p")
      case True
      then have "n < seqno p" using 3(2) Cons.prems(3) by simp
      moreover have "seqno p < seqno w" using Cons.IH[OF 3(1) Cons.prems(2)] True by simp
      ultimately show ?thesis by simp
    next
      case False
      then show ?thesis using Cons.IH[OF 3(1) Cons.prems(2)] Cons.prems(3) by simp
    qed
  qed
qed

lemma effective_distinct:
  "distinct (map (\<lambda>w. (client w, seqno w)) (filter wr (effective wr client seqno seen ps)))"
proof (induction ps arbitrary: seen)
  case Nil
  then show ?case by simp
next
  case (Cons p ps)
  have "seqno p < seqno w"
    if "w \<in> set (effective wr client seqno (seen(client p \<mapsto> seqno p)) ps)" "wr w" "client w = client p" for w
    using effective_newer[OF that(1,2)] that(3) by simp
  then show ?case using Cons by (force simp del: fun_upd_apply)
qed

text \<open>A service whose table depends on the operation only: running a log is running its effective
  operations.\<close>

locale dedup_static = dedup_service step "\<lambda>_. wr" client seqno execute state dup
  for step :: "'st \<Rightarrow> 'op \<Rightarrow> ('st \<times> 'r) option" and wr :: "'op \<Rightarrow> bool" and client seqno
    and execute :: "'srv \<Rightarrow> 'op \<Rightarrow> ('srv \<times> 'r) option" and state dup
begin

lemma once_effective:
  assumes "once x d ps = Some (x', rs)"
  shows "steps step x (effective wr client seqno (seen_of d) ps) = Some x'"
  using assms
proof (induction ps arbitrary: x d rs)
  case Nil
  then show ?case by simp
next
  case (Cons p ps)
  show ?case
  proof (cases "wr p")
    case False
    then show ?thesis using Cons by (auto simp: bind_eq_Some_conv)
  next
    case True
    have seen: "seen_of d (client p) = map_option fst (d (client p))" by (simp add: seen_of_def)
    show ?thesis
      using Cons.prems True seen
      by (cases "d (client p)")
        (auto simp: bind_eq_Some_conv simp del: fun_upd_apply split: if_splits dest!: Cons.IH)
  qed
qed

lemma run_effective:
  "run s ps = Some (s', rs) \<Longrightarrow>
     steps step (state s) (effective wr client seqno (seen_of (dup s)) ps) = Some (state s')"
  using once_effective[OF run_once] .

end

section \<open>A key/value store\<close>

text \<open>The contract of the state machines of \<open>kvraft\<close> and \<open>shardkv\<close>.\<close>

locale kv_store =
  fixes get :: "'s \<Rightarrow> string \<Rightarrow> string \<times> Err"
    and put :: "'s \<Rightarrow> string \<Rightarrow> string \<Rightarrow> 's \<times> Err"
    and app :: "'s \<Rightarrow> string \<Rightarrow> string \<Rightarrow> 's \<times> Err"
  assumes get_absent: "snd (get s k) = ErrNoKey \<Longrightarrow> fst (get s k) = []"
    and get_err: "snd (get s k) = OK \<or> snd (get s k) = ErrNoKey"
    and put_get: "get (fst (put s k v)) k' = (if k' = k then (v, OK) else get s k')"
    and app_get: "get (fst (app s k v)) k' = (if k' = k then (fst (get s k) @ v, OK) else get s k')"
    and put_ok: "snd (put s k v) = OK" and app_ok: "snd (app s k v) = OK"
begin

text \<open>Appending a list of values is one append of their concatenation.\<close>

lemma app_list:
  "vs \<noteq> [] \<Longrightarrow> get (fold (\<lambda>v s. fst (app s k v)) vs s) k = (fst (get s k) @ concat vs, OK)"
proof (induction vs arbitrary: s)
  case Nil
  then show ?case by simp
next
  case (Cons v vs)
  then show ?case by (cases "vs = []") (simp_all add: app_get)
qed

lemma put_app: "get (fst (app (fst (put s k v)) k w)) k = (v @ w, OK)"
  by (simp add: app_get put_get)

end

end
