(* ===== verification/Raft_Log.thy ===== *)
theory Raft_Log
  imports Go_Prelude
begin

text \<open>
  The log of one Raft peer, \<open>raft/raft_log.go\<close>: a snapshot of the prefix up to
  \<open>snapLastIdx\<close> followed by \<open>tailLog\<close>, whose first element is a mock entry that carries the
  term of the snapshot. Logical indexes are translated by \<open>idx\<close>, which panics outside the
  window \<open>[snapLastIdx, size)\<close>.

  The abstract view is \<open>entry_at\<close>, a partial map from logical indexes to entries; every
  mutating operation is shown to act on it as its name says, and the interface the
  replication code relies on is the locale \<open>indexed_log\<close>, interpreted at the end.
\<close>

section \<open>Data\<close>

text \<open>\<open>LogEntry\<close> (\<open>raft_replication.go\<close>); \<open>Command\<close> is an \<open>interface{}\<close>, so it may be \<open>nil\<close>.\<close>

record 'c log_entry =
  le_Term :: int
  le_CommandValid :: bool
  le_Command :: "'c option"

text \<open>\<open>LogEntry{Term: t}\<close>: the mock entry in front of the tail.\<close>

definition mock_entry :: "int \<Rightarrow> 'c log_entry" where
  "mock_entry t = \<lparr>le_Term = t, le_CommandValid = False, le_Command = None\<rparr>"

record ('c, 'b) raft_log =
  snapLastIdx :: int
  snapLastTerm :: int
  snapshot :: "'b list"
  tailLog :: "'c log_entry list"

definition InvalidTerm :: int where "InvalidTerm = 0"

definition InvalidIndex :: int where "InvalidIndex = 0"

section \<open>Operations\<close>

definition NewLog :: "int \<Rightarrow> int \<Rightarrow> 'b list \<Rightarrow> 'c log_entry list \<Rightarrow> ('c, 'b) raft_log" where
  "NewLog lastIdx lastTerm snap entries =
     \<lparr>snapLastIdx = lastIdx, snapLastTerm = lastTerm, snapshot = snap,
      tailLog = mock_entry lastTerm # entries\<rparr>"

definition log_size :: "('c, 'b) raft_log \<Rightarrow> int" where
  "log_size rl = snapLastIdx rl + int (length (tailLog rl))"

definition idx :: "('c, 'b) raft_log \<Rightarrow> int \<Rightarrow> int option" where
  "idx rl logicIdx =
     (if logicIdx < snapLastIdx rl \<or> logicIdx \<ge> log_size rl then None
      else Some (logicIdx - snapLastIdx rl))"

definition log_at :: "('c, 'b) raft_log \<Rightarrow> int \<Rightarrow> 'c log_entry option" where
  "log_at rl logicIdx = do { i \<leftarrow> idx rl logicIdx; go_nth (tailLog rl) i }"

definition log_last :: "('c, 'b) raft_log \<Rightarrow> (int \<times> int) option" where
  "log_last rl =
     (let i = int (length (tailLog rl)) - 1
      in do { e \<leftarrow> go_nth (tailLog rl) i; Some (snapLastIdx rl + i, le_Term e) })"

fun firstFor_loop :: "int \<Rightarrow> int \<Rightarrow> int \<Rightarrow> 'c log_entry list \<Rightarrow> int" where
  "firstFor_loop base t i [] = InvalidIndex"
| "firstFor_loop base t i (e # es) =
     (if le_Term e = t then i + base
      else if le_Term e > t then InvalidIndex
      else firstFor_loop base t (i + 1) es)"

definition firstFor :: "('c, 'b) raft_log \<Rightarrow> int \<Rightarrow> int" where
  "firstFor rl t = firstFor_loop (snapLastIdx rl) t 0 (tailLog rl)"

definition log_tail :: "('c, 'b) raft_log \<Rightarrow> int \<Rightarrow> 'c log_entry list option" where
  "log_tail rl startIdx =
     (if startIdx \<ge> log_size rl then Some []
      else do { i \<leftarrow> idx rl startIdx; go_from (tailLog rl) i })"

definition log_append :: "('c, 'b) raft_log \<Rightarrow> 'c log_entry \<Rightarrow> ('c, 'b) raft_log" where
  "log_append rl e = rl\<lparr>tailLog := tailLog rl @ [e]\<rparr>"

definition appendFrom ::
    "('c, 'b) raft_log \<Rightarrow> int \<Rightarrow> 'c log_entry list \<Rightarrow> ('c, 'b) raft_log option" where
  "appendFrom rl logicPrevIndex entries =
     do { i \<leftarrow> idx rl logicPrevIndex;
          kept \<leftarrow> go_upto (tailLog rl) (i + 1);
          Some (rl\<lparr>tailLog := kept @ entries\<rparr>) }"

definition doSnapshot ::
    "('c, 'b) raft_log \<Rightarrow> int \<Rightarrow> 'b list \<Rightarrow> ('c, 'b) raft_log option" where
  "doSnapshot rl index snap =
     (if index \<le> snapLastIdx rl then Some rl
      else do { i \<leftarrow> idx rl index;
                e \<leftarrow> go_nth (tailLog rl) i;
                rest \<leftarrow> go_from (tailLog rl) (i + 1);
                Some \<lparr>snapLastIdx = index, snapLastTerm = le_Term e, snapshot = snap,
                      tailLog = mock_entry (le_Term e) # rest\<rparr> })"

definition installSnapshot ::
    "('c, 'b) raft_log \<Rightarrow> int \<Rightarrow> int \<Rightarrow> 'b list \<Rightarrow> ('c, 'b) raft_log" where
  "installSnapshot rl index t snap =
     rl\<lparr>snapLastIdx := index, snapLastTerm := t, snapshot := snap, tailLog := [mock_entry t]\<rparr>"

section \<open>Well-formed logs\<close>

definition wf_log :: "('c, 'b) raft_log \<Rightarrow> bool" where
  "wf_log rl \<longleftrightarrow> 0 \<le> snapLastIdx rl \<and> tailLog rl \<noteq> [] \<and> le_Term (hd (tailLog rl)) = snapLastTerm rl"

text \<open>The terms of a log never decrease; \<^const>\<open>firstFor\<close> relies on it to stop early.\<close>

definition terms_sorted :: "('c, 'b) raft_log \<Rightarrow> bool" where
  "terms_sorted rl \<longleftrightarrow> sorted (map le_Term (tailLog rl))"

lemma mock_entry_Term [simp]: "le_Term (mock_entry t) = t"
  by (simp add: mock_entry_def)

lemma wf_log_NewLog [simp]: "0 \<le> i \<Longrightarrow> wf_log (NewLog i t snap es)"
  by (simp add: wf_log_def NewLog_def)

lemma wf_log_size: "wf_log rl \<Longrightarrow> snapLastIdx rl < log_size rl \<and> 0 \<le> snapLastIdx rl"
  by (auto simp: wf_log_def log_size_def)

section \<open>The log as a partial map\<close>

lemma log_at_eq:
  "log_at rl i =
     (if snapLastIdx rl \<le> i \<and> i < log_size rl then Some (tailLog rl ! nat (i - snapLastIdx rl)) else None)"
  by (auto simp: log_at_def idx_def go_nth_def log_size_def)

lemma log_at_defined: "log_at rl i \<noteq> None \<longleftrightarrow> snapLastIdx rl \<le> i \<and> i < log_size rl"
  by (simp add: log_at_eq)

lemma log_at_snap: "wf_log rl \<Longrightarrow> \<exists>e. log_at rl (snapLastIdx rl) = Some e \<and> le_Term e = snapLastTerm rl"
  by (auto simp: log_at_eq wf_log_def log_size_def hd_conv_nth)

lemma log_last_eq:
  "wf_log rl \<Longrightarrow> log_last rl = Some (log_size rl - 1, le_Term (last (tailLog rl)))"
  by (auto simp: log_last_def go_nth_def wf_log_def log_size_def last_conv_nth Let_def nat_diff_distrib)

lemma log_last_at:
  "wf_log rl \<Longrightarrow> \<exists>e. log_at rl (log_size rl - 1) = Some e \<and> log_last rl = Some (log_size rl - 1, le_Term e)"
  by (auto simp: log_last_eq log_at_eq wf_log_def log_size_def last_conv_nth nat_diff_distrib)

lemma log_append_size [simp]: "log_size (log_append rl e) = log_size rl + 1"
  by (simp add: log_append_def log_size_def)

lemma log_append_snap [simp]:
  "snapLastIdx (log_append rl e) = snapLastIdx rl" "snapLastTerm (log_append rl e) = snapLastTerm rl"
  "snapshot (log_append rl e) = snapshot rl"
  by (simp_all add: log_append_def)

lemma log_at_append:
  "log_at (log_append rl e) i = (if i = log_size rl then Some e else log_at rl i)"
  by (auto simp: log_at_eq log_append_def log_size_def nth_append)

lemma wf_log_append [simp, intro]: "wf_log rl \<Longrightarrow> wf_log (log_append rl e)"
  by (auto simp: wf_log_def log_append_def)

lemma appendFrom_eq:
  assumes "snapLastIdx rl \<le> p" "p < log_size rl"
  shows "appendFrom rl p es =
    Some (rl\<lparr>tailLog := take (nat (p - snapLastIdx rl) + 1) (tailLog rl) @ es\<rparr>)"
  using assms by (simp add: appendFrom_def idx_def go_upto_def log_size_def nat_add_distrib)

lemma appendFrom_None_iff: "appendFrom rl p es = None \<longleftrightarrow> p < snapLastIdx rl \<or> log_size rl \<le> p"
  by (auto simp: appendFrom_def idx_def go_upto_def log_size_def)

lemma appendFrom_SomeE:
  assumes "appendFrom rl p es = Some rl'"
  obtains "snapLastIdx rl \<le> p" "p < log_size rl"
    "rl' = rl\<lparr>tailLog := take (nat (p - snapLastIdx rl) + 1) (tailLog rl) @ es\<rparr>"
  using assms appendFrom_None_iff[of rl p es] appendFrom_eq[of rl p es] by force

lemma appendFrom_wf: "wf_log rl \<Longrightarrow> appendFrom rl p es = Some rl' \<Longrightarrow> wf_log rl'"
  by (elim appendFrom_SomeE) (cases "tailLog rl", auto simp: wf_log_def)

lemma appendFrom_snap:
  "appendFrom rl p es = Some rl' \<Longrightarrow> snapLastIdx rl' = snapLastIdx rl \<and>
     snapLastTerm rl' = snapLastTerm rl \<and> snapshot rl' = snapshot rl"
  by (elim appendFrom_SomeE) simp

lemma appendFrom_size: "appendFrom rl p es = Some rl' \<Longrightarrow> log_size rl' = p + 1 + int (length es)"
  by (elim appendFrom_SomeE) (auto simp: log_size_def)

lemma log_at_appendFrom:
  assumes "appendFrom rl p es = Some rl'"
  shows "log_at rl' i = (if i \<le> p then log_at rl i else go_nth es (i - p - 1))"
proof -
  from assms have w: "snapLastIdx rl \<le> p" "p < log_size rl"
    and rl': "rl' = rl\<lparr>tailLog := take (nat (p - snapLastIdx rl) + 1) (tailLog rl) @ es\<rparr>"
    by (auto elim: appendFrom_SomeE)
  from w have len: "length (take (nat (p - snapLastIdx rl) + 1) (tailLog rl)) = nat (p - snapLastIdx rl) + 1"
    by (auto simp: log_size_def)
  show ?thesis
    using w len
    by (auto simp: log_at_eq rl' log_size_def nth_append go_nth_def nat_diff_distrib intro!: arg_cong[where f = "nth es"])
qed

lemma log_tail_eq:
  "snapLastIdx rl \<le> i \<Longrightarrow> log_tail rl i = Some (drop (nat (i - snapLastIdx rl)) (tailLog rl))"
  by (auto simp: log_tail_def idx_def go_from_def log_size_def)

lemma log_tail_None_iff: "wf_log rl \<Longrightarrow> log_tail rl i = None \<longleftrightarrow> i < snapLastIdx rl"
  by (auto simp: log_tail_def idx_def go_from_def log_size_def wf_log_def)

lemma doSnapshot_eq:
  assumes "snapLastIdx rl < n" "n < log_size rl"
  shows "doSnapshot rl n snap =
    Some \<lparr>snapLastIdx = n, snapLastTerm = le_Term (tailLog rl ! nat (n - snapLastIdx rl)), snapshot = snap,
          tailLog = mock_entry (le_Term (tailLog rl ! nat (n - snapLastIdx rl)))
            # drop (nat (n - snapLastIdx rl) + 1) (tailLog rl)\<rparr>"
  using assms by (simp add: doSnapshot_def idx_def go_nth_def go_from_def log_size_def nat_add_distrib)

lemma doSnapshot_None_iff: "wf_log rl \<Longrightarrow> doSnapshot rl n snap = None \<longleftrightarrow> log_size rl \<le> n"
  using doSnapshot_eq[of rl n snap] wf_log_size[of rl]
  by (cases "n \<le> snapLastIdx rl"; cases "n < log_size rl") (auto simp: doSnapshot_def idx_def)

lemma log_at_doSnapshot:
  assumes "doSnapshot rl n snap = Some rl'" "snapLastIdx rl < n"
  shows "snapLastIdx rl' = n \<and> log_size rl' = log_size rl \<and> snapshot rl' = snap \<and>
    (\<forall>i. n < i \<longrightarrow> log_at rl' i = log_at rl i) \<and> (\<forall>i<n. log_at rl' i = None) \<and>
    map_option le_Term (log_at rl' n) = map_option le_Term (log_at rl n) \<and>
    map_option le_Term (log_at rl n) = Some (snapLastTerm rl')"
proof -
  from assms have n: "n < log_size rl"
    by (auto simp: doSnapshot_def idx_def split: if_splits)
  note eq = assms(1)[unfolded doSnapshot_eq[OF assms(2) n], simplified]
  from n assms(2) show ?thesis
    unfolding eq[symmetric]
    by (auto simp: log_at_eq log_size_def nth_Cons' nat_diff_distrib intro!: arg_cong[where f = "nth (tailLog rl)"])
qed

lemma doSnapshot_wf: "wf_log rl \<Longrightarrow> doSnapshot rl n snap = Some rl' \<Longrightarrow> wf_log rl'"
  using wf_log_size[of rl] doSnapshot_eq[of rl n snap] doSnapshot_None_iff[of rl n snap]
  by (cases "n \<le> snapLastIdx rl") (auto simp: wf_log_def doSnapshot_def not_le)

lemma installSnapshot_wf [simp]: "0 \<le> n \<Longrightarrow> wf_log (installSnapshot rl n t snap)"
  by (simp add: installSnapshot_def wf_log_def)

lemma installSnapshot_at:
  "log_at (installSnapshot rl n t snap) i = (if i = n then Some (mock_entry t) else None)"
  "log_size (installSnapshot rl n t snap) = n + 1"
  by (auto simp: installSnapshot_def log_at_eq log_size_def)

section \<open>Sorted terms and \<open>firstFor\<close>\<close>

lemma terms_sorted_append:
  "wf_log rl \<Longrightarrow> terms_sorted rl \<Longrightarrow> le_Term (last (tailLog rl)) \<le> le_Term e \<Longrightarrow>
     terms_sorted (log_append rl e)"
  using sorted_le_last[of "map le_Term (tailLog rl)"]
  by (fastforce simp: terms_sorted_def log_append_def wf_log_def sorted_append last_map)

lemma firstFor_loop_absent:
  "\<forall>e \<in> set es. le_Term e \<noteq> t \<Longrightarrow> firstFor_loop base t i es = InvalidIndex"
  by (induction es arbitrary: i) auto

lemma firstFor_loop_found:
  assumes "sorted (map le_Term es)" "\<exists>e \<in> set es. le_Term e = t"
  shows "\<exists>k < length es. firstFor_loop base t i es = base + i + int k \<and> le_Term (es ! k) = t \<and>
    (\<forall>j < k. le_Term (es ! j) < t)"
  using assms
proof (induction es arbitrary: i)
  case Nil
  then show ?case by simp
next
  case (Cons e es)
  show ?case
  proof (cases "le_Term e = t")
    case True
    then show ?thesis by (intro exI[of _ 0]) simp
  next
    case False
    with Cons.prems have lt: "le_Term e < t" by force
    with Cons.prems obtain k where "k < length es" "firstFor_loop base t (i + 1) es = base + (i + 1) + int k"
      "le_Term (es ! k) = t" "\<forall>j < k. le_Term (es ! j) < t"
      using Cons.IH[of "i + 1"] by auto
    with lt show ?thesis
      by (intro exI[of _ "Suc k"]) (auto simp: nth_Cons split: nat.split)
  qed
qed

lemma firstFor_found:
  assumes "terms_sorted rl" "log_at rl j = Some e" "le_Term e = t"
  shows "\<exists>e'. log_at rl (firstFor rl t) = Some e' \<and> le_Term e' = t \<and> firstFor rl t \<le> j \<and>
    (\<forall>i e''. log_at rl i = Some e'' \<longrightarrow> i < firstFor rl t \<longrightarrow> le_Term e'' < t)"
proof -
  let ?b = "snapLastIdx rl" and ?es = "tailLog rl"
  from assms(2) have j: "?b \<le> j" "j < log_size rl" "e = ?es ! nat (j - ?b)"
    by (auto simp: log_at_eq split: if_splits)
  then have "e \<in> set ?es" by (auto simp: log_size_def)
  with assms obtain k where k: "k < length ?es" "firstFor rl t = ?b + int k" "le_Term (?es ! k) = t"
      "\<forall>i < k. le_Term (?es ! i) < t"
    using firstFor_loop_found[of ?es t ?b 0] by (auto simp: firstFor_def terms_sorted_def)
  have "\<not> nat (j - ?b) < k" using k(4) j(3) assms(3) by auto
  with j k show ?thesis
    by (auto simp: log_at_eq log_size_def nat_less_iff split: if_splits)
qed

lemma firstFor_absent:
  assumes "\<forall>i e. log_at rl i = Some e \<longrightarrow> le_Term e \<noteq> t"
  shows "firstFor rl t = InvalidIndex"
proof -
  have "le_Term e \<noteq> t" if "e \<in> set (tailLog rl)" for e
  proof -
    from that obtain k where "k < length (tailLog rl)" "e = tailLog rl ! k"
      by (auto simp: in_set_conv_nth)
    then have "log_at rl (snapLastIdx rl + int k) = Some e"
      by (simp add: log_at_eq log_size_def)
    with assms show ?thesis by blast
  qed
  then show ?thesis by (simp add: firstFor_def firstFor_loop_absent)
qed

section \<open>The interface replication relies on\<close>

text \<open>
  An indexed log: a window \<open>[base, size)\<close> of entries, appending at its end, cutting it after
  an index and continuing with given entries, and reading the entries from an index on.
\<close>

locale indexed_log =
  fixes inv :: "'l \<Rightarrow> bool"
    and base :: "'l \<Rightarrow> int"
    and size_of :: "'l \<Rightarrow> int"
    and read :: "'l \<Rightarrow> int \<Rightarrow> 'e option"
    and add :: "'l \<Rightarrow> 'e \<Rightarrow> 'l"
    and cut_add :: "'l \<Rightarrow> int \<Rightarrow> 'e list \<Rightarrow> 'l option"
    and suffix :: "'l \<Rightarrow> int \<Rightarrow> 'e list option"
  assumes window: "inv l \<Longrightarrow> read l i \<noteq> None \<longleftrightarrow> base l \<le> i \<and> i < size_of l"
    and nonempty: "inv l \<Longrightarrow> base l < size_of l"
    and read_add: "inv l \<Longrightarrow> inv (add l e) \<and> read (add l e) = (read l)(size_of l \<mapsto> e)"
    and cut_add_total: "inv l \<Longrightarrow> base l \<le> p \<Longrightarrow> p < size_of l \<Longrightarrow> \<exists>l'. cut_add l p es = Some l'"
    and cut_add_inv: "inv l \<Longrightarrow> cut_add l p es = Some l' \<Longrightarrow> inv l' \<and> base l' = base l"
    and read_cut_add: "inv l \<Longrightarrow> cut_add l p es = Some l' \<Longrightarrow>
      read l' i = (if i \<le> p then read l i else go_nth es (i - p - 1))"
    and suffix_total: "inv l \<Longrightarrow> base l \<le> i \<Longrightarrow> \<exists>es. suffix l i = Some es"
    and read_suffix: "inv l \<Longrightarrow> base l \<le> i \<Longrightarrow> suffix l i = Some es \<Longrightarrow> i \<le> j \<Longrightarrow> go_nth es (j - i) = read l j"
begin

text \<open>Copying the suffix of one log behind a common index makes the logs agree from there on.\<close>

lemma copy_suffix:
  assumes l: "inv l" "base l \<le> p" and f: "inv f" "base f \<le> p" "p < size_of f"
  shows "\<exists>es f'. suffix l (p + 1) = Some es \<and> cut_add f p es = Some f' \<and> inv f' \<and>
    (\<forall>i > p. read f' i = read l i) \<and> (\<forall>i \<le> p. read f' i = read f i)"
proof -
  obtain es where es: "suffix l (p + 1) = Some es"
    using suffix_total[of l "p + 1"] l by auto
  obtain f' where f': "cut_add f p es = Some f'"
    using cut_add_total[of f p es] f by auto
  have "read f' i = read l i" if "p < i" for i
    using read_cut_add[OF f(1) f', of i] read_suffix[OF l(1) _ es, of i] l(2) that
    by (simp add: diff_diff_eq)
  moreover have "read f' i = read f i" if "i \<le> p" for i
    using read_cut_add[OF f(1) f', of i] that by simp
  ultimately show ?thesis
    using es f' cut_add_inv[OF f(1) f'] by blast
qed

lemma cut_add_again:
  assumes "inv f" "cut_add f p es = Some f'"
    and "base f \<le> p" "p < size_of f"
  shows "\<exists>f''. cut_add f' p es = Some f'' \<and> read f'' = read f'"
proof -
  have "inv f'" "base f' = base f" using cut_add_inv[OF assms(1,2)] by auto
  moreover have "p < size_of f'"
    using window[of f' p] window[of f p] read_cut_add[OF assms(1,2), of p] calculation assms by simp
  ultimately obtain f'' where f'': "cut_add f' p es = Some f''"
    using cut_add_total[of f' p es] assms(3) by auto
  have "read f'' i = read f' i" for i
    using read_cut_add[OF \<open>inv f'\<close> f'', of i] read_cut_add[OF assms(1,2), of i] by simp
  with f'' show ?thesis by blast
qed

end

interpretation rl: indexed_log wf_log snapLastIdx log_size log_at log_append appendFrom log_tail
proof (unfold_locales, goal_cases)
  case (1 l i) show ?case by (rule log_at_defined)
next
  case (2 l) then show ?case using wf_log_size by blast
next
  case (3 l e) then show ?case by (auto simp: log_at_append)
next
  case (4 l p es) then show ?case by (simp add: appendFrom_eq)
next
  case (5 l p es l') then show ?case using appendFrom_wf appendFrom_snap by blast
next
  case (6 l p es l' i) then show ?case by (simp add: log_at_appendFrom)
next
  case (7 l i) then show ?case by (simp add: log_tail_eq)
next
  case (8 l i es j)
  then show ?case
    by (auto simp: log_tail_eq log_at_eq go_nth_def log_size_def intro!: arg_cong[where f = "nth (tailLog l)"])
qed

end
