(* ===== verification/Raft_Persist.thy ===== *)
theory Raft_Persist
  imports Raft_Log
begin

text \<open>
  Stable storage: the \<open>Persister\<close> of \<open>raft/persister.go\<close> and the (de)serialisation of the log
  in \<open>raft/raft_log.go\<close>.

  The bytes are written by \<open>labgob\<close>, a checking wrapper around Go's \<open>encoding/gob\<close>. The gob
  format is not part of the repository: it is the parameter \<open>codec\<close> of the definitions, an
  encoder of single values and a decoder that reads the next value off a buffer. What the code
  relies on is \<open>codec_ok\<close>: an encoded value takes at least one byte, and decoding a buffer that
  starts with an encoded value gives that value back and leaves the rest of the buffer.
\<close>

section \<open>The persister\<close>

record 'b persister =
  ps_raftstate :: "'b list"
  ps_snapshot :: "'b list"

definition MakePersister :: "'b persister" where
  "MakePersister = \<lparr>ps_raftstate = [], ps_snapshot = []\<rparr>"

definition ps_Copy :: "'b persister \<Rightarrow> 'b persister" where
  "ps_Copy ps = MakePersister\<lparr>ps_raftstate := ps_raftstate ps, ps_snapshot := ps_snapshot ps\<rparr>"

definition ReadRaftState :: "'b persister \<Rightarrow> 'b list" where
  "ReadRaftState ps = ps_raftstate ps"

definition RaftStateSize :: "'b persister \<Rightarrow> int" where
  "RaftStateSize ps = int (length (ps_raftstate ps))"

definition Save :: "'b persister \<Rightarrow> 'b list \<Rightarrow> 'b list \<Rightarrow> 'b persister" where
  "Save ps raftstate snap = ps\<lparr>ps_raftstate := raftstate, ps_snapshot := snap\<rparr>"

definition ReadSnapshot :: "'b persister \<Rightarrow> 'b list" where
  "ReadSnapshot ps = ps_snapshot ps"

definition SnapshotSize :: "'b persister \<Rightarrow> int" where
  "SnapshotSize ps = int (length (ps_snapshot ps))"

section \<open>The gob stream\<close>

text \<open>The two types of values Raft writes: \<open>int\<close> and \<open>[]LogEntry\<close>.\<close>

datatype 'c gob = GInt int | GLog "'c log_entry list"

record ('c, 'b) codec =
  enc :: "'c gob \<Rightarrow> 'b list"
  dec :: "'b list \<Rightarrow> ('c gob \<times> 'b list) option"

definition codec_ok :: "('c, 'b) codec \<Rightarrow> bool" where
  "codec_ok cd \<longleftrightarrow> (\<forall>v rest. enc cd v \<noteq> [] \<and> dec cd (enc cd v @ rest) = Some (v, rest))"

text \<open>\<open>d.Decode(&x)\<close> with \<open>x\<close> an \<open>int\<close> or a \<open>[]LogEntry\<close>: a value of the other type is an error.\<close>

definition decode_int :: "('c, 'b) codec \<Rightarrow> 'b list \<Rightarrow> (int \<times> 'b list) option" where
  "decode_int cd d = (case dec cd d of Some (GInt i, r) \<Rightarrow> Some (i, r) | _ \<Rightarrow> None)"

definition decode_log :: "('c, 'b) codec \<Rightarrow> 'b list \<Rightarrow> ('c log_entry list \<times> 'b list) option" where
  "decode_log cd d = (case dec cd d of Some (GLog es, r) \<Rightarrow> Some (es, r) | _ \<Rightarrow> None)"

lemma decode_int_enc [simp]: "codec_ok cd \<Longrightarrow> decode_int cd (enc cd (GInt i) @ r) = Some (i, r)"
  by (simp add: codec_ok_def decode_int_def)

lemma decode_log_enc [simp]: "codec_ok cd \<Longrightarrow> decode_log cd (enc cd (GLog es) @ r) = Some (es, r)"
  by (simp add: codec_ok_def decode_log_def)

lemma decode_log_enc_last [simp]: "codec_ok cd \<Longrightarrow> decode_log cd (enc cd (GLog es)) = Some (es, [])"
  using decode_log_enc[of cd es "[]"] by simp

lemma enc_not_Nil [simp]: "codec_ok cd \<Longrightarrow> enc cd v \<noteq> []"
  by (simp add: codec_ok_def)

section \<open>Saving and reading back the log\<close>

definition log_persist :: "('c, 'b) codec \<Rightarrow> ('c, 'b) raft_log \<Rightarrow> 'b list" where
  "log_persist cd rl =
     enc cd (GInt (snapLastIdx rl)) @ enc cd (GInt (snapLastTerm rl)) @ enc cd (GLog (tailLog rl))"

text \<open>\<open>RaftLog.readPersist\<close>: the fields read before an error stay assigned; the flag is
  \<open>err == nil\<close>.\<close>

definition log_readPersist ::
    "('c, 'b) codec \<Rightarrow> ('c, 'b) raft_log \<Rightarrow> 'b list \<Rightarrow> ('c, 'b) raft_log \<times> bool" where
  "log_readPersist cd rl d =
     (case decode_int cd d of None \<Rightarrow> (rl, False) | Some (lastIdx, d1) \<Rightarrow>
        let rl1 = rl\<lparr>snapLastIdx := lastIdx\<rparr> in
      case decode_int cd d1 of None \<Rightarrow> (rl1, False) | Some (lastTerm, d2) \<Rightarrow>
        let rl2 = rl1\<lparr>snapLastTerm := lastTerm\<rparr> in
      case decode_log cd d2 of None \<Rightarrow> (rl2, False) | Some (es, d3) \<Rightarrow>
        (rl2\<lparr>tailLog := es\<rparr>, True))"

lemma log_persist_roundtrip:
  "codec_ok cd \<Longrightarrow> log_readPersist cd rl0 (log_persist cd rl) =
     (rl0\<lparr>snapLastIdx := snapLastIdx rl, snapLastTerm := snapLastTerm rl, tailLog := tailLog rl\<rparr>, True)"
  by (simp add: log_readPersist_def log_persist_def Let_def)

text \<open>A codec that satisfies \<^const>\<open>codec_ok\<close>: one cell of the buffer per value.\<close>

definition cell_codec :: "('c, 'c gob) codec" where
  "cell_codec = \<lparr>enc = (\<lambda>v. [v]), dec = (\<lambda>d. case d of [] \<Rightarrow> None | v # r \<Rightarrow> Some (v, r))\<rparr>"

lemma cell_codec_ok [simp]: "codec_ok cell_codec"
  by (simp add: codec_ok_def cell_codec_def)

end
