(* ===== verification/Raft_Peer.thy ===== *)
theory Raft_Peer
  imports Raft_Persist
begin

text \<open>
  One Raft peer: the state \<open>Raft\<close> of \<open>raft/raft.go\<close>, its role changes, \<open>Start\<close>, \<open>Make\<close> and
  the persistence of \<open>raft/raft_persistence.go\<close>. Every function that the code runs under
  \<open>rf.mu\<close> is a function on this record; log output is left out.

  The clock and the random source are arguments (\<open>env\<close>), the gob format is the argument
  \<open>codec\<close> of \<open>Raft_Persist\<close>. The condition variable \<open>applyCond\<close> is the field \<open>applier\<close>:
  \<open>Signal\<close> wakes the application goroutine when it waits and is lost otherwise.
\<close>

section \<open>State\<close>

datatype Role = Follower | Candidate | Leader

text \<open>Where the goroutine \<open>applicationTicker\<close> stands: in \<open>applyCond.Wait\<close>, woken up, or between
  its two critical sections with the locals \<open>snapPendingApply\<close> and \<open>entries\<close>.\<close>

datatype 'c applier = ApWait | ApReady | ApSend bool "'c log_entry list"

record ('c, 'b) raft =
  peers :: nat
  persister :: "'b persister"
  me :: nat
  dead :: bool
  role :: Role
  currentTerm :: int
  votedFor :: int
  rf_log :: "('c, 'b) raft_log"
  nextIndex :: "int list"
  matchIndex :: "int list"
  commitIndex :: int
  lastApplied :: int
  snapPending :: bool
  applier :: "'c applier"
  electionStart :: int
  electionTimeout :: int

text \<open>The clock (\<open>time.Now\<close>, in nanoseconds) and a result of \<open>rand.Int63\<close>.\<close>

record env =
  now :: int
  rand :: int

section \<open>Persistence\<close>

definition raftstate_of :: "('c, 'b) codec \<Rightarrow> ('c, 'b) raft \<Rightarrow> 'b list" where
  "raftstate_of cd rf =
     enc cd (GInt (currentTerm rf)) @ enc cd (GInt (votedFor rf)) @ log_persist cd (rf_log rf)"

definition persistLocked :: "('c, 'b) codec \<Rightarrow> ('c, 'b) raft \<Rightarrow> ('c, 'b) raft" where
  "persistLocked cd rf =
     rf\<lparr>persister := Save (persister rf) (raftstate_of cd rf) (snapshot (rf_log rf))\<rparr>"

definition readPersist :: "('c, 'b) codec \<Rightarrow> ('c, 'b) raft \<Rightarrow> 'b list \<Rightarrow> ('c, 'b) raft" where
  "readPersist cd rf data =
     (if length data < 1 then rf
      else case decode_int cd data of None \<Rightarrow> rf | Some (t, d1) \<Rightarrow>
        let rf1 = rf\<lparr>currentTerm := t\<rparr> in
      case decode_int cd d1 of None \<Rightarrow> rf1 | Some (v, d2) \<Rightarrow>
        let rf2 = rf1\<lparr>votedFor := v\<rparr>;
            (l, ok) = log_readPersist cd (rf_log rf2) d2 in
        if \<not> ok then rf2\<lparr>rf_log := l\<rparr>
        else
          let rf3 = rf2\<lparr>rf_log := l\<lparr>snapshot := ReadSnapshot (persister rf2)\<rparr>\<rparr> in
          if snapLastIdx (rf_log rf3) > commitIndex rf3
          then rf3\<lparr>commitIndex := snapLastIdx (rf_log rf3), lastApplied := snapLastIdx (rf_log rf3)\<rparr>
          else rf3)"

text \<open>\<open>Make\<close>: a peer started with what its persister holds.\<close>

definition Make :: "('c, 'b) codec \<Rightarrow> nat \<Rightarrow> nat \<Rightarrow> 'b persister \<Rightarrow> ('c, 'b) raft" where
  "Make cd n i ps =
     (let rf = \<lparr>peers = n, persister = ps, me = i, dead = False, role = Follower,
                currentTerm = 1, votedFor = -1,
                rf_log = NewLog InvalidIndex InvalidTerm [] [],
                nextIndex = replicate n 0, matchIndex = replicate n 0,
                commitIndex = 0, lastApplied = 0, snapPending = False, applier = ApWait,
                electionStart = 0, electionTimeout = 0\<rparr>
      in readPersist cd rf (ReadRaftState ps))"

section \<open>Role changes\<close>

definition becomeFollowerLocked :: "('c, 'b) codec \<Rightarrow> ('c, 'b) raft \<Rightarrow> int \<Rightarrow> ('c, 'b) raft" where
  "becomeFollowerLocked cd rf t =
     (if t < currentTerm rf then rf
      else
        let shouldPersist = (currentTerm rf \<noteq> t);
            rf1 = rf\<lparr>role := Follower\<rparr>;
            rf2 = (if t > currentTerm rf1 then rf1\<lparr>votedFor := -1\<rparr> else rf1);
            rf3 = rf2\<lparr>currentTerm := t\<rparr>
        in if shouldPersist then persistLocked cd rf3 else rf3)"

definition becomeCandidateLocked :: "('c, 'b) codec \<Rightarrow> ('c, 'b) raft \<Rightarrow> ('c, 'b) raft" where
  "becomeCandidateLocked cd rf =
     (if role rf = Leader then rf
      else persistLocked cd
        (rf\<lparr>currentTerm := currentTerm rf + 1, role := Candidate, votedFor := int (me rf)\<rparr>))"

definition becomeLeaderLocked :: "('c, 'b) raft \<Rightarrow> ('c, 'b) raft" where
  "becomeLeaderLocked rf =
     (if role rf \<noteq> Candidate then rf
      else rf\<lparr>role := Leader,
              nextIndex := map (\<lambda>_. log_size (rf_log rf)) [0..<peers rf],
              matchIndex := map (\<lambda>_. 0) [0..<peers rf]\<rparr>)"

definition contextLostLocked :: "('c, 'b) raft \<Rightarrow> Role \<Rightarrow> int \<Rightarrow> bool" where
  "contextLostLocked rf r t \<longleftrightarrow> \<not> (currentTerm rf = t \<and> role rf = r)"

section \<open>The interface to the service\<close>

definition GetState :: "('c, 'b) raft \<Rightarrow> int \<times> bool" where
  "GetState rf = (currentTerm rf, role rf = Leader)"

definition GetRaftStateSize :: "('c, 'b) raft \<Rightarrow> int" where
  "GetRaftStateSize rf = RaftStateSize (persister rf)"

definition Start :: "('c, 'b) codec \<Rightarrow> ('c, 'b) raft \<Rightarrow> 'c \<Rightarrow> ('c, 'b) raft \<times> int \<times> int \<times> bool" where
  "Start cd rf command =
     (if role rf \<noteq> Leader then (rf, 0, 0, False)
      else
        let rf1 = rf\<lparr>rf_log := log_append (rf_log rf)
                      \<lparr>le_Term = currentTerm rf, le_CommandValid = True, le_Command = Some command\<rparr>\<rparr>;
            rf2 = persistLocked cd rf1
        in (rf2, log_size (rf_log rf2) - 1, currentTerm rf2, True))"

definition Kill :: "('c, 'b) raft \<Rightarrow> ('c, 'b) raft" where
  "Kill rf = rf\<lparr>dead := True\<rparr>"

definition killed :: "('c, 'b) raft \<Rightarrow> bool" where
  "killed rf = dead rf"

definition Signal :: "('c, 'b) raft \<Rightarrow> ('c, 'b) raft" where
  "Signal rf = (case applier rf of ApWait \<Rightarrow> rf\<lparr>applier := ApReady\<rparr> | _ \<Rightarrow> rf)"

lemmas [raft_defs] = persistLocked_def becomeFollowerLocked_def becomeCandidateLocked_def
  becomeLeaderLocked_def contextLostLocked_def Start_def Kill_def Signal_def Let_def

section \<open>What survives a crash\<close>

text \<open>A peer is durable when \<open>Make\<close> on its persister restores term, vote and log.\<close>

definition durable :: "('c, 'b) codec \<Rightarrow> ('c, 'b) raft \<Rightarrow> bool" where
  "durable cd rf \<longleftrightarrow>
     (let rf' = Make cd (peers rf) (me rf) (persister rf)
      in currentTerm rf' = currentTerm rf \<and> votedFor rf' = votedFor rf \<and> rf_log rf' = rf_log rf)"

lemma readPersist_raftstate:
  assumes "codec_ok cd" "persister rf0 = Save ps (raftstate_of cd rf) (snapshot (rf_log rf))"
  shows "readPersist cd rf0 (raftstate_of cd rf) =
    (let rf1 = rf0\<lparr>currentTerm := currentTerm rf, votedFor := votedFor rf, rf_log := rf_log rf\<rparr>
     in if snapLastIdx (rf_log rf) > commitIndex rf0
        then rf1\<lparr>commitIndex := snapLastIdx (rf_log rf), lastApplied := snapLastIdx (rf_log rf)\<rparr>
        else rf1)"
proof -
  have "length (raftstate_of cd rf) \<noteq> 0" using assms(1) by (simp add: raftstate_of_def)
  then have "\<not> length (raftstate_of cd rf) < 1" by linarith
  then show ?thesis
    using assms
    by (simp add: readPersist_def raftstate_of_def log_persist_roundtrip ReadSnapshot_def Save_def Let_def)
qed

lemma persistLocked_durable: "codec_ok cd \<Longrightarrow> durable cd (persistLocked cd rf)"
  by (simp add: durable_def Make_def persistLocked_def ReadRaftState_def Save_def Let_def
      readPersist_raftstate[where ps = "persister rf", unfolded Save_def])

text \<open>Durability depends on five fields only, so a handler that writes none of them keeps it.\<close>

lemma durable_cong:
  "\<lbrakk>durable cd rf; peers rf' = peers rf; me rf' = me rf; persister rf' = persister rf;
    currentTerm rf' = currentTerm rf; votedFor rf' = votedFor rf; rf_log rf' = rf_log rf\<rbrakk>
   \<Longrightarrow> durable cd rf'"
  by (simp add: durable_def)

lemma durable_fresh: "durable cd (Make cd n i MakePersister)"
  by (simp add: durable_def Make_def MakePersister_def ReadRaftState_def readPersist_def)

end
