(* ===== verification/Raft_Handlers.thy ===== *)
theory Raft_Handlers
  imports Raft_Peer
begin

text \<open>
  The RPC handlers and goroutine bodies of one peer: \<open>raft/raft_election.go\<close>,
  \<open>raft/raft_replication.go\<close>, \<open>raft/raft_compaction.go\<close> and \<open>raft/raft_application.go\<close>.

  A goroutine that calls another peer is cut at the call: the part before it returns the
  requests to send, the part after it is a function of the reply (with the flag \<open>ok\<close> of
  \<open>Call\<close>) and of the variables it captured. \<^const>\<open>None\<close> is a panic while the lock is held.
\<close>

section \<open>Election\<close>

definition electionTimeoutMin :: int where "electionTimeoutMin = 250 * 1000000"

definition electionTimeoutMax :: int where "electionTimeoutMax = 400 * 1000000"

definition resetElectionTimerLocked :: "env \<Rightarrow> ('c, 'b) raft \<Rightarrow> ('c, 'b) raft" where
  "resetElectionTimerLocked e rf =
     (let randRange = electionTimeoutMax - electionTimeoutMin
      in rf\<lparr>electionStart := now e, electionTimeout := electionTimeoutMin + rand e mod randRange\<rparr>)"

definition isElectionTimeoutLocked :: "env \<Rightarrow> ('c, 'b) raft \<Rightarrow> bool" where
  "isElectionTimeoutLocked e rf \<longleftrightarrow> now e - electionStart rf > electionTimeout rf"

definition isMoreUpToDateLocked :: "('c, 'b) raft \<Rightarrow> int \<Rightarrow> int \<Rightarrow> bool option" where
  "isMoreUpToDateLocked rf candidateIndex candidateTerm =
     do { (lastIndex, lastTerm) \<leftarrow> log_last (rf_log rf);
          Some (if lastTerm \<noteq> candidateTerm then lastTerm > candidateTerm
                else lastIndex > candidateIndex) }"

record RequestVoteArgs =
  rva_Term :: int
  rva_CandidateId :: int
  rva_LastLogIndex :: int
  rva_LastLogTerm :: int

record RequestVoteReply =
  rvr_Term :: int
  rvr_VoteGranted :: bool

definition RequestVote ::
    "('c, 'b) codec \<Rightarrow> env \<Rightarrow> ('c, 'b) raft \<Rightarrow> RequestVoteArgs \<Rightarrow> (('c, 'b) raft \<times> RequestVoteReply) option" where
  "RequestVote cd e rf args =
     (let reply = \<lparr>rvr_Term = currentTerm rf, rvr_VoteGranted = False\<rparr> in
      if rva_Term args < currentTerm rf then Some (rf, reply)
      else
        let rf1 = (if rva_Term args > currentTerm rf then becomeFollowerLocked cd rf (rva_Term args) else rf) in
        if votedFor rf1 \<noteq> -1 then Some (rf1, reply)
        else do {
          more \<leftarrow> isMoreUpToDateLocked rf1 (rva_LastLogIndex args) (rva_LastLogTerm args);
          (if more then Some (rf1, reply)
           else
             let rf2 = persistLocked cd (rf1\<lparr>votedFor := rva_CandidateId args\<rparr>);
                 rf3 = resetElectionTimerLocked e rf2
             in Some (rf3, reply\<lparr>rvr_VoteGranted := True\<rparr>)) })"

text \<open>\<open>startElection\<close> up to the \<open>go\<close> statements: the initial vote count and the requests, one per
  other peer; no request when the candidacy is over.\<close>

definition startElection ::
    "('c, 'b) raft \<Rightarrow> int \<Rightarrow> (int \<times> (nat \<times> RequestVoteArgs) list) option" where
  "startElection rf t =
     (if contextLostLocked rf Candidate t then Some (0, [])
      else do {
        (lastIdx, lastTerm) \<leftarrow> log_last (rf_log rf);
        Some (int (length (filter (\<lambda>p. p = me rf) [0..<peers rf])),
              map (\<lambda>p. (p, \<lparr>rva_Term = currentTerm rf, rva_CandidateId = int (me rf),
                             rva_LastLogIndex = lastIdx, rva_LastLogTerm = lastTerm\<rparr>))
                (filter (\<lambda>p. p \<noteq> me rf) [0..<peers rf])) })"

text \<open>\<open>askVoteFromPeer\<close> after the call: the peer, the shared vote count, and whether the
  replication goroutine is started.\<close>

definition askVoteFromPeer ::
    "('c, 'b) codec \<Rightarrow> ('c, 'b) raft \<Rightarrow> int \<Rightarrow> int \<Rightarrow> bool \<Rightarrow> RequestVoteReply \<Rightarrow> ('c, 'b) raft \<times> int \<times> bool" where
  "askVoteFromPeer cd rf t votes ok reply =
     (if \<not> ok then (rf, votes, False)
      else if rvr_Term reply > currentTerm rf
      then (becomeFollowerLocked cd rf (rvr_Term reply), votes, False)
      else if contextLostLocked rf Candidate t then (rf, votes, False)
      else if rvr_VoteGranted reply then
        let votes' = votes + 1
        in if votes' > int (peers rf) div 2 then (becomeLeaderLocked rf, votes', True)
           else (rf, votes', False)
      else (rf, votes, False))"

text \<open>One turn of \<open>electionTicker\<close>: the term of the election to start, if any.\<close>

definition electionTicker :: "('c, 'b) codec \<Rightarrow> env \<Rightarrow> ('c, 'b) raft \<Rightarrow> ('c, 'b) raft \<times> int option" where
  "electionTicker cd e rf =
     (if killed rf then (rf, None)
      else if role rf \<noteq> Leader \<and> isElectionTimeoutLocked e rf
      then let rf1 = becomeCandidateLocked cd rf in (rf1, Some (currentTerm rf1))
      else (rf, None))"

section \<open>Replication\<close>

record 'c AppendEntriesArgs =
  aea_Term :: int
  aea_LeaderId :: int
  aea_PrevLogIndex :: int
  aea_PrevLogTerm :: int
  aea_Entries :: "'c log_entry list"
  aea_LeaderCommit :: int

record AppendEntriesReply =
  aer_Term :: int
  aer_Success :: bool
  aer_ConfilictIndex :: int
  aer_ConfilictTerm :: int

definition AppendEntries ::
    "('c, 'b) codec \<Rightarrow> env \<Rightarrow> ('c, 'b) raft \<Rightarrow> 'c AppendEntriesArgs
      \<Rightarrow> (('c, 'b) raft \<times> AppendEntriesReply) option" where
  "AppendEntries cd e rf args =
     (let reply = \<lparr>aer_Term = currentTerm rf, aer_Success = False, aer_ConfilictIndex = 0, aer_ConfilictTerm = 0\<rparr> in
      if aea_Term args < currentTerm rf then Some (rf, reply)
      else
        let rf1 = becomeFollowerLocked cd rf (aea_Term args); l = rf_log rf1; prev = aea_PrevLogIndex args in
        if prev \<ge> log_size l
        then Some (resetElectionTimerLocked e rf1,
                   reply\<lparr>aer_ConfilictTerm := InvalidTerm, aer_ConfilictIndex := log_size l\<rparr>)
        else if prev < snapLastIdx l
        then Some (resetElectionTimerLocked e rf1,
                   reply\<lparr>aer_ConfilictTerm := snapLastTerm l, aer_ConfilictIndex := snapLastIdx l\<rparr>)
        else do {
          pe \<leftarrow> log_at l prev;
          (if le_Term pe \<noteq> aea_PrevLogTerm args
           then Some (resetElectionTimerLocked e rf1,
                      reply\<lparr>aer_ConfilictTerm := le_Term pe, aer_ConfilictIndex := firstFor l (le_Term pe)\<rparr>)
           else do {
             l2 \<leftarrow> appendFrom l prev (aea_Entries args);
             (let rf2 = persistLocked cd (rf1\<lparr>rf_log := l2\<rparr>);
                  rf3 = (if aea_LeaderCommit args > commitIndex rf2
                         then Signal (rf2\<lparr>commitIndex := aea_LeaderCommit args\<rparr>) else rf2)
              in Some (resetElectionTimerLocked e rf3, reply\<lparr>aer_Success := True\<rparr>)) }) })"

text \<open>\<open>getMajorityIndexLocked\<close>: \<open>copy\<close> into a slice of \<open>len(rf.peers)\<close> zeros, sort, middle element.\<close>

definition getMajorityIndexLocked :: "('c, 'b) raft \<Rightarrow> int option" where
  "getMajorityIndexLocked rf =
     (let n = peers rf;
          tmpIndexes = take n (matchIndex rf) @ replicate (n - length (matchIndex rf)) 0
      in go_nth (sort tmpIndexes) ((int n - 1) div 2))"

text \<open>Where \<open>replicateToPeer\<close> probes next after a conflict, given the present \<open>nextIndex[peer]\<close>; a
  late reply never moves it forward.\<close>

definition probe_next :: "('c, 'b) raft \<Rightarrow> AppendEntriesReply \<Rightarrow> int \<Rightarrow> int" where
  "probe_next rf reply prevIndex =
     (let probe =
        (if aer_ConfilictTerm reply = InvalidTerm then aer_ConfilictIndex reply
         else let firstIndex = firstFor (rf_log rf) (aer_ConfilictTerm reply)
              in if firstIndex \<noteq> InvalidIndex then firstIndex else aer_ConfilictIndex reply)
      in if probe > prevIndex then prevIndex else probe)"

text \<open>\<open>replicateToPeer\<close> after the call.\<close>

definition replicateToPeer ::
    "('c, 'b) codec \<Rightarrow> ('c, 'b) raft \<Rightarrow> int \<Rightarrow> nat \<Rightarrow> 'c AppendEntriesArgs \<Rightarrow> bool \<Rightarrow> AppendEntriesReply
      \<Rightarrow> ('c, 'b) raft option" where
  "replicateToPeer cd rf t peer args ok reply =
     (if \<not> ok then Some rf
      else if aer_Term reply > currentTerm rf then Some (becomeFollowerLocked cd rf (aer_Term reply))
      else if contextLostLocked rf Leader t then Some rf
      else if \<not> aer_Success reply then do {
        prevIndex \<leftarrow> go_nth (nextIndex rf) (int peer);
        (let next = probe_next rf reply prevIndex
         in do {
           nextIndex' \<leftarrow> go_set (nextIndex rf) (int peer) next;
           _ \<leftarrow> (if next - 1 \<ge> snapLastIdx (rf_log rf) then log_at (rf_log rf) (next - 1) else Some (mock_entry 0));
           Some (rf\<lparr>nextIndex := nextIndex'\<rparr>) }) }
      else do {
        matchIndex' \<leftarrow> go_set (matchIndex rf) (int peer) (aea_PrevLogIndex args + int (length (aea_Entries args)));
        nextIndex' \<leftarrow> go_set (nextIndex rf) (int peer) (aea_PrevLogIndex args + int (length (aea_Entries args)) + 1);
        (let rf1 = rf\<lparr>matchIndex := matchIndex', nextIndex := nextIndex'\<rparr>
         in do {
           majorityMatched \<leftarrow> getMajorityIndexLocked rf1;
           (if majorityMatched > commitIndex rf1
            then do { me \<leftarrow> log_at (rf_log rf1) majorityMatched;
                      Some (if le_Term me = currentTerm rf1
                            then Signal (rf1\<lparr>commitIndex := majorityMatched\<rparr>) else rf1) }
            else Some rf1) }) })"

record 'b InstallSnapshotArgs =
  isa_Term :: int
  isa_LeaderId :: int
  isa_LastIncludedIndex :: int
  isa_LastIncludedTerm :: int
  isa_Snapshot :: "'b list"

datatype ('c, 'b) repl_msg =
  SendAppend nat "'c AppendEntriesArgs"
| SendSnap nat "'b InstallSnapshotArgs"

text \<open>The body of the loop of \<open>startReplication\<close> for another peer: the request that the goroutine
  \<open>installToPeer\<close> or \<open>replicateToPeer\<close> will send.\<close>

definition replication_msg :: "('c, 'b) raft \<Rightarrow> nat \<Rightarrow> ('c, 'b) repl_msg option" where
  "replication_msg rf peer =
     (let l = rf_log rf in
      do { ni \<leftarrow> go_nth (nextIndex rf) (int peer);
           (let prevIdx = ni - 1 in
            if prevIdx < snapLastIdx l
            then Some (SendSnap peer \<lparr>isa_Term = currentTerm rf, isa_LeaderId = int (me rf),
              isa_LastIncludedIndex = snapLastIdx l, isa_LastIncludedTerm = snapLastTerm l,
              isa_Snapshot = snapshot l\<rparr>)
            else do {
              pe \<leftarrow> log_at l prevIdx;
              es \<leftarrow> log_tail l (prevIdx + 1);
              Some (SendAppend peer \<lparr>aea_Term = currentTerm rf, aea_LeaderId = int (me rf),
                aea_PrevLogIndex = prevIdx, aea_PrevLogTerm = le_Term pe, aea_Entries = es,
                aea_LeaderCommit = commitIndex rf\<rparr>) }) })"

fun replication_loop ::
    "('c, 'b) raft \<Rightarrow> nat list \<Rightarrow> (('c, 'b) raft \<times> ('c, 'b) repl_msg list) option" where
  "replication_loop rf [] = Some (rf, [])"
| "replication_loop rf (peer # ps) =
     (if peer = me rf then do {
        m \<leftarrow> go_set (matchIndex rf) (int peer) (log_size (rf_log rf) - 1);
        n \<leftarrow> go_set (nextIndex rf) (int peer) (log_size (rf_log rf));
        replication_loop (rf\<lparr>matchIndex := m, nextIndex := n\<rparr>) ps }
      else do {
        msg \<leftarrow> replication_msg rf peer;
        (rf', ms) \<leftarrow> replication_loop rf ps;
        Some (rf', msg # ms) })"

text \<open>\<open>startReplication\<close>: the flag is its result, \<open>false\<close> when the leadership is over.\<close>

definition startReplication ::
    "('c, 'b) raft \<Rightarrow> int \<Rightarrow> (('c, 'b) raft \<times> bool \<times> ('c, 'b) repl_msg list) option" where
  "startReplication rf t =
     (if contextLostLocked rf Leader t then Some (rf, False, [])
      else do { (rf', ms) \<leftarrow> replication_loop rf [0..<peers rf]; Some (rf', True, ms) })"

section \<open>Compaction\<close>

text \<open>\<open>Raft.Snapshot\<close>, called by the service.\<close>

definition raft_Snapshot :: "('c, 'b) codec \<Rightarrow> ('c, 'b) raft \<Rightarrow> int \<Rightarrow> 'b list \<Rightarrow> ('c, 'b) raft option" where
  "raft_Snapshot cd rf index snap =
     (if index > commitIndex rf then Some rf
      else if index \<le> snapLastIdx (rf_log rf) then Some rf
      else do { l \<leftarrow> doSnapshot (rf_log rf) index snap;
                Some (persistLocked cd (rf\<lparr>rf_log := l\<rparr>)) })"

record InstallSnapshotReply =
  isr_Term :: int

definition InstallSnapshot ::
    "('c, 'b) codec \<Rightarrow> ('c, 'b) raft \<Rightarrow> 'b InstallSnapshotArgs \<Rightarrow> ('c, 'b) raft \<times> InstallSnapshotReply" where
  "InstallSnapshot cd rf args =
     (let reply = \<lparr>isr_Term = currentTerm rf\<rparr> in
      if isa_Term args < currentTerm rf then (rf, reply)
      else
        let rf1 = becomeFollowerLocked cd rf (isa_Term args) in
        if snapLastIdx (rf_log rf1) \<ge> isa_LastIncludedIndex args then (rf1, reply)
        else
          let rf2 = rf1\<lparr>rf_log := installSnapshot (rf_log rf1) (isa_LastIncludedIndex args)
                                   (isa_LastIncludedTerm args) (isa_Snapshot args)\<rparr>;
              rf3 = persistLocked cd rf2
          in (Signal (rf3\<lparr>snapPending := True\<rparr>), reply))"

text \<open>\<open>installToPeer\<close> after the call.\<close>

definition installToPeer ::
    "('c, 'b) codec \<Rightarrow> ('c, 'b) raft \<Rightarrow> nat \<Rightarrow> int \<Rightarrow> 'b InstallSnapshotArgs \<Rightarrow> bool \<Rightarrow> InstallSnapshotReply
      \<Rightarrow> ('c, 'b) raft option" where
  "installToPeer cd rf peer t args ok reply =
     (if \<not> ok then Some rf
      else if isr_Term reply > currentTerm rf then Some (becomeFollowerLocked cd rf (isr_Term reply))
      else if contextLostLocked rf Leader t then Some rf
      else do {
        mi \<leftarrow> go_nth (matchIndex rf) (int peer);
        (if isa_LastIncludedIndex args > mi
         then do { m \<leftarrow> go_set (matchIndex rf) (int peer) (isa_LastIncludedIndex args);
                   n \<leftarrow> go_set (nextIndex rf) (int peer) (isa_LastIncludedIndex args + 1);
                   Some (rf\<lparr>matchIndex := m, nextIndex := n\<rparr>) }
         else Some rf) })"

section \<open>Application\<close>

record ('c, 'b) ApplyMsg =
  am_CommandValid :: bool
  am_Command :: "'c option"
  am_CommandIndex :: int
  am_SnapshotValid :: bool
  am_Snapshot :: "'b list"
  am_SnapshotTerm :: int
  am_SnapshotIndex :: int

text \<open>\<open>applicationTicker\<close>: the first critical section after \<open>Wait\<close> returns.\<close>

definition application_collect :: "('c, 'b) raft \<Rightarrow> ('c, 'b) raft option" where
  "application_collect rf =
     (if snapPending rf then Some (rf\<lparr>applier := ApSend True []\<rparr>)
      else
        let rf1 = (if lastApplied rf < snapLastIdx (rf_log rf)
                   then rf\<lparr>lastApplied := snapLastIdx (rf_log rf)\<rparr> else rf);
            start = lastApplied rf1 + 1;
            end' = (if commitIndex rf1 \<ge> log_size (rf_log rf1) then log_size (rf_log rf1) - 1
                    else commitIndex rf1)
        in do { es \<leftarrow> those (map (log_at (rf_log rf1)) [start..end']);
                Some (rf1\<lparr>applier := ApSend False es\<rparr>) })"

text \<open>The messages sent on \<open>applyCh\<close> without the lock, read off the state at that moment.\<close>

definition application_msgs :: "('c, 'b) raft \<Rightarrow> bool \<Rightarrow> 'c log_entry list \<Rightarrow> ('c, 'b) ApplyMsg list" where
  "application_msgs rf snapPendingApply entries =
     (if \<not> snapPendingApply
      then map (\<lambda>(i, entry). \<lparr>am_CommandValid = le_CommandValid entry, am_Command = le_Command entry,
                  am_CommandIndex = lastApplied rf + 1 + int i,
                  am_SnapshotValid = False, am_Snapshot = [], am_SnapshotTerm = 0, am_SnapshotIndex = 0\<rparr>)
             (enumerate 0 entries)
      else [\<lparr>am_CommandValid = False, am_Command = None, am_CommandIndex = 0,
              am_SnapshotValid = True, am_Snapshot = snapshot (rf_log rf),
              am_SnapshotTerm = snapLastTerm (rf_log rf), am_SnapshotIndex = snapLastIdx (rf_log rf)\<rparr>])"

text \<open>The second critical section, and back to \<open>Wait\<close>.\<close>

definition application_finish :: "('c, 'b) raft \<Rightarrow> bool \<Rightarrow> 'c log_entry list \<Rightarrow> ('c, 'b) raft" where
  "application_finish rf snapPendingApply entries =
     (if \<not> snapPendingApply
      then rf\<lparr>lastApplied := lastApplied rf + int (length entries), applier := ApWait\<rparr>
      else
        let rf1 = rf\<lparr>lastApplied := snapLastIdx (rf_log rf)\<rparr>;
            rf2 = (if commitIndex rf1 < lastApplied rf1 then rf1\<lparr>commitIndex := lastApplied rf1\<rparr> else rf1)
        in rf2\<lparr>snapPending := False, applier := ApWait\<rparr>)"

lemmas [raft_defs] = resetElectionTimerLocked_def RequestVote_def askVoteFromPeer_def electionTicker_def
  AppendEntries_def replicateToPeer_def startReplication_def raft_Snapshot_def InstallSnapshot_def
  installToPeer_def application_collect_def application_finish_def

end
