(* ===== verification/KV_Server.thy ===== *)
theory KV_Server
  imports Service_Common Raft_Handlers
begin

text \<open>
  The key/value service on one Raft group: \<open>kvraft/common.go\<close>, \<open>kvraft/state_machine.go\<close> and
  \<open>kvraft/server.go\<close>. The server holds its Raft peer; a request is cut where it waits for its
  channel. The gob encoding of a snapshot is the argument \<open>snap_codec\<close>.

  \<^const>\<open>None\<close> is a panic, or a goroutine that blocks for ever in a send.
\<close>

section \<open>Data\<close>

datatype OperationType = OpGet | OpPut | OpAppend

record Op =
  op_Key :: string
  op_Value :: string
  op_OpType :: OperationType
  op_ClientId :: int
  op_SeqId :: int

record OpReply =
  or_Value :: string
  or_Err :: Err

record LastOperationInfo =
  lo_SeqId :: int
  lo_Reply :: OpReply

record PutAppendArgs =
  pa_Key :: string
  pa_Value :: string
  pa_Op :: string
  pa_ClientId :: int
  pa_SeqId :: int

definition getOperationType :: "string \<Rightarrow> OperationType option" where
  "getOperationType v = (if v = ''Put'' then Some OpPut else if v = ''Append'' then Some OpAppend else None)"

section \<open>The state machine\<close>

record MemoryKVStateMachine =
  KV :: "string \<Rightarrow> string option"

definition NewMemoryKVStateMachine :: MemoryKVStateMachine where
  "NewMemoryKVStateMachine = \<lparr>KV = (\<lambda>_. None)\<rparr>"

definition mkv_Get :: "MemoryKVStateMachine \<Rightarrow> string \<Rightarrow> string \<times> Err" where
  "mkv_Get mkv key = (case KV mkv key of Some value \<Rightarrow> (value, OK) | None \<Rightarrow> ([], ErrNoKey))"

definition mkv_Put :: "MemoryKVStateMachine \<Rightarrow> string \<Rightarrow> string \<Rightarrow> MemoryKVStateMachine \<times> Err" where
  "mkv_Put mkv key value = (mkv\<lparr>KV := (KV mkv)(key \<mapsto> value)\<rparr>, OK)"

definition mkv_Append :: "MemoryKVStateMachine \<Rightarrow> string \<Rightarrow> string \<Rightarrow> MemoryKVStateMachine \<times> Err" where
  "mkv_Append mkv key value =
     (mkv\<lparr>KV := (KV mkv)(key \<mapsto> (case KV mkv key of Some v \<Rightarrow> v | None \<Rightarrow> []) @ value)\<rparr>, OK)"

interpretation mkv: kv_store mkv_Get mkv_Put mkv_Append
  by unfold_locales (auto simp: mkv_Get_def mkv_Put_def mkv_Append_def split: option.splits)

definition applyToStateMachine :: "MemoryKVStateMachine \<Rightarrow> Op \<Rightarrow> MemoryKVStateMachine \<times> OpReply" where
  "applyToStateMachine sm oper =
     (case op_OpType oper of
        OpGet \<Rightarrow> let (value, err) = mkv_Get sm (op_Key oper) in (sm, \<lparr>or_Value = value, or_Err = err\<rparr>)
      | OpPut \<Rightarrow> let (sm', err) = mkv_Put sm (op_Key oper) (op_Value oper) in (sm', \<lparr>or_Value = [], or_Err = err\<rparr>)
      | OpAppend \<Rightarrow> let (sm', err) = mkv_Append sm (op_Key oper) (op_Value oper) in (sm', \<lparr>or_Value = [], or_Err = err\<rparr>))"

section \<open>The server\<close>

type_synonym dup_table = "int \<Rightarrow> LastOperationInfo option"

text \<open>\<open>labgob\<close> on a snapshot: an encoder and a decoder of the two values the server stores. What the
  server relies on is \<open>snap_ok\<close>.\<close>

record ('s, 'b) snap_codec =
  snap_enc :: "'s \<Rightarrow> 'b list"
  snap_dec :: "'b list \<Rightarrow> 's option"

definition snap_ok :: "('s, 'b) snap_codec \<Rightarrow> bool" where
  "snap_ok sc \<longleftrightarrow> (\<forall>v. snap_enc sc v \<noteq> [] \<and> snap_dec sc (snap_enc sc v) = Some v)"

definition cell_snap :: "('s, 's) snap_codec" where
  "cell_snap = \<lparr>snap_enc = (\<lambda>v. [v]), snap_dec = (\<lambda>d. case d of [] \<Rightarrow> None | v # _ \<Rightarrow> Some v)\<rparr>"

lemma cell_snap_ok [simp]: "snap_ok cell_snap"
  by (simp add: snap_ok_def cell_snap_def)

record 'b KVServer =
  kv_rf :: "(Op, 'b) raft"
  kv_dead :: bool
  kv_maxraftstate :: int
  kv_lastApplied :: int
  kv_stateMachine :: MemoryKVStateMachine
  kv_notifyChans :: "OpReply chans"
  kv_duplicateTable :: dup_table

definition requestDuplicated :: "dup_table \<Rightarrow> int \<Rightarrow> int \<Rightarrow> bool" where
  "requestDuplicated t clientId seqId = (case t clientId of Some info \<Rightarrow> seqId \<le> lo_SeqId info | None \<Rightarrow> False)"

text \<open>\<open>Get\<close> and \<open>PutAppend\<close> up to the wait: the reply, or the log index whose channel to wait on.\<close>

definition kv_Get :: "(Op, 'b) codec \<Rightarrow> 'b KVServer \<Rightarrow> string \<Rightarrow> 'b KVServer \<times> (OpReply + int)" where
  "kv_Get cd kv key =
     (let (rf', index, _, isLeader) =
        Start cd (kv_rf kv) \<lparr>op_Key = key, op_Value = [], op_OpType = OpGet, op_ClientId = 0, op_SeqId = 0\<rparr>;
          kv' = kv\<lparr>kv_rf := rf'\<rparr>
      in if \<not> isLeader then (kv', Inl \<lparr>or_Value = [], or_Err = ErrWrongLeader\<rparr>) else (kv', Inr index))"

definition kv_PutAppend :: "(Op, 'b) codec \<Rightarrow> 'b KVServer \<Rightarrow> PutAppendArgs \<Rightarrow> ('b KVServer \<times> (Err + int)) option" where
  "kv_PutAppend cd kv args =
     (if requestDuplicated (kv_duplicateTable kv) (pa_ClientId args) (pa_SeqId args)
      then do { info \<leftarrow> kv_duplicateTable kv (pa_ClientId args); Some (kv, Inl (or_Err (lo_Reply info))) }
      else do {
        opType \<leftarrow> getOperationType (pa_Op args);
        (let (rf', index, _, isLeader) =
           Start cd (kv_rf kv) \<lparr>op_Key = pa_Key args, op_Value = pa_Value args, op_OpType = opType,
             op_ClientId = pa_ClientId args, op_SeqId = pa_SeqId args\<rparr>;
             kv' = kv\<lparr>kv_rf := rf'\<rparr>
         in Some (if \<not> isLeader then (kv', Inl ErrWrongLeader) else (kv', Inr index))) })"

text \<open>The wait: the channel of the index, its result (or the timeout, which changes nothing), and the
  removal of the channel.\<close>

definition kv_await :: "'b KVServer \<Rightarrow> int \<Rightarrow> 'b KVServer \<times> nat" where
  "kv_await kv index =
     (let (c, a) = getNotifyChannel (kv_notifyChans kv) index in (kv\<lparr>kv_notifyChans := c\<rparr>, a))"

definition kv_result :: "'b KVServer \<Rightarrow> nat \<Rightarrow> ('b KVServer \<times> OpReply) option" where
  "kv_result kv a = do { (c, r) \<leftarrow> chan_recv (kv_notifyChans kv) a; Some (kv\<lparr>kv_notifyChans := c\<rparr>, r) }"

definition kv_forget :: "'b KVServer \<Rightarrow> int \<Rightarrow> 'b KVServer" where
  "kv_forget kv index = kv\<lparr>kv_notifyChans := removeNotifyChannel (kv_notifyChans kv) index\<rparr>"

definition kv_Kill :: "'b KVServer \<Rightarrow> 'b KVServer" where
  "kv_Kill kv = kv\<lparr>kv_dead := True, kv_rf := Kill (kv_rf kv)\<rparr>"

definition kv_killed :: "'b KVServer \<Rightarrow> bool" where
  "kv_killed kv = kv_dead kv"

section \<open>Snapshots\<close>

definition kv_makeSnapshot ::
    "(Op, 'b) codec \<Rightarrow> (MemoryKVStateMachine \<times> dup_table, 'b) snap_codec \<Rightarrow> 'b KVServer \<Rightarrow> int \<Rightarrow> 'b KVServer option" where
  "kv_makeSnapshot cd sc kv index =
     do { rf' \<leftarrow> raft_Snapshot cd (kv_rf kv) index (snap_enc sc (kv_stateMachine kv, kv_duplicateTable kv));
          Some (kv\<lparr>kv_rf := rf'\<rparr>) }"

definition kv_restoreFromSnapshot ::
    "(MemoryKVStateMachine \<times> dup_table, 'b) snap_codec \<Rightarrow> 'b KVServer \<Rightarrow> 'b list \<Rightarrow> 'b KVServer option" where
  "kv_restoreFromSnapshot sc kv snap =
     (if length snap = 0 then Some kv
      else do { (stateMachine, dupTable) \<leftarrow> snap_dec sc snap;
                Some (kv\<lparr>kv_stateMachine := stateMachine, kv_duplicateTable := dupTable\<rparr>) })"

definition StartKVServer ::
    "(Op, 'b) codec \<Rightarrow> (MemoryKVStateMachine \<times> dup_table, 'b) snap_codec \<Rightarrow> nat \<Rightarrow> nat \<Rightarrow> 'b persister \<Rightarrow> int
      \<Rightarrow> 'b KVServer option" where
  "StartKVServer cd sc servers i ps maxraftstate =
     kv_restoreFromSnapshot sc
       \<lparr>kv_rf = Make cd servers i ps, kv_dead = False, kv_maxraftstate = maxraftstate, kv_lastApplied = 0,
        kv_stateMachine = NewMemoryKVStateMachine, kv_notifyChans = chans_empty, kv_duplicateTable = (\<lambda>_. None)\<rparr>
       (ReadSnapshot ps)"

section \<open>Applying\<close>

text \<open>The operation of a log entry: answered from the duplicate table or applied.\<close>

definition kv_execute :: "'b KVServer \<Rightarrow> Op \<Rightarrow> ('b KVServer \<times> OpReply) option" where
  "kv_execute kv oper =
     (if op_OpType oper \<noteq> OpGet \<and> requestDuplicated (kv_duplicateTable kv) (op_ClientId oper) (op_SeqId oper)
      then do { info \<leftarrow> kv_duplicateTable kv (op_ClientId oper); Some (kv, lo_Reply info) }
      else
        let (sm, opReply) = applyToStateMachine (kv_stateMachine kv) oper;
            kv1 = kv\<lparr>kv_stateMachine := sm\<rparr>
        in Some (if op_OpType oper \<noteq> OpGet
                 then kv1\<lparr>kv_duplicateTable := (kv_duplicateTable kv1)(op_ClientId oper \<mapsto>
                        \<lparr>lo_SeqId = op_SeqId oper, lo_Reply = opReply\<rparr>)\<rparr>
                 else kv1, opReply))"

text \<open>The result is sent to the waiting request by the leader; the log is compacted when it is large.\<close>

definition kv_notify :: "'b KVServer \<Rightarrow> int \<Rightarrow> OpReply \<Rightarrow> 'b KVServer option" where
  "kv_notify kv index opReply =
     (if snd (GetState (kv_rf kv)) then
        let (c, a) = getNotifyChannel (kv_notifyChans kv) index
        in do { c' \<leftarrow> chan_send c a opReply; Some (kv\<lparr>kv_notifyChans := c'\<rparr>) }
      else Some kv)"

definition kv_checkSnapshot ::
    "(Op, 'b) codec \<Rightarrow> (MemoryKVStateMachine \<times> dup_table, 'b) snap_codec \<Rightarrow> 'b KVServer \<Rightarrow> int \<Rightarrow> 'b KVServer option" where
  "kv_checkSnapshot cd sc kv index =
     (if kv_maxraftstate kv \<noteq> -1 \<and> GetRaftStateSize (kv_rf kv) \<ge> kv_maxraftstate kv
      then kv_makeSnapshot cd sc kv index else Some kv)"

text \<open>One message of \<open>applyTask\<close>.\<close>

definition kv_applyTask ::
    "(Op, 'b) codec \<Rightarrow> (MemoryKVStateMachine \<times> dup_table, 'b) snap_codec \<Rightarrow> 'b KVServer \<Rightarrow> (Op, 'b) ApplyMsg
      \<Rightarrow> 'b KVServer option" where
  "kv_applyTask cd sc kv message =
     (if am_CommandValid message then
        if am_CommandIndex message \<le> kv_lastApplied kv then Some kv
        else do {
          oper \<leftarrow> am_Command message;
          (kv1, opReply) \<leftarrow> kv_execute (kv\<lparr>kv_lastApplied := am_CommandIndex message\<rparr>) oper;
          kv2 \<leftarrow> kv_notify kv1 (am_CommandIndex message) opReply;
          kv_checkSnapshot cd sc kv2 (am_CommandIndex message) }
      else if am_SnapshotValid message then do {
        kv1 \<leftarrow> kv_restoreFromSnapshot sc kv (am_Snapshot message);
        Some (kv1\<lparr>kv_lastApplied := am_SnapshotIndex message\<rparr>) }
      else Some kv)"

end
