(* ===== verification/Raft_Invariants.thy ===== *)
theory Raft_Invariants
  imports Raft_Handlers
begin

text \<open>
  What every handler of one peer keeps: the frame of the role changes, the invariant of a peer
  (\<open>peer_inv\<close>), durability of term, vote and log, and the rule that a vote, once given in a term,
  is never changed in that term (\<open>vote_step\<close>).
\<close>

section \<open>Frames\<close>

lemma persistLocked_frame [simp, raft_frame]:
  "peers (persistLocked cd rf) = peers rf" "me (persistLocked cd rf) = me rf"
  "dead (persistLocked cd rf) = dead rf"
  "role (persistLocked cd rf) = role rf" "currentTerm (persistLocked cd rf) = currentTerm rf"
  "votedFor (persistLocked cd rf) = votedFor rf" "rf_log (persistLocked cd rf) = rf_log rf"
  "nextIndex (persistLocked cd rf) = nextIndex rf" "matchIndex (persistLocked cd rf) = matchIndex rf"
  "commitIndex (persistLocked cd rf) = commitIndex rf" "lastApplied (persistLocked cd rf) = lastApplied rf"
  "snapPending (persistLocked cd rf) = snapPending rf" "applier (persistLocked cd rf) = applier rf"
  by (simp_all add: persistLocked_def)

lemma Signal_frame [simp, raft_frame]:
  "peers (Signal rf) = peers rf" "me (Signal rf) = me rf" "persister (Signal rf) = persister rf"
  "dead (Signal rf) = dead rf"
  "role (Signal rf) = role rf" "currentTerm (Signal rf) = currentTerm rf"
  "votedFor (Signal rf) = votedFor rf" "rf_log (Signal rf) = rf_log rf"
  "nextIndex (Signal rf) = nextIndex rf" "matchIndex (Signal rf) = matchIndex rf"
  "commitIndex (Signal rf) = commitIndex rf" "lastApplied (Signal rf) = lastApplied rf"
  "snapPending (Signal rf) = snapPending rf"
  by (simp_all add: Signal_def split: applier.split)

lemma resetElectionTimerLocked_frame [simp, raft_frame]:
  "peers (resetElectionTimerLocked e rf) = peers rf" "me (resetElectionTimerLocked e rf) = me rf"
  "persister (resetElectionTimerLocked e rf) = persister rf"
  "dead (resetElectionTimerLocked e rf) = dead rf"
  "role (resetElectionTimerLocked e rf) = role rf"
  "currentTerm (resetElectionTimerLocked e rf) = currentTerm rf"
  "votedFor (resetElectionTimerLocked e rf) = votedFor rf"
  "rf_log (resetElectionTimerLocked e rf) = rf_log rf"
  "nextIndex (resetElectionTimerLocked e rf) = nextIndex rf"
  "matchIndex (resetElectionTimerLocked e rf) = matchIndex rf"
  "commitIndex (resetElectionTimerLocked e rf) = commitIndex rf"
  "lastApplied (resetElectionTimerLocked e rf) = lastApplied rf"
  "snapPending (resetElectionTimerLocked e rf) = snapPending rf"
  "applier (resetElectionTimerLocked e rf) = applier rf"
  by (simp_all add: resetElectionTimerLocked_def Let_def)

lemma becomeFollowerLocked_frame [simp, raft_frame]:
  "peers (becomeFollowerLocked cd rf t) = peers rf" "me (becomeFollowerLocked cd rf t) = me rf"
  "dead (becomeFollowerLocked cd rf t) = dead rf"
  "rf_log (becomeFollowerLocked cd rf t) = rf_log rf"
  "nextIndex (becomeFollowerLocked cd rf t) = nextIndex rf"
  "matchIndex (becomeFollowerLocked cd rf t) = matchIndex rf"
  "commitIndex (becomeFollowerLocked cd rf t) = commitIndex rf"
  "lastApplied (becomeFollowerLocked cd rf t) = lastApplied rf"
  "snapPending (becomeFollowerLocked cd rf t) = snapPending rf"
  "applier (becomeFollowerLocked cd rf t) = applier rf"
  by (simp_all add: becomeFollowerLocked_def Let_def)

lemma becomeFollowerLocked_state [simp]:
  "currentTerm (becomeFollowerLocked cd rf t) = max t (currentTerm rf)"
  "role (becomeFollowerLocked cd rf t) = (if t < currentTerm rf then role rf else Follower)"
  "votedFor (becomeFollowerLocked cd rf t) = (if t > currentTerm rf then -1 else votedFor rf)"
  by (auto simp: becomeFollowerLocked_def Let_def)

lemma becomeCandidateLocked_frame [simp, raft_frame]:
  "peers (becomeCandidateLocked cd rf) = peers rf" "me (becomeCandidateLocked cd rf) = me rf"
  "dead (becomeCandidateLocked cd rf) = dead rf"
  "rf_log (becomeCandidateLocked cd rf) = rf_log rf"
  "nextIndex (becomeCandidateLocked cd rf) = nextIndex rf"
  "matchIndex (becomeCandidateLocked cd rf) = matchIndex rf"
  "commitIndex (becomeCandidateLocked cd rf) = commitIndex rf"
  "lastApplied (becomeCandidateLocked cd rf) = lastApplied rf"
  "snapPending (becomeCandidateLocked cd rf) = snapPending rf"
  "applier (becomeCandidateLocked cd rf) = applier rf"
  by (simp_all add: becomeCandidateLocked_def)

lemma becomeLeaderLocked_frame [simp, raft_frame]:
  "peers (becomeLeaderLocked rf) = peers rf" "me (becomeLeaderLocked rf) = me rf"
  "persister (becomeLeaderLocked rf) = persister rf" "dead (becomeLeaderLocked rf) = dead rf"
  "currentTerm (becomeLeaderLocked rf) = currentTerm rf" "votedFor (becomeLeaderLocked rf) = votedFor rf"
  "rf_log (becomeLeaderLocked rf) = rf_log rf" "commitIndex (becomeLeaderLocked rf) = commitIndex rf"
  "lastApplied (becomeLeaderLocked rf) = lastApplied rf" "snapPending (becomeLeaderLocked rf) = snapPending rf"
  "applier (becomeLeaderLocked rf) = applier rf"
  by (simp_all add: becomeLeaderLocked_def)

section \<open>The invariant of a peer\<close>

definition peer_inv :: "('c, 'b) raft \<Rightarrow> bool" where
  "peer_inv rf \<longleftrightarrow>
     wf_log (rf_log rf) \<and> terms_sorted (rf_log rf) \<and>
     (\<forall>en \<in> set (tailLog (rf_log rf)). le_Term en \<le> currentTerm rf) \<and>
     length (nextIndex rf) = peers rf \<and> length (matchIndex rf) = peers rf \<and> me rf < peers rf \<and>
     (role rf \<noteq> Follower \<longrightarrow> votedFor rf = int (me rf)) \<and>
     1 \<le> currentTerm rf"

text \<open>The invariant splits into a part about the log and the term and a part about the rest.\<close>

definition log_inv :: "int \<Rightarrow> ('c, 'b) raft_log \<Rightarrow> bool" where
  "log_inv t l \<longleftrightarrow> wf_log l \<and> terms_sorted l \<and> (\<forall>en \<in> set (tailLog l). le_Term en \<le> t) \<and> 1 \<le> t"

definition ctl_inv :: "('c, 'b) raft \<Rightarrow> bool" where
  "ctl_inv rf \<longleftrightarrow> length (nextIndex rf) = peers rf \<and> length (matchIndex rf) = peers rf \<and> me rf < peers rf \<and>
     (role rf \<noteq> Follower \<longrightarrow> votedFor rf = int (me rf))"

lemma peer_inv_split: "peer_inv rf \<longleftrightarrow> log_inv (currentTerm rf) (rf_log rf) \<and> ctl_inv rf"
  by (auto simp: peer_inv_def log_inv_def ctl_inv_def)

lemma log_inv_mono: "log_inv t l \<Longrightarrow> t \<le> t' \<Longrightarrow> log_inv t' l"
  by (force simp: log_inv_def)

lemma log_inv_wf: "log_inv t l \<Longrightarrow> wf_log l"
  by (simp add: log_inv_def)

lemma peer_inv_wf_log: "peer_inv rf \<Longrightarrow> wf_log (rf_log rf)"
  by (simp add: peer_inv_def)

lemma log_inv_NewLog: "1 \<le> t \<Longrightarrow> log_inv t (NewLog 0 0 [] [])"
  by (simp add: log_inv_def terms_sorted_def) (simp add: NewLog_def)

lemma log_inv_append:
  "log_inv t l \<Longrightarrow> le_Term en = t \<Longrightarrow> log_inv t (log_append l en)"
  by (auto simp: log_inv_def intro!: terms_sorted_append) (auto simp: log_append_def wf_log_def)

text \<open>Entries a leader of term \<open>t\<close> may send behind an entry of term \<open>pt\<close>.\<close>

definition entries_ok :: "int \<Rightarrow> int \<Rightarrow> 'c log_entry list \<Rightarrow> bool" where
  "entries_ok pt t es \<longleftrightarrow> sorted (map le_Term es) \<and> (\<forall>en \<in> set es. pt \<le> le_Term en \<and> le_Term en \<le> t)"

lemma log_inv_appendFrom:
  assumes inv: "log_inv t l" and at: "log_at l p = Some pe" and ok: "entries_ok (le_Term pe) t es"
    and app: "appendFrom l p es = Some l'"
  shows "log_inv t l'"
proof -
  let ?k = "nat (p - snapLastIdx l)"
  from at have w: "snapLastIdx l \<le> p" "p < log_size l" and pe: "pe = tailLog l ! ?k"
    by (auto simp: log_at_eq split: if_splits)
  from app w have l': "l' = l\<lparr>tailLog := take (?k + 1) (tailLog l) @ es\<rparr>"
    by (simp add: appendFrom_eq)
  from w have klen: "?k < length (tailLog l)" by (auto simp: log_size_def)
  have srt: "sorted (map le_Term (tailLog l))" using inv by (simp add: log_inv_def terms_sorted_def)
  have le: "le_Term x \<le> le_Term pe" if "x \<in> set (take (?k + 1) (tailLog l))" for x
  proof -
    from that obtain j where j: "j < ?k + 1" "j < length (tailLog l)" "x = tailLog l ! j"
      by (auto simp: in_set_conv_nth)
    then show ?thesis
      using sorted_nth_mono[OF srt, of j ?k] klen by (simp add: pe)
  qed
  have "sorted (map le_Term (take (?k + 1) (tailLog l)))"
    using srt by (simp add: take_map[symmetric] sorted_wrt_take)
  moreover have "le_Term x \<le> le_Term y" if "x \<in> set (take (?k + 1) (tailLog l))" "y \<in> set es" for x y
    using le[OF that(1)] ok that(2) by (force simp: entries_ok_def)
  ultimately have "sorted (map le_Term (tailLog l'))"
    using ok by (auto simp: l' sorted_append entries_ok_def)
  moreover have "\<forall>en \<in> set (tailLog l'). le_Term en \<le> t"
    using inv ok by (auto simp: l' log_inv_def entries_ok_def dest: in_set_takeD)
  moreover have "wf_log l'" using appendFrom_wf[OF log_inv_wf[OF inv] app] .
  ultimately show ?thesis using inv by (simp add: log_inv_def terms_sorted_def)
qed

lemma log_inv_doSnapshot:
  assumes inv: "log_inv t l" and snap: "doSnapshot l n s = Some l'"
  shows "log_inv t l'"
proof (cases "n \<le> snapLastIdx l")
  case True
  with snap inv show ?thesis by (simp add: doSnapshot_def)
next
  case False
  let ?k = "nat (n - snapLastIdx l)"
  from False snap have n: "snapLastIdx l < n" "n < log_size l"
    by (auto simp: doSnapshot_def idx_def split: if_splits)
  then have klen: "?k < length (tailLog l)" by (auto simp: log_size_def)
  have l': "l' = \<lparr>snapLastIdx = n, snapLastTerm = le_Term (tailLog l ! ?k), snapshot = s,
      tailLog = mock_entry (le_Term (tailLog l ! ?k)) # drop (?k + 1) (tailLog l)\<rparr>"
    using snap doSnapshot_eq[OF n] by simp
  have srt: "sorted (map le_Term (drop ?k (tailLog l)))"
    using inv by (simp add: log_inv_def terms_sorted_def drop_map[symmetric] sorted_wrt_drop)
  have dr: "drop ?k (tailLog l) = tailLog l ! ?k # drop (?k + 1) (tailLog l)"
    using Cons_nth_drop_Suc[OF klen] by simp
  have "sorted (map le_Term (tailLog l'))" using srt by (simp add: l' dr)
  moreover have "\<forall>en \<in> set (tailLog l'). le_Term en \<le> t"
    using inv klen by (auto simp: l' log_inv_def dest: in_set_dropD)
  moreover have "wf_log l'" using doSnapshot_wf[OF log_inv_wf[OF inv] snap] .
  ultimately show ?thesis using inv by (simp add: log_inv_def terms_sorted_def)
qed

lemma log_inv_installSnapshot:
  "1 \<le> t \<Longrightarrow> 0 \<le> n \<Longrightarrow> t' \<le> t \<Longrightarrow> log_inv t (installSnapshot l n t' s)"
  by (simp add: log_inv_def terms_sorted_def) (simp add: installSnapshot_def)

section \<open>Every handler keeps the invariant\<close>

text \<open>What a peer may assume of a request, established for every request a peer sends.\<close>

definition ae_ok :: "'c AppendEntriesArgs \<Rightarrow> bool" where
  "ae_ok args \<longleftrightarrow> entries_ok (aea_PrevLogTerm args) (aea_Term args) (aea_Entries args)"

definition is_ok :: "'b InstallSnapshotArgs \<Rightarrow> bool" where
  "is_ok args \<longleftrightarrow> 0 \<le> isa_LastIncludedIndex args \<and> isa_LastIncludedTerm args \<le> isa_Term args"

lemma persistLocked_inv [simp]: "peer_inv (persistLocked cd rf) \<longleftrightarrow> peer_inv rf"
  by (simp add: peer_inv_def)

lemma Signal_inv [simp]: "peer_inv (Signal rf) \<longleftrightarrow> peer_inv rf"
  by (simp add: peer_inv_def)

lemma resetElectionTimerLocked_inv [simp]: "peer_inv (resetElectionTimerLocked e rf) \<longleftrightarrow> peer_inv rf"
  by (simp add: peer_inv_def)

lemma becomeFollowerLocked_inv: "peer_inv rf \<Longrightarrow> peer_inv (becomeFollowerLocked cd rf t)"
  by (force simp: peer_inv_def)

lemma becomeCandidateLocked_inv: "peer_inv rf \<Longrightarrow> peer_inv (becomeCandidateLocked cd rf)"
  by (force simp: becomeCandidateLocked_def peer_inv_def)

lemma becomeLeaderLocked_inv: "peer_inv rf \<Longrightarrow> peer_inv (becomeLeaderLocked rf)"
  by (auto simp: becomeLeaderLocked_def peer_inv_def)

lemma Start_inv: "peer_inv rf \<Longrightarrow> peer_inv (fst (Start cd rf c))"
  by (auto simp: Start_def Let_def peer_inv_split log_inv_append ctl_inv_def)

text \<open>The outcomes of the two handlers with several exits, as elimination rules.\<close>

lemma RequestVote_cases:
  assumes "RequestVote cd e rf args = Some (rf', reply)"
  obtains (stale) "rva_Term args < currentTerm rf" "rf' = rf" "\<not> rvr_VoteGranted reply"
  | (refused) "currentTerm rf \<le> rva_Term args" "\<not> rvr_VoteGranted reply"
      "rf' = (if currentTerm rf < rva_Term args then becomeFollowerLocked cd rf (rva_Term args) else rf)"
  | (granted) rf1 where "currentTerm rf \<le> rva_Term args" "rvr_VoteGranted reply"
      "rf1 = (if currentTerm rf < rva_Term args then becomeFollowerLocked cd rf (rva_Term args) else rf)"
      "votedFor rf1 = -1"
      "isMoreUpToDateLocked rf1 (rva_LastLogIndex args) (rva_LastLogTerm args) = Some False"
      "rf' = resetElectionTimerLocked e (persistLocked cd (rf1\<lparr>votedFor := rva_CandidateId args\<rparr>))"
  using assms by (auto simp: RequestVote_def Let_def split: if_splits Option.bind_splits)

lemma AppendEntries_cases:
  assumes "AppendEntries cd e rf args = Some (rf', reply)"
  obtains (stale) "aea_Term args < currentTerm rf" "rf' = rf" "\<not> aer_Success reply"
  | (refused) "currentTerm rf \<le> aea_Term args" "\<not> aer_Success reply"
      "rf' = resetElectionTimerLocked e (becomeFollowerLocked cd rf (aea_Term args))"
  | (accepted) pe l2 rf2 where "currentTerm rf \<le> aea_Term args" "aer_Success reply"
      "log_at (rf_log rf) (aea_PrevLogIndex args) = Some pe" "le_Term pe = aea_PrevLogTerm args"
      "appendFrom (rf_log rf) (aea_PrevLogIndex args) (aea_Entries args) = Some l2"
      "rf2 = persistLocked cd ((becomeFollowerLocked cd rf (aea_Term args))\<lparr>rf_log := l2\<rparr>)"
      "rf' = resetElectionTimerLocked e
        (if aea_LeaderCommit args > commitIndex rf then Signal (rf2\<lparr>commitIndex := aea_LeaderCommit args\<rparr>) else rf2)"
  using assms by (auto simp: AppendEntries_def Let_def split: if_splits Option.bind_splits)

lemma RequestVote_inv:
  assumes "peer_inv rf" "RequestVote cd e rf args = Some (rf', reply)"
  shows "peer_inv rf'"
  using assms(2)
proof (cases rule: RequestVote_cases)
  case stale
  with assms show ?thesis by simp
next
  case refused
  with assms show ?thesis by (simp add: becomeFollowerLocked_inv)
next
  case (granted rf1)
  have "role rf1 = Follower" if "me rf1 < peers rf1" "peer_inv rf1"
    using that granted(4) by (auto simp: peer_inv_def)
  moreover have "peer_inv rf1"
    using granted(3) assms by (simp add: becomeFollowerLocked_inv)
  ultimately show ?thesis
    unfolding granted(6) by (auto simp: peer_inv_def)
qed

lemma askVoteFromPeer_inv:
  "peer_inv rf \<Longrightarrow> peer_inv (fst (askVoteFromPeer cd rf t votes ok reply))"
  by (auto simp: askVoteFromPeer_def Let_def becomeFollowerLocked_inv becomeLeaderLocked_inv)

lemma electionTicker_inv: "peer_inv rf \<Longrightarrow> peer_inv (fst (electionTicker cd e rf))"
  by (auto simp: electionTicker_def Let_def becomeCandidateLocked_inv)

lemma AppendEntries_inv:
  assumes "peer_inv rf" "ae_ok args" "AppendEntries cd e rf args = Some (rf', reply)"
  shows "peer_inv rf'"
  using assms(3)
proof (cases rule: AppendEntries_cases)
  case stale
  with assms show ?thesis by simp
next
  case refused
  with assms show ?thesis by (simp add: becomeFollowerLocked_inv)
next
  case (accepted pe l2 rf2)
  have "log_inv (aea_Term args) (rf_log rf)"
    using assms(1) accepted(1) by (auto simp: peer_inv_split intro: log_inv_mono)
  then have "log_inv (aea_Term args) l2"
    using accepted(3-5) assms(2) log_inv_appendFrom[of "aea_Term args" "rf_log rf"] by (simp add: ae_ok_def)
  then have "peer_inv rf2"
    using assms(1) accepted(1) by (auto simp: accepted(6) peer_inv_split ctl_inv_def max_absorb1)
  then show ?thesis
    unfolding accepted(7) by (simp add: peer_inv_def)
qed

text \<open>The remaining steps of a leader and of the application goroutine write indexes only.\<close>

definition same_core :: "('c, 'b) raft \<Rightarrow> ('c, 'b) raft \<Rightarrow> bool" where
  "same_core rf rf' \<longleftrightarrow> peers rf' = peers rf \<and> me rf' = me rf \<and> persister rf' = persister rf \<and>
     dead rf' = dead rf \<and> role rf' = role rf \<and> currentTerm rf' = currentTerm rf \<and> votedFor rf' = votedFor rf \<and>
     rf_log rf' = rf_log rf \<and> length (nextIndex rf') = length (nextIndex rf) \<and>
     length (matchIndex rf') = length (matchIndex rf)"

lemma same_core_refl [simp]: "same_core rf rf"
  by (simp add: same_core_def)

lemma same_core_inv: "same_core rf rf' \<Longrightarrow> peer_inv rf \<Longrightarrow> peer_inv rf'"
  by (simp add: same_core_def peer_inv_def)

lemma same_core_durable: "same_core rf rf' \<Longrightarrow> durable cd rf \<Longrightarrow> durable cd rf'"
  by (auto simp: same_core_def intro: durable_cong)

lemma same_core_indexes:
  "length ni = length (nextIndex rf) \<Longrightarrow> length mi = length (matchIndex rf) \<Longrightarrow>
     same_core rf (rf\<lparr>nextIndex := ni, matchIndex := mi\<rparr>)"
  "length ni = length (nextIndex rf) \<Longrightarrow> length mi = length (matchIndex rf) \<Longrightarrow>
     same_core rf (Signal (rf\<lparr>nextIndex := ni, matchIndex := mi, commitIndex := c\<rparr>))"
  "length ni = length (nextIndex rf) \<Longrightarrow> same_core rf (rf\<lparr>nextIndex := ni\<rparr>)"
  by (simp_all add: same_core_def)

lemma replicateToPeer_failed:
  assumes "replicateToPeer cd rf t peer args True reply = Some rf'"
    and "aer_Term reply \<le> currentTerm rf" "\<not> contextLostLocked rf Leader t" "\<not> aer_Success reply"
  shows "\<exists>ni. length ni = length (nextIndex rf) \<and> rf' = rf\<lparr>nextIndex := ni\<rparr>"
  using assms
  by (auto simp: replicateToPeer_def Let_def bind_eq_Some_conv dest: go_set_length)

lemma replicateToPeer_succeeded:
  assumes "replicateToPeer cd rf t peer args True reply = Some rf'"
    and "aer_Term reply \<le> currentTerm rf" "\<not> contextLostLocked rf Leader t" "aer_Success reply"
  shows "\<exists>mi ni rf1. length ni = length (nextIndex rf) \<and> length mi = length (matchIndex rf) \<and>
    rf1 = rf\<lparr>matchIndex := mi, nextIndex := ni\<rparr> \<and>
    (rf' = rf1 \<or> (\<exists>c. rf' = Signal (rf1\<lparr>commitIndex := c\<rparr>)))"
proof -
  from assms obtain mi ni where "go_set (matchIndex rf) (int peer) (aea_PrevLogIndex args + int (length (aea_Entries args))) = Some mi"
    "go_set (nextIndex rf) (int peer) (aea_PrevLogIndex args + int (length (aea_Entries args)) + 1) = Some ni"
    and "rf' = rf\<lparr>matchIndex := mi, nextIndex := ni\<rparr> \<or>
      (\<exists>c. rf' = Signal (rf\<lparr>matchIndex := mi, nextIndex := ni, commitIndex := c\<rparr>))"
    by (auto simp: replicateToPeer_def Let_def bind_eq_Some_conv split: if_splits)
  then show ?thesis by (auto dest!: go_set_length)
qed

lemma replicateToPeer_cases:
  assumes "replicateToPeer cd rf t peer args ok reply = Some rf'"
  obtains (demoted) "currentTerm rf < aer_Term reply" "rf' = becomeFollowerLocked cd rf (aer_Term reply)"
  | (indexes) "same_core rf rf'"
proof (cases "ok \<and> \<not> currentTerm rf < aer_Term reply \<and> \<not> contextLostLocked rf Leader t")
  case True
  have "same_core rf rf'"
  proof (cases "aer_Success reply")
    case succ: True
    then show ?thesis
      using replicateToPeer_succeeded[of cd rf t peer args reply rf'] assms True
      by (auto simp: same_core_def)
  next
    case False
    then show ?thesis
      using replicateToPeer_failed[of cd rf t peer args reply rf'] assms True
      by (auto simp: same_core_def)
  qed
  then show thesis by (rule indexes)
next
  case False
  show thesis
  proof (cases "ok \<and> currentTerm rf < aer_Term reply")
    case True
    then show thesis using assms demoted by (simp add: replicateToPeer_def)
  next
    case F: False
    with False assms have "rf' = rf" by (auto simp: replicateToPeer_def split: if_splits)
    then show thesis by (simp add: indexes)
  qed
qed

lemma installToPeer_cases:
  assumes "installToPeer cd rf peer t args ok reply = Some rf'"
  obtains (demoted) "currentTerm rf < isr_Term reply" "rf' = becomeFollowerLocked cd rf (isr_Term reply)"
  | (indexes) "same_core rf rf'"
proof (cases "ok \<and> isr_Term reply > currentTerm rf")
  case True
  with assms show thesis using demoted by (simp add: installToPeer_def)
next
  case False
  have "same_core rf rf'"
  proof (cases "\<not> ok \<or> contextLostLocked rf Leader t")
    case True
    with False assms have "rf' = rf" by (auto simp: installToPeer_def split: if_splits)
    then show ?thesis by simp
  next
    case ctx: False
    with False assms obtain mi where
      "(if isa_LastIncludedIndex args > mi
         then do { m \<leftarrow> go_set (matchIndex rf) (int peer) (isa_LastIncludedIndex args);
                   n \<leftarrow> go_set (nextIndex rf) (int peer) (isa_LastIncludedIndex args + 1);
                   Some (rf\<lparr>matchIndex := m, nextIndex := n\<rparr>) }
         else Some rf) = Some rf'"
      by (auto simp: installToPeer_def bind_eq_Some_conv)
    then show ?thesis
      by (auto simp: bind_eq_Some_conv same_core_def split: if_splits dest!: go_set_length)
  qed
  then show thesis by (rule indexes)
qed

lemma replication_loop_other:
  assumes "peer \<noteq> me rf" "replication_loop rf (peer # ps) = Some (rf', ms)"
  obtains m ms' where "replication_msg rf peer = Some m" "replication_loop rf ps = Some (rf', ms')" "ms = m # ms'"
  using assms by (auto simp: bind_eq_Some_conv)

lemma replication_loop_self:
  assumes "replication_loop rf (me rf # ps) = Some (rf', ms)"
  obtains m n where "go_set (matchIndex rf) (int (me rf)) (log_size (rf_log rf) - 1) = Some m"
    "go_set (nextIndex rf) (int (me rf)) (log_size (rf_log rf)) = Some n"
    "replication_loop (rf\<lparr>matchIndex := m, nextIndex := n\<rparr>) ps = Some (rf', ms)"
  using assms by (auto simp: bind_eq_Some_conv)

lemma replication_loop_same_core:
  "replication_loop rf ps = Some (rf', ms) \<Longrightarrow> same_core rf rf'"
proof (induction ps arbitrary: rf ms)
  case Nil
  then show ?case by simp
next
  case (Cons peer ps)
  show ?case
  proof (cases "peer = me rf")
    case True
    from replication_loop_self[OF Cons.prems[unfolded True]] obtain m n where
      m: "go_set (matchIndex rf) (int (me rf)) (log_size (rf_log rf) - 1) = Some m"
      "go_set (nextIndex rf) (int (me rf)) (log_size (rf_log rf)) = Some n"
      and rec: "replication_loop (rf\<lparr>matchIndex := m, nextIndex := n\<rparr>) ps = Some (rf', ms)" .
    from Cons.IH[OF rec] m[THEN go_set_length] show ?thesis
      by (simp add: same_core_def)
  next
    case False
    from replication_loop_other[OF this Cons.prems] obtain ms' where
      "replication_loop rf ps = Some (rf', ms')" .
    then show ?thesis by (rule Cons.IH)
  qed
qed

lemma startReplication_same_core:
  "startReplication rf t = Some (rf', b, ms) \<Longrightarrow> same_core rf rf'"
  by (auto simp: startReplication_def bind_eq_Some_conv dest: replication_loop_same_core split: if_splits)

lemma application_collect_same_core: "application_collect rf = Some rf' \<Longrightarrow> same_core rf rf'"
  by (auto simp: application_collect_def Let_def same_core_def bind_eq_Some_conv split: if_splits)

lemma application_finish_same_core: "same_core rf (application_finish rf b es)"
  by (simp add: application_finish_def Let_def same_core_def)

lemma raft_Snapshot_cases:
  assumes "raft_Snapshot cd rf n s = Some rf'"
  obtains (ignored) "rf' = rf"
  | (taken) l where "doSnapshot (rf_log rf) n s = Some l" "rf' = persistLocked cd (rf\<lparr>rf_log := l\<rparr>)"
      "snapLastIdx (rf_log rf) < n" "n \<le> commitIndex rf"
  using assms by (auto simp: raft_Snapshot_def split: if_splits Option.bind_splits)

lemma InstallSnapshot_cases:
  assumes "InstallSnapshot cd rf args = (rf', reply)"
  obtains (stale) "isa_Term args < currentTerm rf" "rf' = rf"
  | (covered) "currentTerm rf \<le> isa_Term args" "isa_LastIncludedIndex args \<le> snapLastIdx (rf_log rf)"
      "rf' = becomeFollowerLocked cd rf (isa_Term args)"
  | (installed) "currentTerm rf \<le> isa_Term args" "snapLastIdx (rf_log rf) < isa_LastIncludedIndex args"
      "rf' = Signal ((persistLocked cd ((becomeFollowerLocked cd rf (isa_Term args))
         \<lparr>rf_log := installSnapshot (rf_log rf) (isa_LastIncludedIndex args) (isa_LastIncludedTerm args)
                      (isa_Snapshot args)\<rparr>))\<lparr>snapPending := True\<rparr>)"
  using assms by (auto simp: InstallSnapshot_def Let_def split: if_splits)

lemma raft_Snapshot_inv:
  assumes "peer_inv rf" "raft_Snapshot cd rf n s = Some rf'"
  shows "peer_inv rf'"
  using assms(2)
  by (cases rule: raft_Snapshot_cases)
    (use assms(1) in \<open>auto simp: peer_inv_split ctl_inv_def intro: log_inv_doSnapshot\<close>)

lemma InstallSnapshot_inv:
  assumes "peer_inv rf" "is_ok args" "InstallSnapshot cd rf args = (rf', reply)"
  shows "peer_inv rf'"
  using assms(3)
proof (cases rule: InstallSnapshot_cases)
  case stale
  with assms show ?thesis by simp
next
  case covered
  with assms show ?thesis by (simp add: becomeFollowerLocked_inv)
next
  case installed
  have "1 \<le> isa_Term args" using assms(1) installed(1) by (simp add: peer_inv_def)
  with assms(2) have "log_inv (isa_Term args)
      (installSnapshot (rf_log rf) (isa_LastIncludedIndex args) (isa_LastIncludedTerm args) (isa_Snapshot args))"
    by (simp add: is_ok_def log_inv_installSnapshot)
  then have "peer_inv (persistLocked cd ((becomeFollowerLocked cd rf (isa_Term args))
         \<lparr>rf_log := installSnapshot (rf_log rf) (isa_LastIncludedIndex args) (isa_LastIncludedTerm args)
                      (isa_Snapshot args)\<rparr>))"
    using assms(1) installed(1) by (simp add: peer_inv_split ctl_inv_def max_absorb1)
  then show ?thesis
    unfolding installed(3) by (simp add: peer_inv_def)
qed

lemma replicateToPeer_inv:
  assumes "peer_inv rf" "replicateToPeer cd rf t peer args ok reply = Some rf'"
  shows "peer_inv rf'"
  using assms(2)
  by (cases rule: replicateToPeer_cases)
    (use assms(1) in \<open>simp_all add: becomeFollowerLocked_inv same_core_inv\<close>)

lemma installToPeer_inv:
  assumes "peer_inv rf" "installToPeer cd rf peer t args ok reply = Some rf'"
  shows "peer_inv rf'"
  using assms(2)
  by (cases rule: installToPeer_cases)
    (use assms(1) in \<open>simp_all add: becomeFollowerLocked_inv same_core_inv\<close>)

section \<open>Durability\<close>

lemma becomeFollowerLocked_durable:
  assumes "codec_ok cd" "durable cd rf"
  shows "durable cd (becomeFollowerLocked cd rf t)"
  using assms by (auto simp: becomeFollowerLocked_def Let_def persistLocked_durable intro: durable_cong)

lemma becomeCandidateLocked_durable:
  "codec_ok cd \<Longrightarrow> durable cd rf \<Longrightarrow> durable cd (becomeCandidateLocked cd rf)"
  by (simp add: becomeCandidateLocked_def persistLocked_durable)

lemma becomeLeaderLocked_durable: "durable cd rf \<Longrightarrow> durable cd (becomeLeaderLocked rf)"
  by (auto intro: durable_cong)

lemma Signal_durable: "durable cd rf \<Longrightarrow> durable cd (Signal rf)"
  by (auto intro: durable_cong)

lemma resetElectionTimerLocked_durable: "durable cd rf \<Longrightarrow> durable cd (resetElectionTimerLocked e rf)"
  by (auto intro: durable_cong)

lemma Start_durable: "codec_ok cd \<Longrightarrow> durable cd rf \<Longrightarrow> durable cd (fst (Start cd rf c))"
  by (simp add: Start_def Let_def persistLocked_durable)

lemma RequestVote_durable:
  assumes "codec_ok cd" "durable cd rf" "RequestVote cd e rf args = Some (rf', reply)"
  shows "durable cd rf'"
  using assms(3)
  by (cases rule: RequestVote_cases)
    (use assms(1,2) in \<open>simp_all add: becomeFollowerLocked_durable resetElectionTimerLocked_durable
       persistLocked_durable\<close>)

lemma askVoteFromPeer_durable:
  "codec_ok cd \<Longrightarrow> durable cd rf \<Longrightarrow> durable cd (fst (askVoteFromPeer cd rf t votes ok reply))"
  by (auto simp: askVoteFromPeer_def Let_def becomeFollowerLocked_durable becomeLeaderLocked_durable)

lemma electionTicker_durable:
  "codec_ok cd \<Longrightarrow> durable cd rf \<Longrightarrow> durable cd (fst (electionTicker cd e rf))"
  by (auto simp: electionTicker_def Let_def becomeCandidateLocked_durable)

lemma AppendEntries_durable:
  assumes "codec_ok cd" "durable cd rf" "AppendEntries cd e rf args = Some (rf', reply)"
  shows "durable cd rf'"
  using assms(3)
proof (cases rule: AppendEntries_cases)
  case (accepted pe l2 rf2)
  have "durable cd rf2" by (simp add: accepted(6) assms(1) persistLocked_durable)
  then have "durable cd (rf2\<lparr>commitIndex := c\<rparr>)" for c by (auto intro: durable_cong)
  with \<open>durable cd rf2\<close> show ?thesis
    by (simp add: accepted(7) resetElectionTimerLocked_durable Signal_durable)
qed (use assms(1,2) in \<open>simp_all add: becomeFollowerLocked_durable resetElectionTimerLocked_durable\<close>)

lemma raft_Snapshot_durable:
  assumes "codec_ok cd" "durable cd rf" "raft_Snapshot cd rf n s = Some rf'"
  shows "durable cd rf'"
  using assms(3) by (cases rule: raft_Snapshot_cases) (use assms(1,2) in \<open>simp_all add: persistLocked_durable\<close>)

lemma InstallSnapshot_durable:
  assumes "codec_ok cd" "durable cd rf" "InstallSnapshot cd rf args = (rf', reply)"
  shows "durable cd rf'"
  using assms(3)
proof (cases rule: InstallSnapshot_cases)
  case installed
  have "durable cd ((persistLocked cd rf1)\<lparr>snapPending := True\<rparr>)" for rf1
    using persistLocked_durable[OF assms(1), of rf1] by (auto intro: durable_cong)
  then show ?thesis by (simp add: installed(3) Signal_durable)
qed (use assms(1,2) in \<open>simp_all add: becomeFollowerLocked_durable\<close>)

lemma replicateToPeer_durable:
  assumes "codec_ok cd" "durable cd rf" "replicateToPeer cd rf t peer args ok reply = Some rf'"
  shows "durable cd rf'"
  using assms(3)
  by (cases rule: replicateToPeer_cases)
    (use assms(1,2) in \<open>auto simp: becomeFollowerLocked_durable intro: same_core_durable\<close>)

lemma installToPeer_durable:
  assumes "codec_ok cd" "durable cd rf" "installToPeer cd rf peer t args ok reply = Some rf'"
  shows "durable cd rf'"
  using assms(3)
  by (cases rule: installToPeer_cases)
    (use assms(1,2) in \<open>auto simp: becomeFollowerLocked_durable intro: same_core_durable\<close>)

lemma Make_static [simp]:
  "peers (Make cd n i ps) = n" "me (Make cd n i ps) = i" "persister (Make cd n i ps) = ps"
  "role (Make cd n i ps) = Follower"
  "nextIndex (Make cd n i ps) = replicate n 0" "matchIndex (Make cd n i ps) = replicate n 0"
  by (auto simp: Make_def readPersist_def Let_def split: option.split prod.split)

lemma Make_durable: "durable cd (Make cd n i ps)"
  by (simp add: durable_def)

lemma Make_fresh:
  "currentTerm (Make cd n i MakePersister) = 1" "votedFor (Make cd n i MakePersister) = -1"
  "rf_log (Make cd n i MakePersister) = NewLog 0 0 [] []"
  by (simp_all add: Make_def MakePersister_def ReadRaftState_def readPersist_def InvalidIndex_def InvalidTerm_def)

lemma restart_inv: "peer_inv rf \<Longrightarrow> durable cd rf \<Longrightarrow> peer_inv (Make cd (peers rf) (me rf) (persister rf))"
  by (auto simp: durable_def peer_inv_def Let_def)

section \<open>One vote per term\<close>

text \<open>Between two states of a peer the term grows, or it stays and the vote, if any, stays too;
  and a peer is leader afterwards only if it was leader of that term before.\<close>

definition vote_step :: "('c, 'b) raft \<Rightarrow> ('c, 'b) raft \<Rightarrow> bool" where
  "vote_step rf rf' \<longleftrightarrow> peers rf' = peers rf \<and> me rf' = me rf \<and>
     (currentTerm rf < currentTerm rf' \<or>
      currentTerm rf' = currentTerm rf \<and> (votedFor rf' = votedFor rf \<or> votedFor rf = -1))"

definition no_new_leader :: "('c, 'b) raft \<Rightarrow> ('c, 'b) raft \<Rightarrow> bool" where
  "no_new_leader rf rf' \<longleftrightarrow> (role rf' = Leader \<longrightarrow> role rf = Leader \<and> currentTerm rf' = currentTerm rf)"

definition keeps_votes :: "('c, 'b) raft \<Rightarrow> ('c, 'b) raft \<Rightarrow> bool" where
  "keeps_votes rf rf' \<longleftrightarrow> vote_step rf rf' \<and> no_new_leader rf rf'"

lemmas keeps_votes_defs = keeps_votes_def vote_step_def no_new_leader_def

lemma same_core_keeps_votes: "same_core rf rf' \<Longrightarrow> keeps_votes rf rf'"
  by (simp add: same_core_def keeps_votes_defs)

lemma becomeFollowerLocked_keeps_votes: "keeps_votes rf (becomeFollowerLocked cd rf t)"
  by (auto simp: keeps_votes_defs)

lemma Start_keeps_votes: "keeps_votes rf (fst (Start cd rf c))"
  by (simp add: Start_def Let_def keeps_votes_defs)

lemma electionTicker_keeps_votes: "keeps_votes rf (fst (electionTicker cd e rf))"
  by (simp add: electionTicker_def Let_def becomeCandidateLocked_def keeps_votes_defs)

lemma RequestVote_keeps_votes:
  assumes "peer_inv rf" "RequestVote cd e rf args = Some (rf', reply)"
  shows "keeps_votes rf rf'"
  using assms(2)
proof (cases rule: RequestVote_cases)
  case (granted rf1)
  with assms(1) have "role rf1 = Follower"
    by (auto simp: peer_inv_def split: if_splits)
  with granted show ?thesis by (auto simp: keeps_votes_defs)
qed (simp_all add: becomeFollowerLocked_keeps_votes keeps_votes_defs)

lemma RequestVote_granted:
  assumes "RequestVote cd e rf args = Some (rf', reply)" "rvr_VoteGranted reply"
  shows "currentTerm rf' = rva_Term args \<and> votedFor rf' = rva_CandidateId args"
  using assms(1) by (cases rule: RequestVote_cases) (use assms(2) in auto)

lemma AppendEntries_keeps_votes:
  assumes "AppendEntries cd e rf args = Some (rf', reply)"
  shows "keeps_votes rf rf'"
  using assms by (cases rule: AppendEntries_cases) (auto simp: keeps_votes_defs)

lemma raft_Snapshot_keeps_votes: "raft_Snapshot cd rf n s = Some rf' \<Longrightarrow> keeps_votes rf rf'"
  by (erule raft_Snapshot_cases) (simp_all add: keeps_votes_defs)

lemma InstallSnapshot_keeps_votes: "InstallSnapshot cd rf args = (rf', reply) \<Longrightarrow> keeps_votes rf rf'"
  by (erule InstallSnapshot_cases) (auto simp: keeps_votes_defs)

lemma replicateToPeer_keeps_votes:
  assumes "replicateToPeer cd rf t peer args ok reply = Some rf'"
  shows "keeps_votes rf rf'"
  using assms by (cases rule: replicateToPeer_cases)
    (simp_all add: becomeFollowerLocked_keeps_votes same_core_keeps_votes)

lemma installToPeer_keeps_votes:
  assumes "installToPeer cd rf peer t args ok reply = Some rf'"
  shows "keeps_votes rf rf'"
  using assms by (cases rule: installToPeer_cases)
    (simp_all add: becomeFollowerLocked_keeps_votes same_core_keeps_votes)

lemma restart_keeps_votes:
  "durable cd rf \<Longrightarrow> keeps_votes rf (Make cd (peers rf) (me rf) (persister rf))"
  by (simp add: keeps_votes_defs durable_def Let_def)

lemma askVoteFromPeer_vote_step: "vote_step rf (fst (askVoteFromPeer cd rf t votes ok reply))"
  by (auto simp: askVoteFromPeer_def Let_def vote_step_def)

text \<open>\<open>askVoteFromPeer\<close> alone makes leaders: of the term it was started for, from a candidate, and
  with more than half of the peers counted.\<close>

lemma askVoteFromPeer_leader:
  assumes "askVoteFromPeer cd rf t votes ok reply = (rf', votes', b)" "role rf' = Leader"
  shows "no_new_leader rf rf' \<or>
    ok \<and> role rf = Candidate \<and> currentTerm rf = t \<and> currentTerm rf' = t \<and> rvr_VoteGranted reply \<and>
    votes' = votes + 1 \<and> votes' > int (peers rf) div 2"
  using assms
  by (auto simp: askVoteFromPeer_def Let_def contextLostLocked_def no_new_leader_def becomeLeaderLocked_def
      split: if_splits)

end
