(* ===== verification/Raft_Cluster.thy ===== *)
theory Raft_Cluster
  imports Raft_Invariants
begin

text \<open>
  A cluster of Raft peers over an unreliable network, as a step relation whose steps are the
  handlers and goroutine bodies of \<open>Raft_Handlers\<close>, one critical section per step, in any order.

  The state keeps the peers, the election goroutines that wait for the lock, the shared vote count
  of each election, one cell per \<open>askVoteFromPeer\<close> call, and the replication requests and replies
  that were ever sent. Losing a message is a step that never happens; replication messages can be
  delivered any number of times and in any order. A crash and restart is \<open>Make\<close> on the persister.
  The goroutines of the crashed incarnation are kept, so the relation has every behaviour of the
  code and some more.

  The vote history \<open>H\<close> of \<open>reach\<close> is a ghost of the proof, not a part of the state.
\<close>

section \<open>State and steps\<close>

text \<open>An \<open>askVoteFromPeer\<close> call: not made, waiting for the handler, answered by the handler, done.\<close>

datatype vote_call =
  NoCall
| Called RequestVoteArgs
| Answered RequestVoteReply
| Returned RequestVoteReply

record ('c, 'b) cluster =
  nodes :: "nat \<Rightarrow> ('c, 'b) raft"
  electing :: "(nat \<times> int) set"
  votes :: "nat \<Rightarrow> int \<Rightarrow> int"
  calls :: "nat \<Rightarrow> int \<Rightarrow> nat \<Rightarrow> vote_call"
  sent :: "(nat \<times> int \<times> ('c, 'b) repl_msg) set"
  append_replies :: "(nat \<times> int \<times> nat \<times> 'c AppendEntriesArgs \<times> AppendEntriesReply) set"
  install_replies :: "(nat \<times> int \<times> nat \<times> 'b InstallSnapshotArgs \<times> InstallSnapshotReply) set"

definition cluster_init :: "('c, 'b) codec \<Rightarrow> nat \<Rightarrow> ('c, 'b) cluster" where
  "cluster_init cd n =
     \<lparr>nodes = (\<lambda>i. Make cd n i MakePersister), electing = {}, votes = (\<lambda>_ _. 0), calls = (\<lambda>_ _ _. NoCall),
      sent = {}, append_replies = {}, install_replies = {}\<rparr>"

definition set_node :: "('c, 'b) cluster \<Rightarrow> nat \<Rightarrow> ('c, 'b) raft \<Rightarrow> ('c, 'b) cluster" where
  "set_node s i rf = s\<lparr>nodes := (nodes s)(i := rf)\<rparr>"

definition set_call :: "('c, 'b) cluster \<Rightarrow> nat \<Rightarrow> int \<Rightarrow> nat \<Rightarrow> vote_call \<Rightarrow> ('c, 'b) cluster" where
  "set_call s i t k c = s\<lparr>calls := (calls s)(i := (calls s i)(t := (calls s i t)(k := c)))\<rparr>"

definition set_votes :: "('c, 'b) cluster \<Rightarrow> nat \<Rightarrow> int \<Rightarrow> int \<Rightarrow> ('c, 'b) cluster" where
  "set_votes s i t v = s\<lparr>votes := (votes s)(i := (votes s i)(t := v))\<rparr>"

text \<open>\<open>startElection\<close> starts one goroutine per request.\<close>

definition start_calls ::
    "('c, 'b) cluster \<Rightarrow> nat \<Rightarrow> int \<Rightarrow> (nat \<times> RequestVoteArgs) list \<Rightarrow> ('c, 'b) cluster" where
  "start_calls s i t reqs = s\<lparr>calls := (calls s)(i := (calls s i)(t :=
     (\<lambda>k. case map_of reqs k of Some args \<Rightarrow> Called args | None \<Rightarrow> calls s i t k)))\<rparr>"

inductive cstep :: "('c, 'b) codec \<Rightarrow> nat \<Rightarrow> ('c, 'b) cluster \<Rightarrow> ('c, 'b) cluster \<Rightarrow> bool"
  for cd :: "('c, 'b) codec" and n :: nat where
  tick: "i < n \<Longrightarrow> electionTicker cd e (nodes s i) = (rf', start) \<Longrightarrow>
    cstep cd n s ((set_node s i rf')\<lparr>electing := electing s \<union> {(i, t) | t. start = Some t}\<rparr>)"
| elect: "i < n \<Longrightarrow> (i, t) \<in> electing s \<Longrightarrow> startElection (nodes s i) t = Some (v, reqs) \<Longrightarrow>
    cstep cd n s (start_calls (set_votes (s\<lparr>electing := electing s - {(i, t)}\<rparr>) i t v) i t reqs)"
| vote: "i < n \<Longrightarrow> k < n \<Longrightarrow> calls s i t k = Called args \<Longrightarrow>
    RequestVote cd e (nodes s k) args = Some (rf', reply) \<Longrightarrow>
    cstep cd n s (set_call (set_node s k rf') i t k (Answered reply))"
| count: "i < n \<Longrightarrow> k < n \<Longrightarrow> calls s i t k = Answered reply \<Longrightarrow>
    askVoteFromPeer cd (nodes s i) t (votes s i t) True reply = (rf', v, b) \<Longrightarrow>
    cstep cd n s (set_call (set_votes (set_node s i rf') i t v) i t k (Returned reply))"
| replicate: "i < n \<Longrightarrow> startReplication (nodes s i) t = Some (rf', ok, ms) \<Longrightarrow>
    cstep cd n s ((set_node s i rf')\<lparr>sent := sent s \<union> {(i, t, m) | m. m \<in> set ms}\<rparr>)"
| append: "i < n \<Longrightarrow> k < n \<Longrightarrow> (i, t, SendAppend k args) \<in> sent s \<Longrightarrow>
    AppendEntries cd e (nodes s k) args = Some (rf', reply) \<Longrightarrow>
    cstep cd n s ((set_node s k rf')\<lparr>append_replies := insert (i, t, k, args, reply) (append_replies s)\<rparr>)"
| appended: "i < n \<Longrightarrow> k < n \<Longrightarrow> (i, t, k, args, reply) \<in> append_replies s \<Longrightarrow>
    replicateToPeer cd (nodes s i) t k args True reply = Some rf' \<Longrightarrow>
    cstep cd n s (set_node s i rf')"
| install: "i < n \<Longrightarrow> k < n \<Longrightarrow> (i, t, SendSnap k sargs) \<in> sent s \<Longrightarrow>
    InstallSnapshot cd (nodes s k) sargs = (rf', sreply) \<Longrightarrow>
    cstep cd n s ((set_node s k rf')\<lparr>install_replies := insert (i, t, k, sargs, sreply) (install_replies s)\<rparr>)"
| installed: "i < n \<Longrightarrow> k < n \<Longrightarrow> (i, t, k, sargs, sreply) \<in> install_replies s \<Longrightarrow>
    installToPeer cd (nodes s i) k t sargs True sreply = Some rf' \<Longrightarrow>
    cstep cd n s (set_node s i rf')"
| client: "i < n \<Longrightarrow> Start cd (nodes s i) c = (rf', index, term, isLeader) \<Longrightarrow>
    cstep cd n s (set_node s i rf')"
| snap: "i < n \<Longrightarrow> raft_Snapshot cd (nodes s i) index bytes = Some rf' \<Longrightarrow>
    cstep cd n s (set_node s i rf')"
| collect: "i < n \<Longrightarrow> applier (nodes s i) = ApReady \<Longrightarrow> application_collect (nodes s i) = Some rf' \<Longrightarrow>
    cstep cd n s (set_node s i rf')"
| finish: "i < n \<Longrightarrow> applier (nodes s i) = ApSend b es \<Longrightarrow>
    cstep cd n s (set_node s i (application_finish (nodes s i) b es))"
| kill: "i < n \<Longrightarrow> cstep cd n s (set_node s i (Kill (nodes s i)))"
| restart: "i < n \<Longrightarrow> cstep cd n s (set_node s i (Make cd n i (persister (nodes s i))))"

inductive csteps :: "('c, 'b) codec \<Rightarrow> nat \<Rightarrow> ('c, 'b) cluster \<Rightarrow> ('c, 'b) cluster \<Rightarrow> bool"
  for cd :: "('c, 'b) codec" and n :: nat where
  csteps_refl: "csteps cd n s s"
| csteps_step: "csteps cd n s s' \<Longrightarrow> cstep cd n s' s'' \<Longrightarrow> csteps cd n s s''"

lemma set_node_simps [simp]:
  "nodes (set_node s i rf) = (nodes s)(i := rf)" "electing (set_node s i rf) = electing s"
  "votes (set_node s i rf) = votes s" "calls (set_node s i rf) = calls s" "sent (set_node s i rf) = sent s"
  "append_replies (set_node s i rf) = append_replies s" "install_replies (set_node s i rf) = install_replies s"
  by (simp_all add: set_node_def)

lemma set_call_simps [simp]:
  "nodes (set_call s i t k c) = nodes s" "electing (set_call s i t k c) = electing s"
  "votes (set_call s i t k c) = votes s" "sent (set_call s i t k c) = sent s"
  "calls (set_call s i t k c) i' t' k' = (if i' = i \<and> t' = t \<and> k' = k then c else calls s i' t' k')"
  by (simp_all add: set_call_def)

lemma set_votes_simps [simp]:
  "nodes (set_votes s i t v) = nodes s" "electing (set_votes s i t v) = electing s"
  "calls (set_votes s i t v) = calls s" "sent (set_votes s i t v) = sent s"
  "votes (set_votes s i t v) i' t' = (if i' = i \<and> t' = t then v else votes s i' t')"
  by (simp_all add: set_votes_def)

lemma start_calls_simps [simp]:
  "nodes (start_calls s i t reqs) = nodes s" "electing (start_calls s i t reqs) = electing s"
  "votes (start_calls s i t reqs) = votes s" "sent (start_calls s i t reqs) = sent s"
  by (simp_all add: start_calls_def)

section \<open>Every peer of the cluster keeps its invariant\<close>

fun msg_ok :: "('c, 'b) repl_msg \<Rightarrow> bool" where
  "msg_ok (SendAppend k args) = ae_ok args"
| "msg_ok (SendSnap k args) = is_ok args"

definition nodes_ok :: "('c, 'b) codec \<Rightarrow> nat \<Rightarrow> ('c, 'b) cluster \<Rightarrow> bool" where
  "nodes_ok cd n s \<longleftrightarrow>
     (\<forall>i<n. peer_inv (nodes s i) \<and> durable cd (nodes s i) \<and> me (nodes s i) = i \<and> peers (nodes s i) = n) \<and>
     (\<forall>(i, t, m) \<in> sent s. msg_ok m)"

lemma log_tail_entries_ok:
  assumes inv: "log_inv t l" and at: "log_at l p = Some pe" and tl: "log_tail l (p + 1) = Some es"
  shows "entries_ok (le_Term pe) t es"
proof -
  let ?k = "nat (p - snapLastIdx l)"
  from at have w: "snapLastIdx l \<le> p" "p < log_size l" and pe: "pe = tailLog l ! ?k"
    by (auto simp: log_at_eq split: if_splits)
  from w have klen: "?k < length (tailLog l)" by (auto simp: log_size_def)
  have "nat (p + 1 - snapLastIdx l) = ?k + 1" using w by simp
  with w tl have es: "es = drop (?k + 1) (tailLog l)"
    by (simp add: log_tail_eq)
  have srt: "sorted (map le_Term (drop ?k (tailLog l)))"
    using inv by (simp add: log_inv_def terms_sorted_def drop_map[symmetric] sorted_wrt_drop)
  have "drop ?k (tailLog l) = pe # es"
    using Cons_nth_drop_Suc[OF klen] by (simp add: pe es)
  with srt have "sorted (map le_Term es)" "\<forall>en \<in> set es. le_Term pe \<le> le_Term en" by auto
  moreover have "\<forall>en \<in> set es. le_Term en \<le> t"
    using inv by (auto simp: es log_inv_def dest: in_set_dropD)
  ultimately show ?thesis by (auto simp: entries_ok_def)
qed

lemma replication_msg_ok:
  assumes inv: "peer_inv rf" and msg: "replication_msg rf peer = Some m"
  shows "msg_ok m"
proof -
  have li: "log_inv (currentTerm rf) (rf_log rf)" using inv by (simp add: peer_inv_split)
  then have "snapLastTerm (rf_log rf) \<le> currentTerm rf" "0 \<le> snapLastIdx (rf_log rf)"
    by (auto simp: log_inv_def wf_log_def dest!: bspec[OF _ hd_in_set])
  with msg log_tail_entries_ok[OF li] show ?thesis
    by (auto simp: replication_msg_def Let_def bind_eq_Some_conv is_ok_def ae_ok_def split: if_splits)
qed

lemma replication_loop_msgs:
  assumes "replication_loop rf ps = Some (rf', ms)" "m \<in> set ms"
  shows "\<exists>rf1 peer. same_core rf rf1 \<and> commitIndex rf1 = commitIndex rf \<and> peer \<in> set ps \<and> peer \<noteq> me rf \<and>
    replication_msg rf1 peer = Some m"
  using assms
proof (induction ps arbitrary: rf ms)
  case Nil
  then show ?case by simp
next
  case (Cons peer ps)
  show ?case
  proof (cases "peer = me rf")
    case True
    from replication_loop_self[OF Cons.prems(1)[unfolded True]] obtain a b where
      m: "go_set (matchIndex rf) (int (me rf)) (log_size (rf_log rf) - 1) = Some a"
      "go_set (nextIndex rf) (int (me rf)) (log_size (rf_log rf)) = Some b"
      and rec: "replication_loop (rf\<lparr>matchIndex := a, nextIndex := b\<rparr>) ps = Some (rf', ms)" .
    from Cons.IH[OF rec Cons.prems(2)] m[THEN go_set_length] show ?thesis
      by (auto simp: same_core_def)
  next
    case False
    from replication_loop_other[OF False Cons.prems(1)] obtain m' ms' where
      m': "replication_msg rf peer = Some m'" "replication_loop rf ps = Some (rf', ms')" "ms = m' # ms'" .
    show ?thesis
    proof (cases "m = m'")
      case True
      with m' False show ?thesis by (auto intro!: exI[of _ rf] exI[of _ peer])
    next
      case neq: False
      with Cons.IH[OF m'(2)] Cons.prems(2) m'(3) show ?thesis by auto
    qed
  qed
qed

lemma startReplication_msgs_ok:
  assumes "peer_inv rf" "startReplication rf t = Some (rf', ok, ms)" "m \<in> set ms"
  shows "msg_ok m"
proof -
  from assms(2,3) have "replication_loop rf [0..<peers rf] = Some (rf', ms)"
    by (auto simp: startReplication_def bind_eq_Some_conv split: if_splits)
  from replication_loop_msgs[OF this assms(3)] assms(1) show ?thesis
    by (blast intro: replication_msg_ok same_core_inv)
qed

text \<open>One step changes one peer, by a change that keeps votes, invariant and durability; a new
  leader has just counted a majority.\<close>

definition wins :: "nat \<Rightarrow> ('c, 'b) cluster \<Rightarrow> ('c, 'b) cluster \<Rightarrow> nat \<Rightarrow> bool" where
  "wins n s s' j \<longleftrightarrow>
     (\<exists>t k reply. k < n \<and> calls s j t k = Answered reply \<and> rvr_VoteGranted reply \<and>
        calls s' j t k = Returned reply \<and>
        role (nodes s j) = Candidate \<and> currentTerm (nodes s j) = t \<and> currentTerm (nodes s' j) = t \<and>
        votes s' j t > int n div 2)"

definition node_step :: "('c, 'b) codec \<Rightarrow> nat \<Rightarrow> ('c, 'b) cluster \<Rightarrow> ('c, 'b) cluster \<Rightarrow> nat \<Rightarrow> bool" where
  "node_step cd n s s' j \<longleftrightarrow> j < n \<and> (\<forall>i. i \<noteq> j \<longrightarrow> nodes s' i = nodes s i) \<and>
     peer_inv (nodes s' j) \<and> durable cd (nodes s' j) \<and> vote_step (nodes s j) (nodes s' j) \<and>
     (no_new_leader (nodes s j) (nodes s' j) \<or> wins n s s' j)"

lemma keeps_votes_refl [simp]: "keeps_votes rf rf"
  by (simp add: keeps_votes_defs)

text \<open>The three facts together, for each handler.\<close>

definition good_step :: "('c, 'b) codec \<Rightarrow> ('c, 'b) raft \<Rightarrow> ('c, 'b) raft \<Rightarrow> bool" where
  "good_step cd rf rf' \<longleftrightarrow>
     (codec_ok cd \<and> peer_inv rf \<and> durable cd rf \<longrightarrow> peer_inv rf' \<and> durable cd rf' \<and> keeps_votes rf rf')"

lemma good_same_core: "same_core rf rf' \<Longrightarrow> good_step cd rf rf'"
  unfolding good_step_def by (blast intro: same_core_inv same_core_durable same_core_keeps_votes)

lemma good_RequestVote: "RequestVote cd e rf args = Some (rf', reply) \<Longrightarrow> good_step cd rf rf'"
  unfolding good_step_def by (blast intro: RequestVote_inv RequestVote_durable RequestVote_keeps_votes)

lemma good_AppendEntries: "AppendEntries cd e rf args = Some (rf', reply) \<Longrightarrow> ae_ok args \<Longrightarrow> good_step cd rf rf'"
  unfolding good_step_def by (blast intro: AppendEntries_inv AppendEntries_durable AppendEntries_keeps_votes)

lemma good_replicateToPeer: "replicateToPeer cd rf t peer args ok reply = Some rf' \<Longrightarrow> good_step cd rf rf'"
  unfolding good_step_def by (blast intro: replicateToPeer_inv replicateToPeer_durable replicateToPeer_keeps_votes)

lemma good_InstallSnapshot: "InstallSnapshot cd rf args = (rf', reply) \<Longrightarrow> is_ok args \<Longrightarrow> good_step cd rf rf'"
  unfolding good_step_def by (blast intro: InstallSnapshot_inv InstallSnapshot_durable InstallSnapshot_keeps_votes)

lemma good_installToPeer: "installToPeer cd rf peer t args ok reply = Some rf' \<Longrightarrow> good_step cd rf rf'"
  unfolding good_step_def by (blast intro: installToPeer_inv installToPeer_durable installToPeer_keeps_votes)

lemma good_Snapshot: "raft_Snapshot cd rf index bytes = Some rf' \<Longrightarrow> good_step cd rf rf'"
  unfolding good_step_def by (blast intro: raft_Snapshot_inv raft_Snapshot_durable raft_Snapshot_keeps_votes)

lemma good_electionTicker: "electionTicker cd e rf = (rf', st) \<Longrightarrow> good_step cd rf rf'"
  using electionTicker_inv[of rf cd e] electionTicker_durable[of cd rf e] electionTicker_keeps_votes[of rf cd e]
  by (simp add: good_step_def)

lemma good_Start: "good_step cd rf (fst (Start cd rf c))"
  by (simp add: good_step_def Start_inv Start_durable Start_keeps_votes)

lemma good_Kill: "good_step cd rf (Kill rf)"
  by (auto simp: good_step_def Kill_def peer_inv_def keeps_votes_defs intro: durable_cong)

lemma good_restart: "good_step cd rf (Make cd (peers rf) (me rf) (persister rf))"
  by (simp add: good_step_def restart_inv Make_durable restart_keeps_votes)

lemma node_stepI:
  assumes "good_step cd (nodes s j) rf'" "nodes s' = (nodes s)(j := rf')" "j < n" "nodes_ok cd n s" "codec_ok cd"
  shows "\<exists>j. node_step cd n s s' j"
  using assms by (auto simp: node_step_def keeps_votes_def nodes_ok_def good_step_def intro!: exI[of _ j])

lemma count_node_step:
  assumes ok: "nodes_ok cd n s" and cd: "codec_ok cd" and lt: "i < n" "k < n"
    and ans: "calls s i t k = Answered reply"
    and ask: "askVoteFromPeer cd (nodes s i) t (votes s i t) True reply = (rf', v, b)"
  shows "node_step cd n s (set_call (set_votes (set_node s i rf') i t v) i t k (Returned reply)) i"
    (is "node_step cd n s ?s' i")
proof -
  have rf': "rf' = fst (askVoteFromPeer cd (nodes s i) t (votes s i t) True reply)" using ask by simp
  have "peer_inv rf' \<and> durable cd rf' \<and> vote_step (nodes s i) rf'"
    using ok cd lt unfolding rf' nodes_ok_def
    by (simp add: askVoteFromPeer_inv askVoteFromPeer_durable askVoteFromPeer_vote_step)
  moreover have "no_new_leader (nodes s i) rf' \<or> wins n s ?s' i"
  proof (cases "role rf' = Leader")
    case True
    from askVoteFromPeer_leader[OF ask True] show ?thesis
      using ok lt ans by (auto simp: wins_def nodes_ok_def)
  next
    case False
    then show ?thesis by (simp add: no_new_leader_def)
  qed
  ultimately show ?thesis using lt by (simp add: node_step_def)
qed

lemma cstep_node:
  assumes ok: "nodes_ok cd n s" and cd: "codec_ok cd" and step: "cstep cd n s s'"
  shows "\<exists>j. node_step cd n s s' j"
  using step
proof cases
  case (tick i e rf' start)
  show ?thesis by (rule node_stepI[OF good_electionTicker[OF tick(3)]]) (use tick ok cd in simp_all)
next
  case (elect i t v reqs)
  show ?thesis
    by (rule node_stepI[where j = i, OF good_same_core[OF same_core_refl]]) (use elect ok cd in simp_all)
next
  case (vote i k t args e rf' reply)
  show ?thesis by (rule node_stepI[OF good_RequestVote[OF vote(5)]]) (use vote ok cd in simp_all)
next
  case (count i k t reply rf' v b)
  with ok cd show ?thesis by (blast intro: count_node_step)
next
  case (replicate i t rf' ok' ms)
  show ?thesis
    by (rule node_stepI[OF good_same_core[OF startReplication_same_core[OF replicate(3)]]])
      (use replicate ok cd in simp_all)
next
  case (append i k t args e rf' reply)
  from append(4) ok have "ae_ok args" by (force simp: nodes_ok_def)
  from good_AppendEntries[OF append(5) this] show ?thesis by (rule node_stepI) (use append ok cd in simp_all)
next
  case (appended i k t args reply rf')
  show ?thesis by (rule node_stepI[OF good_replicateToPeer[OF appended(5)]]) (use appended ok cd in simp_all)
next
  case (install i k t sargs rf' sreply)
  from install(4) ok have "is_ok sargs" by (force simp: nodes_ok_def)
  from good_InstallSnapshot[OF install(5) this] show ?thesis by (rule node_stepI) (use install ok cd in simp_all)
next
  case (installed i k t sargs sreply rf')
  show ?thesis by (rule node_stepI[OF good_installToPeer[OF installed(5)]]) (use installed ok cd in simp_all)
next
  case (client i c rf' index t isLeader)
  show ?thesis by (rule node_stepI[where j = i, OF good_Start[of _ _ c]]) (use client ok cd in simp_all)
next
  case (snap i index bytes rf')
  show ?thesis by (rule node_stepI[OF good_Snapshot[OF snap(3)]]) (use snap ok cd in simp_all)
next
  case (collect i rf')
  show ?thesis
    by (rule node_stepI[OF good_same_core[OF application_collect_same_core[OF collect(4)]]])
      (use collect ok cd in simp_all)
next
  case (finish i b es)
  show ?thesis
    by (rule node_stepI[where j = i, OF good_same_core[OF application_finish_same_core]])
      (use finish ok cd in simp_all)
next
  case (kill i)
  show ?thesis by (rule node_stepI[where j = i, OF good_Kill]) (use kill ok cd in simp_all)
next
  case (restart i)
  show ?thesis
    by (rule node_stepI[where j = i, OF good_restart]) (use restart ok cd in \<open>auto simp: nodes_ok_def\<close>)
qed

lemma cstep_sent:
  assumes "nodes_ok cd n s" "cstep cd n s s'"
  shows "\<forall>(i, t, m) \<in> sent s'. msg_ok m"
  using assms(2)
proof cases
  case (replicate i t rf' ok ms)
  with assms(1) have "\<forall>m \<in> set ms. msg_ok m"
    by (auto simp: nodes_ok_def intro: startReplication_msgs_ok)
  with replicate assms(1) show ?thesis by (auto simp: nodes_ok_def)
qed (use assms(1) in \<open>auto simp: nodes_ok_def\<close>)

lemma nodes_ok_init:
  assumes "0 < n" shows "nodes_ok cd n (cluster_init cd n)"
  using log_inv_NewLog[of 1]
  by (auto simp: nodes_ok_def cluster_init_def durable_fresh peer_inv_split ctl_inv_def Make_fresh)

lemma nodes_ok_step:
  assumes "nodes_ok cd n s" "codec_ok cd" "cstep cd n s s'"
  shows "nodes_ok cd n s'"
proof -
  from cstep_node[OF assms] obtain j where j: "node_step cd n s s' j" ..
  have "peer_inv (nodes s' i) \<and> durable cd (nodes s' i) \<and> me (nodes s' i) = i \<and> peers (nodes s' i) = n"
    if "i < n" for i
    using j assms(1) that by (cases "i = j") (auto simp: node_step_def nodes_ok_def vote_step_def)
  with cstep_sent[OF assms(1,3)] show ?thesis by (simp add: nodes_ok_def)
qed

section \<open>The history of votes\<close>

text \<open>\<open>(k, t, c)\<close>: peer \<open>k\<close> voted for \<open>c\<close> in term \<open>t\<close>.\<close>

type_synonym history = "(nat \<times> int \<times> int) set"

definition voted :: "nat \<Rightarrow> ('c, 'b) cluster \<Rightarrow> history" where
  "voted n s = {(k, currentTerm (nodes s k), votedFor (nodes s k)) | k. k < n \<and> votedFor (nodes s k) \<noteq> -1}"

definition hist_ok :: "nat \<Rightarrow> ('c, 'b) cluster \<Rightarrow> history \<Rightarrow> bool" where
  "hist_ok n s H \<longleftrightarrow> voted n s \<subseteq> H \<and>
     (\<forall>k t c. (k, t, c) \<in> H \<longrightarrow> k < n \<and> c \<noteq> -1 \<and> t \<le> currentTerm (nodes s k) \<and>
        (t = currentTerm (nodes s k) \<longrightarrow> votedFor (nodes s k) = c)) \<and>
     (\<forall>k t c c'. (k, t, c) \<in> H \<longrightarrow> (k, t, c') \<in> H \<longrightarrow> c' = c)"

lemma hist_okD:
  assumes "hist_ok n s H" "(k, t, c) \<in> H"
  shows "k < n" "c \<noteq> -1" "t \<le> currentTerm (nodes s k)" "t = currentTerm (nodes s k) \<Longrightarrow> votedFor (nodes s k) = c"
    "(k, t, c') \<in> H \<Longrightarrow> c' = c"
  using assms unfolding hist_ok_def by blast+

lemma voted_iff: "(k, t, c) \<in> voted n s \<longleftrightarrow>
    k < n \<and> c \<noteq> -1 \<and> t = currentTerm (nodes s k) \<and> c = votedFor (nodes s k)"
  by (auto simp: voted_def)

lemma node_step_vote:
  assumes "node_step cd n s s' j"
  shows "currentTerm (nodes s k) < currentTerm (nodes s' k) \<or>
      currentTerm (nodes s' k) = currentTerm (nodes s k) \<and>
        (votedFor (nodes s' k) = votedFor (nodes s k) \<or> votedFor (nodes s k) = -1)"
  using assms by (cases "k = j") (auto simp: node_step_def vote_step_def)

lemma hist_ok_step:
  assumes H: "hist_ok n s H" and j: "node_step cd n s s' j"
  shows "hist_ok n s' (H \<union> voted n s')"
proof -
  have old: "k < n \<and> c \<noteq> -1 \<and> t \<le> currentTerm (nodes s' k) \<and>
      (t = currentTerm (nodes s' k) \<longrightarrow> votedFor (nodes s' k) = c)" if "(k, t, c) \<in> H" for k t c
    using hist_okD(1-4)[OF H that] node_step_vote[OF j, of k] by linarith
  have uniq: "c' = c" if "(k, t, c) \<in> H \<union> voted n s'" "(k, t, c') \<in> H \<union> voted n s'" for k t c c'
    using that old[of k t c] old[of k t c'] hist_okD(5)[OF H, of k t c c'] by (auto simp: voted_iff)
  show ?thesis
    unfolding hist_ok_def
  proof (intro conjI allI impI)
    fix k t c assume "(k, t, c) \<in> H \<union> voted n s'"
    then have "(k, t, c) \<in> H \<or> (k, t, c) \<in> voted n s'" by simp
    then show "k < n" "c \<noteq> -1" "t \<le> currentTerm (nodes s' k)"
      "t = currentTerm (nodes s' k) \<Longrightarrow> votedFor (nodes s' k) = c"
      using old[of k t c] by (auto simp: voted_iff)
  qed (use uniq in blast)+
qed

section \<open>The votes of an election\<close>

text \<open>The peers whose granted votes an election has counted, besides the candidate's own.\<close>

definition counted :: "nat \<Rightarrow> ('c, 'b) cluster \<Rightarrow> nat \<Rightarrow> int \<Rightarrow> nat set" where
  "counted n s i t = {k. k < n \<and> k \<noteq> i \<and> (\<exists>reply. calls s i t k = Returned reply \<and> rvr_VoteGranted reply)}"

fun call_ok :: "history \<Rightarrow> nat \<Rightarrow> int \<Rightarrow> nat \<Rightarrow> vote_call \<Rightarrow> bool" where
  "call_ok H i t k NoCall = True"
| "call_ok H i t k (Called args) = (k \<noteq> i \<and> rva_Term args = t \<and> rva_CandidateId args = int i)"
| "call_ok H i t k (Answered reply) = (k \<noteq> i \<and> (rvr_VoteGranted reply \<longrightarrow> (k, t, int i) \<in> H))"
| "call_ok H i t k (Returned reply) = (k \<noteq> i \<and> (rvr_VoteGranted reply \<longrightarrow> (k, t, int i) \<in> H))"

definition calls_ok :: "nat \<Rightarrow> ('c, 'b) cluster \<Rightarrow> history \<Rightarrow> bool" where
  "calls_ok n s H \<longleftrightarrow>
     (\<forall>i<n. \<forall>t. (\<forall>k<n. call_ok H i t k (calls s i t k)) \<and> votes s i t \<le> 1 + int (card (counted n s i t)))"

lemma call_ok_mono: "call_ok H i t k c \<Longrightarrow> H \<subseteq> H' \<Longrightarrow> call_ok H' i t k c"
  by (cases c) auto

lemma finite_counted [simp]: "finite (counted n s i t)"
  by (simp add: counted_def)

lemma counted_cong: "calls s' i t = calls s i t \<Longrightarrow> counted n s' i t = counted n s i t"
  by (simp add: counted_def)

lemma calls_ok_frame:
  assumes "calls_ok n s H" "calls s' = calls s" "votes s' = votes s" "H \<subseteq> H'"
  shows "calls_ok n s' H'"
  using assms by (auto simp: calls_ok_def counted_def intro: call_ok_mono)

lemma startElection_reqs:
  assumes "startElection rf t = Some (v, reqs)" "me rf < peers rf"
  shows "v \<le> 1 \<and> (\<forall>(k, args) \<in> set reqs. k \<noteq> me rf \<and> rva_Term args = t \<and> rva_CandidateId args = int (me rf))"
proof -
  have "filter (\<lambda>p. p = me rf) [0..<m] = (if me rf < m then [me rf] else [])" for m
    by (induction m) auto
  with assms show ?thesis
    by (auto simp: startElection_def bind_eq_Some_conv contextLostLocked_def split: if_splits)
qed

lemma calls_ok_elect:
  assumes ok: "calls_ok n s H" "nodes_ok cd n s" and i: "i < n"
    and el: "startElection (nodes s i) t = Some (v, reqs)"
    and calls': "\<And>i' t' k. calls s' i' t' k =
      (if i' = i \<and> t' = t then (case map_of reqs k of Some args \<Rightarrow> Called args | None \<Rightarrow> calls s i t k)
       else calls s i' t' k)"
    and votes': "\<And>i' t'. votes s' i' t' = (if i' = i \<and> t' = t then v else votes s i' t')"
  shows "calls_ok n s' H"
proof -
  from ok(2) i have me: "me (nodes s i) = i" "peers (nodes s i) = n" by (auto simp: nodes_ok_def)
  note reqs = startElection_reqs[OF el, unfolded me, OF i]
  have "call_ok H i t k (calls s' i t k)" if "k < n" for k
    using reqs ok(1) i that
    by (cases "map_of reqs k") (auto simp: calls' calls_ok_def dest!: map_of_SomeD)
  moreover have "votes s' i t \<le> 1 + int (card (counted n s' i t))"
    using reqs by (simp add: votes')
  moreover have "calls s' i' t' = calls s i' t'" "votes s' i' t' = votes s i' t'" if "i' \<noteq> i \<or> t' \<noteq> t" for i' t'
    using that by (auto simp: calls' votes' fun_eq_iff)
  ultimately show ?thesis
    using ok(1) counted_cong unfolding calls_ok_def by metis
qed

lemma calls_ok_vote:
  assumes ok: "calls_ok n s H" and call: "calls s i t k = Called args" and lt: "i < n" "k < n"
    and rv: "RequestVote cd e (nodes s k) args = Some (rf', reply)"
    and s': "s' = set_call (set_node s k rf') i t k (Answered reply)" "H \<union> voted n s' \<subseteq> H'"
  shows "calls_ok n s' H'"
proof -
  have "call_ok H i t k (calls s i t k)" using ok lt by (simp add: calls_ok_def)
  with call have c: "k \<noteq> i" "rva_Term args = t" "rva_CandidateId args = int i" by simp_all
  have "(k, t, int i) \<in> H'" if "rvr_VoteGranted reply"
  proof -
    have "(k, t, int i) \<in> voted n s'" using RequestVote_granted[OF rv that] lt c by (simp add: voted_iff s'(1))
    with s'(2) show ?thesis by blast
  qed
  with c have "call_ok H' i t k (Answered reply)" by simp
  moreover have "call_ok H' i' t' k' (calls s i' t' k')" if "i' < n" "k' < n" for i' t' k'
    using ok that s'(2) by (auto simp: calls_ok_def intro: call_ok_mono)
  moreover have "counted n s' i' t' = counted n s i' t'" for i' t'
    using call by (auto simp: counted_def s')
  ultimately show ?thesis using ok by (auto simp: calls_ok_def s')
qed

lemma askVoteFromPeer_votes:
  "askVoteFromPeer cd rf t v ok reply = (rf', v', b) \<Longrightarrow> v' \<le> (if rvr_VoteGranted reply then v + 1 else v)"
  by (auto simp: askVoteFromPeer_def Let_def split: if_splits)

lemma calls_ok_count:
  assumes ok: "calls_ok n s H" and call: "calls s i t k = Answered reply" and lt: "i < n" "k < n"
    and ask: "askVoteFromPeer cd (nodes s i) t (votes s i t) True reply = (rf', v, b)"
    and s': "s' = set_call (set_votes (set_node s i rf') i t v) i t k (Returned reply)" "H \<subseteq> H'"
  shows "calls_ok n s' H'"
proof -
  have "call_ok H i t k (calls s i t k)" using ok lt by (simp add: calls_ok_def)
  with call have c: "call_ok H i t k (Answered reply)" "k \<notin> counted n s i t" by (simp_all add: counted_def)
  have cnt: "counted n s' i t = (if rvr_VoteGranted reply then insert k (counted n s i t) else counted n s i t)"
    using c call lt by (auto simp: counted_def s')
  have "counted n s' i' t' = counted n s i' t'" if "i' \<noteq> i \<or> t' \<noteq> t" for i' t'
    using that by (auto simp: counted_def s')
  moreover have "votes s i t \<le> 1 + int (card (counted n s i t))" using ok lt by (simp add: calls_ok_def)
  then have "v \<le> 1 + int (card (counted n s' i t))"
    using askVoteFromPeer_votes[OF ask] c(2) by (simp add: cnt split: if_splits)
  moreover have "call_ok H' i' t' k' (calls s' i' t' k')" if "i' < n" "k' < n" for i' t' k'
  proof -
    have "call_ok H i' t' k' (calls s' i' t' k')" using ok c that by (simp add: calls_ok_def s')
    then show ?thesis using s'(2) by (rule call_ok_mono)
  qed
  ultimately show ?thesis using ok by (auto simp: calls_ok_def s')
qed

lemma calls_ok_step:
  assumes ok: "calls_ok n s H" "nodes_ok cd n s" and step: "cstep cd n s s'" and H': "H \<union> voted n s' \<subseteq> H'"
  shows "calls_ok n s' H'"
  using step
proof cases
  case (elect i t v reqs)
  have "calls_ok n s' H"
    by (rule calls_ok_elect[OF ok elect(2,4)])
      (simp_all add: elect(1) start_calls_def set_votes_def split: option.split)
  with H' show ?thesis by (blast intro: calls_ok_frame)
next
  case (vote i k t args e rf' reply)
  from calls_ok_vote[OF ok(1) vote(4,2,3,5,1) H'] show ?thesis .
next
  case (count i k t reply rf' v b)
  from calls_ok_count[OF ok(1) count(4,2,3,5,1)] H' show ?thesis by blast
qed (use H' in \<open>auto intro!: calls_ok_frame[OF ok(1)]\<close>)

section \<open>Election safety\<close>

definition quorum :: "nat \<Rightarrow> history \<Rightarrow> int \<Rightarrow> nat \<Rightarrow> bool" where
  "quorum n H t i \<longleftrightarrow> (\<exists>Q \<subseteq> {..<n}. n < 2 * card Q \<and> (\<forall>k \<in> Q. (k, t, int i) \<in> H))"

definition leaders_ok :: "nat \<Rightarrow> ('c, 'b) cluster \<Rightarrow> history \<Rightarrow> bool" where
  "leaders_ok n s H \<longleftrightarrow> (\<forall>i<n. role (nodes s i) = Leader \<longrightarrow> quorum n H (currentTerm (nodes s i)) i)"

lemma quorum_mono: "quorum n H t i \<Longrightarrow> H \<subseteq> H' \<Longrightarrow> quorum n H' t i"
  unfolding quorum_def by blast

lemma wins_quorum:
  assumes w: "wins n s s' j" "j < n" and ok: "calls_ok n s' H'" "nodes_ok cd n s" "voted n s \<subseteq> H'"
  shows "quorum n H' (currentTerm (nodes s' j)) j"
proof -
  define t where "t = currentTerm (nodes s' j)"
  from w(1) have k: "role (nodes s j) = Candidate" "currentTerm (nodes s j) = t" "votes s' j t > int n div 2"
    by (auto simp: wins_def t_def)
  let ?Q = "insert j (counted n s' j t)"
  have "j \<notin> counted n s' j t" by (simp add: counted_def)
  then have "votes s' j t \<le> int (card ?Q)" using ok(1) w(2) by (simp add: calls_ok_def)
  with k(3) have "n < 2 * card ?Q" by linarith
  moreover have "?Q \<subseteq> {..<n}" using w(2) by (auto simp: counted_def)
  moreover have "(j, t, int j) \<in> voted n s"
    using ok(2) w(2) k(1,2) by (simp add: nodes_ok_def peer_inv_def voted_iff)
  then have "(j, t, int j) \<in> H'" using ok(3) by blast
  moreover have "(i, t, int j) \<in> H'" if "i \<in> counted n s' j t" for i
  proof -
    from that obtain r where i: "i < n" "calls s' j t i = Returned r" "rvr_VoteGranted r"
      by (auto simp: counted_def)
    have "call_ok H' j t i (calls s' j t i)" using ok(1) w(2) i(1) by (simp add: calls_ok_def)
    with i show ?thesis by simp
  qed
  ultimately show ?thesis unfolding quorum_def t_def[symmetric] by blast
qed

lemma leaders_ok_step:
  assumes L: "leaders_ok n s H" and j: "node_step cd n s s' j"
    and ok: "calls_ok n s' H'" "nodes_ok cd n s" "voted n s \<subseteq> H" "H \<subseteq> H'"
  shows "leaders_ok n s' H'"
  unfolding leaders_ok_def
proof (intro allI impI)
  fix i assume i: "i < n" "role (nodes s' i) = Leader"
  show "quorum n H' (currentTerm (nodes s' i)) i"
  proof (cases "i = j \<and> wins n s s' j")
    case True
    moreover have "voted n s \<subseteq> H'" using ok(3,4) by simp
    ultimately show ?thesis using wins_quorum[OF _ _ ok(1,2)] i by simp
  next
    case False
    with j i have "role (nodes s i) = Leader \<and> currentTerm (nodes s' i) = currentTerm (nodes s i)"
      by (cases "i = j") (auto simp: node_step_def no_new_leader_def)
    with L i ok(4) show ?thesis by (auto simp: leaders_ok_def intro: quorum_mono)
  qed
qed

definition cluster_inv :: "('c, 'b) codec \<Rightarrow> nat \<Rightarrow> ('c, 'b) cluster \<Rightarrow> history \<Rightarrow> bool" where
  "cluster_inv cd n s H \<longleftrightarrow> nodes_ok cd n s \<and> hist_ok n s H \<and> calls_ok n s H \<and> leaders_ok n s H"

lemma cluster_inv_init: "0 < n \<Longrightarrow> cluster_inv cd n (cluster_init cd n) {}"
  unfolding cluster_inv_def
proof (intro conjI)
  let ?s = "cluster_init cd n"
  assume "0 < n" then show "nodes_ok cd n ?s" by (rule nodes_ok_init)
  show "hist_ok n ?s {}" by (simp add: hist_ok_def voted_def cluster_init_def Make_fresh)
  show "calls_ok n ?s {}" "leaders_ok n ?s {}" by (simp_all add: calls_ok_def leaders_ok_def cluster_init_def)
qed

lemma cluster_inv_step:
  assumes "codec_ok cd" "cluster_inv cd n s H" "cstep cd n s s'"
  shows "cluster_inv cd n s' (H \<union> voted n s')"
proof -
  from assms(2) have inv: "nodes_ok cd n s" "hist_ok n s H" "calls_ok n s H" "leaders_ok n s H"
    by (auto simp: cluster_inv_def)
  from cstep_node[OF inv(1) assms(1,3)] obtain j where j: "node_step cd n s s' j" ..
  have c: "calls_ok n s' (H \<union> voted n s')" using calls_ok_step[OF inv(3,1) assms(3)] by blast
  moreover have "voted n s \<subseteq> H" using inv(2) by (simp add: hist_ok_def)
  ultimately show ?thesis
    using nodes_ok_step[OF inv(1) assms(1,3)] hist_ok_step[OF inv(2) j] leaders_ok_step[OF inv(4) j c inv(1)]
    by (simp add: cluster_inv_def)
qed

lemma cluster_inv_steps:
  assumes "csteps cd n s s'" "codec_ok cd" "cluster_inv cd n s H"
  shows "\<exists>H'. H \<subseteq> H' \<and> cluster_inv cd n s' H'"
  using assms(1,3)
proof induction
  case (csteps_refl s)
  then show ?case by (intro exI[of _ H]) simp
next
  case (csteps_step s s' s'')
  then obtain H' where H': "H \<subseteq> H'" "cluster_inv cd n s' H'" by blast
  have "H \<subseteq> H' \<union> voted n s''" using H'(1) by blast
  with cluster_inv_step[OF assms(2) H'(2) csteps_step.hyps(2)] show ?case
    by (intro exI[of _ "H' \<union> voted n s''"]) simp
qed

lemma quorum_unique:
  assumes "hist_ok n s H" "quorum n H t i" "quorum n H t j"
  shows "i = j"
proof -
  from assms(2,3) obtain Q R where "Q \<subseteq> {..<n}" "n < 2 * card Q" "\<forall>k \<in> Q. (k, t, int i) \<in> H"
      "R \<subseteq> {..<n}" "n < 2 * card R" "\<forall>k \<in> R. (k, t, int j) \<in> H"
    by (auto simp: quorum_def)
  note QR = this
  from majorities_intersect[OF QR(1,4,2,5)] obtain k where "k \<in> Q" "k \<in> R" by blast
  with QR have "(k, t, int i) \<in> H" "(k, t, int j) \<in> H" by simp_all
  from hist_okD(5)[OF assms(1) this] show ?thesis by simp
qed

text \<open>C1. Election safety: in every execution of a cluster, with message loss, reordering, duplicated
  replication messages, crashes and restarts, a term has at most one leader. The leader of a term
  seen at one moment is the only peer that is ever seen as leader of that term later.\<close>

theorem election_safety:
  assumes "codec_ok cd" "0 < n" "csteps cd n (cluster_init cd n) s" "csteps cd n s s'"
    and "i < n" "role (nodes s i) = Leader" and "j < n" "role (nodes s' j) = Leader"
    and "currentTerm (nodes s' j) = currentTerm (nodes s i)"
  shows "i = j"
proof -
  from cluster_inv_steps[OF assms(3,1) cluster_inv_init[OF assms(2)]] obtain H where
    H: "cluster_inv cd n s H" by blast
  from cluster_inv_steps[OF assms(4,1) H] obtain H' where
    H': "H \<subseteq> H'" "cluster_inv cd n s' H'" by blast
  have "quorum n H (currentTerm (nodes s i)) i" using H assms(5,6) by (simp add: cluster_inv_def leaders_ok_def)
  from quorum_mono[OF this H'(1)] have "quorum n H' (currentTerm (nodes s i)) i" .
  moreover have "quorum n H' (currentTerm (nodes s i)) j"
    using H'(2) assms(7-9) by (auto simp: cluster_inv_def leaders_ok_def)
  ultimately show ?thesis using H'(2) quorum_unique by (auto simp: cluster_inv_def)
qed

section \<open>A concrete execution\<close>

text \<open>Three peers; peer 0 times out, asks for votes, peer 1 answers, peer 0 becomes leader of term 2.\<close>

definition demo_env :: env where "demo_env = \<lparr>now = 1, rand = 0\<rparr>"

definition demo_args :: RequestVoteArgs where
  "demo_args = \<lparr>rva_Term = 2, rva_CandidateId = 0, rva_LastLogIndex = 0, rva_LastLogTerm = 0\<rparr>"

definition demo_reply :: RequestVoteReply where
  "demo_reply = \<lparr>rvr_Term = 1, rvr_VoteGranted = True\<rparr>"

definition demo1 :: "(nat, nat gob) cluster" where
  "demo1 = (let s = cluster_init cell_codec 3
     in (set_node s 0 (fst (electionTicker cell_codec demo_env (nodes s 0))))\<lparr>electing := {(0, 2)}\<rparr>)"

definition demo2 :: "(nat, nat gob) cluster" where
  "demo2 = start_calls (set_votes (demo1\<lparr>electing := {}\<rparr>) 0 2 1) 0 2 [(1, demo_args), (2, demo_args)]"

definition demo3 :: "(nat, nat gob) cluster" where
  "demo3 = set_call (set_node demo2 1
      (fst (the (RequestVote cell_codec demo_env (nodes demo2 1) demo_args)))) 0 2 1 (Answered demo_reply)"

definition demo4 :: "(nat, nat gob) cluster" where
  "demo4 = set_call (set_votes (set_node demo3 0
      (fst (askVoteFromPeer cell_codec (nodes demo3 0) 2 1 True demo_reply))) 0 2 2) 0 2 1 (Returned demo_reply)"

lemma demo_eval:
  "snd (electionTicker cell_codec demo_env (nodes (cluster_init cell_codec 3) 0 :: (nat, nat gob) raft)) = Some 2"
  "startElection (nodes demo1 0) 2 = Some (1, [(1, demo_args), (2, demo_args)])"
  "map_option snd (RequestVote cell_codec demo_env (nodes demo2 1) demo_args) = Some demo_reply"
  "snd (askVoteFromPeer cell_codec (nodes demo3 0) 2 1 True demo_reply) = (2, True)"
  "role (nodes demo4 0) = Leader" "currentTerm (nodes demo4 0) = 2"
  by code_simp+

lemma demo_steps:
  "cstep cell_codec 3 (cluster_init cell_codec 3) demo1" "cstep cell_codec 3 demo1 demo2"
  "cstep cell_codec 3 demo2 demo3" "cstep cell_codec 3 demo3 demo4"
proof -
  let ?s = "cluster_init cell_codec 3 :: (nat, nat gob) cluster"
  have "electing ?s = {}" by (simp add: cluster_init_def)
  then show "cstep cell_codec 3 ?s demo1"
    using cstep.tick[of 0 3 cell_codec demo_env ?s] demo_eval(1)
    by (cases "electionTicker cell_codec demo_env (nodes ?s 0)") (simp add: demo1_def Let_def)
  have "electing demo1 = {(0, 2)}" by (simp add: demo1_def Let_def)
  then show "cstep cell_codec 3 demo1 demo2"
    using cstep.elect[of 0 3 2 demo1, OF _ _ demo_eval(2), of cell_codec] by (simp add: demo2_def)
  have "calls demo2 0 2 1 = Called demo_args" by (simp add: demo2_def start_calls_def)
  then show "cstep cell_codec 3 demo2 demo3"
    using cstep.vote[of 0 3 1 demo2 2 demo_args cell_codec demo_env] demo_eval(3)
    by (cases "RequestVote cell_codec demo_env (nodes demo2 1) demo_args") (auto simp: demo3_def)
  have "calls demo3 0 2 1 = Answered demo_reply" "votes demo3 0 2 = 1"
    by (simp_all add: demo3_def demo2_def)
  then show "cstep cell_codec 3 demo3 demo4"
    using cstep.count[of 0 3 1 demo3 2 demo_reply cell_codec] demo_eval(4)
    by (cases "askVoteFromPeer cell_codec (nodes demo3 0) 2 1 True demo_reply") (auto simp: demo4_def)
qed

lemma demo_run3: "csteps cell_codec 3 (cluster_init cell_codec 3) demo3"
  using demo_steps csteps_refl csteps_step by metis

lemma demo_run: "csteps cell_codec 3 (cluster_init cell_codec 3) demo4"
  using csteps_step[OF demo_run3 demo_steps(4)] .

theorem election_safety_witness:
  "csteps cell_codec 3 (cluster_init cell_codec 3) demo4 \<and> role (nodes demo4 0) = Leader \<and>
   {j. j < 3 \<and> role (nodes demo4 j) = Leader \<and> currentTerm (nodes demo4 j) = 2} = {0}"
  using demo_run demo_eval(5,6)
    election_safety[OF cell_codec_ok _ demo_run csteps_refl, of 0]
  by auto

section \<open>Crash recovery and persistence of votes\<close>

lemma reachable_nodes_ok:
  assumes "codec_ok cd" "0 < n" "csteps cd n (cluster_init cd n) s"
  shows "nodes_ok cd n s"
  using cluster_inv_steps[OF assms(3,1) cluster_inv_init[OF assms(2)]] by (auto simp: cluster_inv_def)

text \<open>C8. Crash recovery: in every reachable state of a cluster, restarting a peer from its persister
  gives back exactly the term, the vote and the whole log it had, as a follower; the restarted peer
  satisfies the invariant of a peer.\<close>

theorem crash_recovery:
  assumes "codec_ok cd" "0 < n" "csteps cd n (cluster_init cd n) s" "i < n"
  shows "let rf = nodes s i; rf' = Make cd n i (persister rf)
    in currentTerm rf' = currentTerm rf \<and> votedFor rf' = votedFor rf \<and> rf_log rf' = rf_log rf \<and>
       role rf' = Follower \<and> peer_inv rf'"
proof -
  have ok: "peer_inv (nodes s i)" "durable cd (nodes s i)" "me (nodes s i) = i" "peers (nodes s i) = n"
    using reachable_nodes_ok[OF assms(1-3)] assms(4) by (simp_all add: nodes_ok_def)
  with restart_inv[OF ok(1,2)] show ?thesis by (simp add: durable_def Let_def)
qed

theorem crash_recovery_witness:
  "let rf = nodes demo4 1; rf' = Make cell_codec 3 1 (persister rf)
   in currentTerm rf' = 2 \<and> votedFor rf' = 0 \<and> rf_log rf' = rf_log rf"
proof -
  have "currentTerm (nodes demo4 1) = 2 \<and> votedFor (nodes demo4 1) = 0" by code_simp
  then show ?thesis using crash_recovery[OF cell_codec_ok _ demo_run, of 1] by (simp add: Let_def)
qed

lemma csteps_vote:
  assumes "csteps cd n s s'" "codec_ok cd" "nodes_ok cd n s"
  shows "nodes_ok cd n s' \<and> currentTerm (nodes s i) \<le> currentTerm (nodes s' i) \<and>
    (currentTerm (nodes s' i) = currentTerm (nodes s i) \<longrightarrow> votedFor (nodes s i) \<noteq> -1 \<longrightarrow>
      votedFor (nodes s' i) = votedFor (nodes s i))"
  using assms(1,3)
proof induction
  case (csteps_refl s)
  then show ?case by simp
next
  case (csteps_step s s' s'')
  then have ok: "nodes_ok cd n s'" by simp
  from cstep_node[OF ok assms(2) csteps_step.hyps(2)] obtain j where "node_step cd n s' s'' j" ..
  from node_step_vote[OF this, of i] csteps_step nodes_ok_step[OF ok assms(2) csteps_step.hyps(2)]
  show ?case by linarith
qed

text \<open>C11. A peer votes at most once per term and its term never goes back, whatever is delivered to
  it and however often it crashes: along every execution the term grows or, while it stays the same,
  a vote that was given stays given.\<close>

theorem one_vote_per_term:
  assumes "codec_ok cd" "0 < n" "csteps cd n (cluster_init cd n) s" "csteps cd n s s'" "i < n"
  shows "currentTerm (nodes s i) \<le> currentTerm (nodes s' i) \<and>
    (currentTerm (nodes s' i) = currentTerm (nodes s i) \<longrightarrow> votedFor (nodes s i) \<noteq> -1 \<longrightarrow>
      votedFor (nodes s' i) = votedFor (nodes s i))"
  using csteps_vote[OF assms(4,1) reachable_nodes_ok[OF assms(1-3)]] by blast

theorem one_vote_per_term_witness:
  "currentTerm (nodes demo3 1) = 2 \<and> votedFor (nodes demo3 1) = 0 \<and>
   currentTerm (nodes demo4 1) = 2 \<and> votedFor (nodes demo4 1) = 0"
proof -
  have "currentTerm (nodes demo3 1) = 2 \<and> votedFor (nodes demo3 1) = 0" "currentTerm (nodes demo4 1) = 2"
    by code_simp+
  then show ?thesis
    using one_vote_per_term[OF cell_codec_ok _ demo_run3 csteps_step[OF csteps_refl demo_steps(4)], of 1] by simp
qed

end
