(* ===== verification/Raft_Properties.thy ===== *)
theory Raft_Properties
  imports Raft_Cluster
begin

text \<open>
  What the handlers of a Raft peer do, branch by branch: replication copies the log of the leader,
  no handler panics on a well-formed peer, the commit index is a majority index, the messages to
  the service carry consecutive indexes, and the cases in which the code does not do what the
  protocol needs.
\<close>

section \<open>Replication\<close>

lemma replication_msg_appendE:
  assumes "replication_msg ld peer = Some (SendAppend k args)"
  obtains pe where "snapLastIdx (rf_log ld) \<le> aea_PrevLogIndex args"
    "log_at (rf_log ld) (aea_PrevLogIndex args) = Some pe" "aea_PrevLogTerm args = le_Term pe"
    "log_tail (rf_log ld) (aea_PrevLogIndex args + 1) = Some (aea_Entries args)"
    "aea_Term args = currentTerm ld" "k = peer" "aea_LeaderCommit args = commitIndex ld"
  using assms by (auto simp: replication_msg_def Let_def bind_eq_Some_conv split: if_splits)

lemma log_size_via_at:
  "wf_log l \<Longrightarrow> wf_log l' \<Longrightarrow> p < log_size l \<Longrightarrow> p < log_size l' \<Longrightarrow> snapLastIdx l \<le> p \<Longrightarrow> snapLastIdx l' \<le> p \<Longrightarrow>
   \<forall>i > p. log_at l i = log_at l' i \<Longrightarrow> log_size l = log_size l'"
  by (rule ccontr) (auto simp: neq_iff log_at_eq split: if_splits)

text \<open>C9. A successful \<open>AppendEntries\<close> copies the leader's log: when the request was built from the
  leader's log by \<open>startReplication\<close> and the follower accepts it, the follower's log agrees with the
  leader's at every index above \<open>PrevLogIndex\<close>, has the leader's size, and is unchanged up to
  \<open>PrevLogIndex\<close>, where the two terms agree. The follower is then in the leader's term.\<close>

theorem AppendEntries_copies:
  fixes ld rf :: "('c, 'b) raft"
  assumes inv: "wf_log (rf_log ld)" "wf_log (rf_log rf)"
    and msg: "replication_msg ld peer = Some (SendAppend peer args)"
    and app: "AppendEntries cd e rf args = Some (rf', reply)" "aer_Success reply"
  shows "(\<forall>i > aea_PrevLogIndex args. log_at (rf_log rf') i = log_at (rf_log ld) i) \<and>
    (\<forall>i \<le> aea_PrevLogIndex args. log_at (rf_log rf') i = log_at (rf_log rf) i) \<and>
    log_size (rf_log rf') = log_size (rf_log ld) \<and>
    map_option le_Term (log_at (rf_log rf) (aea_PrevLogIndex args)) =
      map_option le_Term (log_at (rf_log ld) (aea_PrevLogIndex args)) \<and>
    role rf' = Follower \<and> currentTerm rf' = currentTerm ld"
proof -
  let ?p = "aea_PrevLogIndex args"
  from msg obtain pe where ld: "snapLastIdx (rf_log ld) \<le> ?p" "log_at (rf_log ld) ?p = Some pe"
      "aea_PrevLogTerm args = le_Term pe" "log_tail (rf_log ld) (?p + 1) = Some (aea_Entries args)"
      "aea_Term args = currentTerm ld"
    by (rule replication_msg_appendE)
  from app(1) show ?thesis
  proof (cases rule: AppendEntries_cases)
    case (accepted pe' l2 rf2)
    have l2: "rf_log rf' = l2" by (simp add: accepted(6,7))
    have p: "snapLastIdx (rf_log rf) \<le> ?p" "?p < log_size (rf_log rf)" "?p < log_size (rf_log ld)"
      using accepted(3) ld(2) by (auto simp: log_at_eq split: if_splits)
    have copy: "(\<forall>i > ?p. log_at l2 i = log_at (rf_log ld) i) \<and> (\<forall>i \<le> ?p. log_at l2 i = log_at (rf_log rf) i)"
      using rl.copy_suffix[OF inv(1) ld(1) inv(2) p(1,2)] ld(4) accepted(5) by auto
    moreover have "log_size l2 = log_size (rf_log ld)"
      using log_size_via_at[of l2 "rf_log ld" ?p] copy appendFrom_wf[OF inv(2) accepted(5)] inv(1) p ld(1)
        appendFrom_snap[OF accepted(5)] appendFrom_size[OF accepted(5)] by simp
    ultimately show ?thesis
      using accepted ld by (simp add: l2 max_absorb1)
  qed (use app(2) in auto)
qed

text \<open>A leader with one entry of term 2, a fresh follower, and the request between them.\<close>

definition demo_leader :: "(nat, nat gob) raft" where
  "demo_leader = fst (Start cell_codec (nodes demo4 0) 7)"

definition demo_follower :: "(nat, nat gob) raft" where
  "demo_follower = Make cell_codec 3 2 MakePersister"

definition demo_append :: "nat AppendEntriesArgs" where
  "demo_append = \<lparr>aea_Term = 2, aea_LeaderId = 0, aea_PrevLogIndex = 0, aea_PrevLogTerm = 0,
     aea_Entries = [\<lparr>le_Term = 2, le_CommandValid = True, le_Command = Some 7\<rparr>], aea_LeaderCommit = 0\<rparr>"

lemma demo_append_eval:
  "wf_log (rf_log demo_leader)" "wf_log (rf_log demo_follower)"
  "replication_msg demo_leader 2 = Some (SendAppend 2 demo_append)"
  "map_option (aer_Success \<circ> snd) (AppendEntries cell_codec demo_env demo_follower demo_append) = Some True"
  by code_simp+

theorem AppendEntries_copies_witness:
  "\<exists>rf' reply. AppendEntries cell_codec demo_env demo_follower demo_append = Some (rf', reply) \<and>
     log_size (rf_log rf') = log_size (rf_log demo_leader) \<and>
     log_at (rf_log rf') 1 = log_at (rf_log demo_leader) 1"
proof -
  obtain rf' reply where app: "AppendEntries cell_codec demo_env demo_follower demo_append = Some (rf', reply)"
      "aer_Success reply"
    using demo_append_eval(4) by auto
  from AppendEntries_copies[OF demo_append_eval(1,2,3) app] app(1) show ?thesis
    by (simp add: demo_append_def)
qed

text \<open>C17. \<open>AppendEntries\<close> never panics, and it accepts exactly the requests of a term that is not old
  whose previous entry is in the window of the log with the term the leader says it has.\<close>

theorem AppendEntries_accepts_iff:
  "\<exists>rf' reply. AppendEntries cd e rf args = Some (rf', reply) \<and>
    (aer_Success reply \<longleftrightarrow> currentTerm rf \<le> aea_Term args \<and>
       (\<exists>pe. log_at (rf_log rf) (aea_PrevLogIndex args) = Some pe \<and> le_Term pe = aea_PrevLogTerm args))"
proof -
  let ?p = "aea_PrevLogIndex args" and ?l = "rf_log rf"
  consider "aea_Term args < currentTerm rf" | "currentTerm rf \<le> aea_Term args" "log_size ?l \<le> ?p"
    | "currentTerm rf \<le> aea_Term args" "?p < log_size ?l" "?p < snapLastIdx ?l"
    | "currentTerm rf \<le> aea_Term args" "?p < log_size ?l" "snapLastIdx ?l \<le> ?p" by linarith
  then show ?thesis
  proof cases
    case 4
    then obtain pe where pe: "log_at ?l ?p = Some pe" by (simp add: log_at_eq)
    then show ?thesis
      using 4 by (cases "le_Term pe = aea_PrevLogTerm args")
        (simp_all add: AppendEntries_def Let_def appendFrom_eq)
  qed (simp_all add: AppendEntries_def Let_def log_at_eq)
qed

text \<open>C18. \<open>RequestVote\<close> never panics when the log has a last entry, and it grants the vote exactly
  when the term is not old, the peer has given no vote in that term, and the candidate's log is at
  least as up to date: a later last term, or the same last term and no smaller last index. A granted
  vote is stored, for the term of the request.\<close>

theorem RequestVote_grants_iff:
  assumes "log_last (rf_log rf) = Some (li, lt)"
  shows "\<exists>rf' reply. RequestVote cd e rf args = Some (rf', reply) \<and>
    (rvr_VoteGranted reply \<longleftrightarrow> currentTerm rf \<le> rva_Term args \<and>
       (currentTerm rf < rva_Term args \<or> votedFor rf = -1) \<and>
       (lt < rva_LastLogTerm args \<or> lt = rva_LastLogTerm args \<and> li \<le> rva_LastLogIndex args)) \<and>
    (rvr_VoteGranted reply \<longrightarrow> votedFor rf' = rva_CandidateId args \<and> currentTerm rf' = rva_Term args)"
  using assms by (auto simp: RequestVote_def isMoreUpToDateLocked_def Let_def)

theorem RequestVote_grants_iff_witness:
  "\<exists>rf' reply. RequestVote cell_codec demo_env demo_follower demo_args = Some (rf', reply) \<and>
     rvr_VoteGranted reply \<and> votedFor rf' = 0"
proof -
  have "log_last (rf_log demo_follower) = Some (0, 0)" "currentTerm demo_follower = 1" "votedFor demo_follower = -1"
    by code_simp+
  then show ?thesis
    using RequestVote_grants_iff[of demo_follower 0 0 cell_codec demo_env demo_args] by (auto simp: demo_args_def)
qed

section \<open>The commit index\<close>

lemma sorted_count_ge:
  assumes "sorted xs" "k < length xs"
  shows "length xs - k \<le> length (filter (\<lambda>x. xs ! k \<le> x) xs)"
    and "xs ! k < m \<Longrightarrow> length (filter (\<lambda>x. m \<le> x) xs) \<le> length xs - Suc k"
proof -
  have split: "filter P xs = filter P (take j xs) @ filter P (drop j xs)" for P j
    by (metis append_take_drop_id filter_append)
  have "xs ! k \<le> x" if "x \<in> set (drop k xs)" for x
    using that assms by (auto simp: in_set_conv_nth intro!: sorted_nth_mono)
  then have "filter (\<lambda>x. xs ! k \<le> x) (drop k xs) = drop k xs" by (simp add: filter_id_conv)
  then show "length xs - k \<le> length (filter (\<lambda>x. xs ! k \<le> x) xs)"
    by (subst split[of _ k]) simp
  assume "xs ! k < m"
  moreover have "x \<le> xs ! k" if "x \<in> set (take (Suc k) xs)" for x
    using that assms by (auto simp: in_set_conv_nth intro!: sorted_nth_mono)
  ultimately have "filter (\<lambda>x. m \<le> x) (take (Suc k) xs) = []"
    by (force simp: filter_empty_conv)
  then show "length (filter (\<lambda>x. m \<le> x) xs) \<le> length xs - Suc k"
    by (subst split[of _ "Suc k"]) (simp add: length_filter_le[THEN order_trans])
qed

text \<open>C15. The index a leader commits up to is matched by more than half of the peers, and it is the
  largest such index.\<close>

theorem majority_index:
  assumes "length (matchIndex rf) = peers rf" "0 < peers rf"
  shows "\<exists>m. getMajorityIndexLocked rf = Some m \<and>
    peers rf < 2 * card {p. p < peers rf \<and> m \<le> matchIndex rf ! p} \<and>
    (\<forall>m'. peers rf < 2 * card {p. p < peers rf \<and> m' \<le> matchIndex rf ! p} \<longrightarrow> m' \<le> m)"
proof -
  let ?n = "peers rf" and ?k = "(peers rf - 1) div 2" and ?s = "sort (matchIndex rf)"
  have k: "?k < length ?s" using assms by simp
  have "(int ?n - 1) div 2 = int ?k" using assms by (simp add: zdiv_int of_nat_diff)
  with k have eq: "getMajorityIndexLocked rf = Some (?s ! ?k)"
    using assms by (simp add: getMajorityIndexLocked_def Let_def go_nth_def)
  have count: "card {p. p < ?n \<and> m \<le> matchIndex rf ! p} = length (filter (\<lambda>x. m \<le> x) ?s)" for m
    using assms by (simp add: length_filter_conv_card filter_sort)
  have "m' \<le> ?s ! ?k" if "?n < 2 * card {p. p < ?n \<and> m' \<le> matchIndex rf ! p}" for m'
  proof (rule ccontr)
    assume "\<not> m' \<le> ?s ! ?k"
    then show False using sorted_count_ge(2)[OF sorted_sort k, of m'] that assms unfolding count by simp
  qed
  moreover have "?n < 2 * card {p. p < ?n \<and> ?s ! ?k \<le> matchIndex rf ! p}"
    using sorted_count_ge(1)[OF sorted_sort k] assms unfolding count by simp
  ultimately show ?thesis using eq by blast
qed

theorem majority_index_witness:
  "\<exists>m. getMajorityIndexLocked (demo_follower\<lparr>matchIndex := [5, 9, 7]\<rparr>) = Some m \<and> m = 7"
proof -
  let ?rf = "demo_follower\<lparr>matchIndex := [5, 9, 7]\<rparr>"
  have "getMajorityIndexLocked ?rf = Some 7" "length (matchIndex ?rf) = peers ?rf" "0 < peers ?rf"
    by code_simp+
  then show ?thesis using majority_index[of ?rf] by auto
qed

text \<open>C26. A conflict never moves \<open>nextIndex\<close> forward: after a rejected \<open>AppendEntries\<close> the leader probes
  an index no larger than before, however late the reply arrives, and leaves the entries for the
  other peers alone.\<close>

theorem conflict_moves_back:
  assumes "replicateToPeer cd rf t peer args True reply = Some rf'"
    and "aer_Term reply \<le> currentTerm rf" "\<not> contextLostLocked rf Leader t" "\<not> aer_Success reply"
  shows "\<exists>p q. go_nth (nextIndex rf) (int peer) = Some p \<and> go_nth (nextIndex rf') (int peer) = Some q \<and> q \<le> p \<and>
    (\<forall>k. k \<noteq> int peer \<longrightarrow> go_nth (nextIndex rf') k = go_nth (nextIndex rf) k) \<and>
    rf' = rf\<lparr>nextIndex := nextIndex rf'\<rparr>"
proof -
  from assms obtain p ni where p: "go_nth (nextIndex rf) (int peer) = Some p"
      "go_set (nextIndex rf) (int peer) (probe_next rf reply p) = Some ni" "rf' = rf\<lparr>nextIndex := ni\<rparr>"
    by (auto simp: replicateToPeer_def Let_def bind_eq_Some_conv)
  have "probe_next rf reply p \<le> p" by (simp add: probe_next_def Let_def)
  then show ?thesis using p(1,3) go_set_nth[OF p(2)] by simp
qed

section \<open>Election timer\<close>

text \<open>The election timeout drawn on a reset is at least 250 ms and less than 400 ms, whatever the
  random source gives, and a peer is not timed out before that.\<close>

lemma election_timeout_bounds:
  "250000000 \<le> electionTimeout (resetElectionTimerLocked e rf) \<and>
   electionTimeout (resetElectionTimerLocked e rf) < 400000000 \<and>
   (isElectionTimeoutLocked e' (resetElectionTimerLocked e rf) \<longrightarrow> now e' - now e > 250000000)"
proof -
  have "0 \<le> rand e mod 150000000" "rand e mod 150000000 < 150000000" by simp_all
  then show ?thesis
    by (auto simp: resetElectionTimerLocked_def isElectionTimeoutLocked_def Let_def electionTimeoutMin_def
        electionTimeoutMax_def)
qed

section \<open>Messages to the service\<close>

lemma those_map_Some:
  "\<forall>x \<in> set xs. f x \<noteq> None \<Longrightarrow> those (map f xs) = Some (map (the \<circ> f) xs)"
  by (induction xs) auto

lemma application_collect_eq:
  assumes "wf_log (rf_log rf)" "\<not> snapPending rf"
  shows "application_collect rf =
    (let a = max (lastApplied rf) (snapLastIdx (rf_log rf));
         es = map (the \<circ> log_at (rf_log rf)) [a + 1..min (commitIndex rf) (log_size (rf_log rf) - 1)]
     in Some (rf\<lparr>lastApplied := a, applier := ApSend False es\<rparr>))"
proof -
  let ?l = "rf_log rf" and ?a = "max (lastApplied rf) (snapLastIdx (rf_log rf))"
  let ?last = "min (commitIndex rf) (log_size ?l - 1)"
  have a: "(if lastApplied rf < snapLastIdx ?l then rf\<lparr>lastApplied := snapLastIdx ?l\<rparr> else rf) = rf\<lparr>lastApplied := ?a\<rparr>"
    by (simp add: max_def)
  have "\<forall>i \<in> set [?a + 1..?last]. log_at ?l i \<noteq> None"
    by (auto simp: log_at_eq)
  note those_map_Some[OF this]
  then show ?thesis
    using assms(2) unfolding application_collect_def a Let_def
    by (cases "log_size ?l \<le> commitIndex rf") (simp_all add: min_absorb1 min_absorb2)
qed

lemma map_zip_fst: "length xs = length ys \<Longrightarrow> map (\<lambda>x. f (fst x)) (zip xs ys) = map f xs"
  by (induction rule: list_induct2) auto

lemma upto_as_map: "map (\<lambda>i. a + int i) [0..<nat (z + 1 - a)] = [a..z]"
  by (rule nth_equalityI) auto

text \<open>C22. The application goroutine never panics, and what it sends are the committed entries in order:
  the messages carry consecutive indexes starting right after the last applied index (or the
  snapshot), each with the command of the log at that index, up to the commit index or the end of
  the log; afterwards \<open>lastApplied\<close> is the index of the last message.\<close>

theorem application_in_order:
  assumes "wf_log (rf_log rf)" "\<not> snapPending rf"
  shows "\<exists>rf1 es. application_collect rf = Some rf1 \<and> applier rf1 = ApSend False es \<and>
    (let a = max (lastApplied rf) (snapLastIdx (rf_log rf));
         z = min (commitIndex rf) (log_size (rf_log rf) - 1);
         ms = application_msgs rf1 False es
     in map am_CommandIndex ms = [a + 1..z] \<and>
        (\<forall>m \<in> set ms. \<exists>en. log_at (rf_log rf) (am_CommandIndex m) = Some en \<and>
           am_Command m = le_Command en \<and> am_CommandValid m = le_CommandValid en \<and> \<not> am_SnapshotValid m) \<and>
        lastApplied (application_finish rf1 False es) = max a z)"
proof -
  let ?l = "rf_log rf"
  define a where "a = max (lastApplied rf) (snapLastIdx ?l)"
  define z where "z = min (commitIndex rf) (log_size ?l - 1)"
  define es where "es = map (the \<circ> log_at ?l) [a + 1..z]"
  define rf1 where "rf1 = rf\<lparr>lastApplied := a, applier := ApSend False es\<rparr>"
  have len: "length es = nat (z - a)" by (simp add: es_def)
  have nth: "log_at ?l (a + 1 + int i) = Some (es ! i)" if "i < length es" for i
  proof -
    have "es ! i = the (log_at ?l (a + 1 + int i))" using that by (simp add: es_def)
    moreover have "snapLastIdx ?l \<le> a" "z < log_size ?l" by (simp_all add: a_def z_def)
    then have "log_at ?l (a + 1 + int i) \<noteq> None" using that len by (simp add: log_at_eq)
    ultimately show ?thesis by simp
  qed
  have "application_collect rf = Some rf1"
    using application_collect_eq[OF assms] by (simp add: Let_def a_def z_def es_def rf1_def)
  moreover have "map am_CommandIndex (application_msgs rf1 False es) = [a + 1..z]"
    using upto_as_map[of "a + 1" z] map_zip_fst[of "[0..<length es]" es "\<lambda>i. a + 1 + int i"]
    by (simp add: application_msgs_def rf1_def enumerate_eq_zip o_def case_prod_beta len)
  moreover have "\<forall>m \<in> set (application_msgs rf1 False es). \<exists>en. log_at ?l (am_CommandIndex m) = Some en \<and>
      am_Command m = le_Command en \<and> am_CommandValid m = le_CommandValid en \<and> \<not> am_SnapshotValid m"
    using nth by (auto simp: application_msgs_def rf1_def in_set_enumerate_eq)
  moreover have "lastApplied (application_finish rf1 False es) = max a z"
    by (simp add: application_finish_def rf1_def len)
  ultimately show ?thesis
    by (intro exI[of _ rf1] exI[of _ es]) (simp add: Let_def a_def[symmetric] z_def[symmetric], simp add: rf1_def)
qed

text \<open>A follower that has stored and committed two entries of the leader of term 2.\<close>

definition demo_committed :: "(nat, nat gob) raft" where
  "demo_committed = demo_follower\<lparr>currentTerm := 2, commitIndex := 2,
     rf_log := NewLog 0 0 [] [\<lparr>le_Term = 2, le_CommandValid = True, le_Command = Some 7\<rparr>,
                              \<lparr>le_Term = 2, le_CommandValid = True, le_Command = Some 8\<rparr>]\<rparr>"

theorem application_in_order_witness:
  "\<exists>rf1 es. application_collect demo_committed = Some rf1 \<and> applier rf1 = ApSend False es \<and>
     map am_CommandIndex (application_msgs rf1 False es) = [1, 2]"
proof -
  have "wf_log (rf_log demo_committed)" "\<not> snapPending demo_committed" "lastApplied demo_committed = 0"
    "commitIndex demo_committed = 2" "log_size (rf_log demo_committed) = 3" "snapLastIdx (rf_log demo_committed) = 0"
    by code_simp+
  moreover have "[1..2] = [1, 2 :: int]" by code_simp
  ultimately show ?thesis
    using application_in_order[of demo_committed] by (auto simp: Let_def)
qed

theorem conflict_moves_back_witness:
  "\<exists>q. map_option (\<lambda>rf'. go_nth (nextIndex rf') 2) (replicateToPeer cell_codec demo_leader 2 2 demo_append True
       \<lparr>aer_Term = 1, aer_Success = False, aer_ConfilictIndex = 9, aer_ConfilictTerm = 0\<rparr>) = Some (Some q) \<and> q \<le> 1"
proof -
  let ?r = "\<lparr>aer_Term = 1, aer_Success = False, aer_ConfilictIndex = 9, aer_ConfilictTerm = 0\<rparr>"
  have ev: "replicateToPeer cell_codec demo_leader 2 2 demo_append True ?r \<noteq> None" "currentTerm demo_leader = 2"
    "\<not> contextLostLocked demo_leader Leader 2" "go_nth (nextIndex demo_leader) 2 = Some 1"
    by code_simp+
  then obtain rf' where "replicateToPeer cell_codec demo_leader 2 2 demo_append True ?r = Some rf'" by blast
  with ev show ?thesis using conflict_moves_back[of cell_codec demo_leader 2 2 demo_append ?r rf'] by auto
qed

section \<open>Compaction\<close>

text \<open>C25. Compaction loses nothing but what the service has: \<open>Snapshot\<close> of an applied index keeps the
  size of the log and every entry behind the index, keeps the term at the index itself, and stores the
  bytes of the service for the prefix; the persister then holds the compacted log and the snapshot.\<close>

theorem Snapshot_keeps_tail:
  assumes "codec_ok cd" "wf_log (rf_log rf)" "snapLastIdx (rf_log rf) < index" "index \<le> commitIndex rf"
    and "index < log_size (rf_log rf)"
  shows "\<exists>rf'. raft_Snapshot cd rf index bytes = Some rf' \<and>
    log_size (rf_log rf') = log_size (rf_log rf) \<and> snapLastIdx (rf_log rf') = index \<and>
    (\<forall>i > index. log_at (rf_log rf') i = log_at (rf_log rf) i) \<and>
    map_option le_Term (log_at (rf_log rf') index) = map_option le_Term (log_at (rf_log rf) index) \<and>
    ReadSnapshot (persister rf') = bytes \<and> durable cd rf'"
proof -
  from doSnapshot_None_iff[OF assms(2), of index bytes] assms(5) obtain l where
    l: "doSnapshot (rf_log rf) index bytes = Some l" by auto
  with assms(3,4) have eq: "raft_Snapshot cd rf index bytes = Some (persistLocked cd (rf\<lparr>rf_log := l\<rparr>))"
    by (simp add: raft_Snapshot_def)
  show ?thesis
    using log_at_doSnapshot[OF l assms(3)] assms(1)
    by (simp add: eq persistLocked_durable) (simp add: persistLocked_def Save_def ReadSnapshot_def)
qed

theorem Snapshot_keeps_tail_witness:
  "\<exists>rf'. raft_Snapshot cell_codec demo_committed 1 [GInt 5] = Some rf' \<and>
     log_at (rf_log rf') 2 = log_at (rf_log demo_committed) 2 \<and> ReadSnapshot (persister rf') = [GInt 5]"
proof -
  have "wf_log (rf_log demo_committed)" "commitIndex demo_committed = 2" "log_size (rf_log demo_committed) = 3"
    "snapLastIdx (rf_log demo_committed) = 0" by code_simp+
  then show ?thesis using Snapshot_keeps_tail[OF cell_codec_ok, of demo_committed 1 "[GInt 5]"] by auto
qed

section \<open>A delayed request\<close>

text \<open>C27. \<open>AppendEntries\<close> cuts the log behind the entries of the request even when they are already
  there: a request that is accepted removes every entry above \<open>PrevLogIndex + len(Entries)\<close>. When a
  delayed request of the current leader does this to a committed entry, the next \<open>Snapshot\<close> of the
  service at that index panics.\<close>

theorem delayed_append_drops_committed:
  assumes "AppendEntries cd e rf args = Some (rf', reply)" "aer_Success reply" "snapLastIdx (rf_log rf) < index"
    and "aea_PrevLogIndex args + int (length (aea_Entries args)) < index" "index \<le> commitIndex rf"
  shows "log_at (rf_log rf') index = None \<and> raft_Snapshot cd rf' index bytes = None"
  using assms(1)
proof (cases rule: AppendEntries_cases)
  case (accepted pe l2 rf2)
  have l2: "rf_log rf' = l2" by (simp add: accepted(6,7))
  have "log_size l2 \<le> index" "snapLastIdx l2 < index"
    using appendFrom_size[OF accepted(5)] appendFrom_snap[OF accepted(5)] assms(3,4) by simp_all
  moreover have "commitIndex rf \<le> commitIndex rf'" by (simp add: accepted(6,7))
  ultimately show ?thesis
    using assms(5) by (simp add: l2 log_at_eq raft_Snapshot_def doSnapshot_def idx_def)
qed (use assms(2) in auto)

theorem delayed_append_drops_committed_witness:
  "log_at (rf_log demo_committed) 2 \<noteq> None \<and>
   (\<exists>rf' reply. AppendEntries cell_codec demo_env demo_committed demo_append = Some (rf', reply) \<and>
      log_at (rf_log rf') 2 = None \<and> raft_Snapshot cell_codec rf' 2 [] = None)"
proof -
  have ev: "map_option (aer_Success \<circ> snd) (AppendEntries cell_codec demo_env demo_committed demo_append) = Some True"
    "log_at (rf_log demo_committed) 2 \<noteq> None" "commitIndex demo_committed = 2" "snapLastIdx (rf_log demo_committed) = 0"
    "aea_PrevLogIndex demo_append + int (length (aea_Entries demo_append)) = 1"
    by code_simp+
  then obtain rf' reply where "AppendEntries cell_codec demo_env demo_committed demo_append = Some (rf', reply)"
    "aer_Success reply" by auto
  with ev show ?thesis
    using delayed_append_drops_committed[of cell_codec demo_env demo_committed demo_append rf' reply 2] by auto
qed

end
