(* ===== verification/KV_Properties.thy ===== *)
theory KV_Properties
  imports KV_Server Raft_Properties
begin

text \<open>
  Correctness of the key/value service: exactly-once execution of the writes of a log, agreement of
  replicas, snapshots, and progress of the apply loop.
\<close>

section \<open>Exactly once\<close>

definition kv_dup :: "'b KVServer \<Rightarrow> int \<Rightarrow> (int \<times> OpReply) option" where
  "kv_dup kv c = map_option (\<lambda>info. (lo_SeqId info, lo_Reply info)) (kv_duplicateTable kv c)"

interpretation kvd: dedup_static "\<lambda>sm oper. Some (applyToStateMachine sm oper)" "\<lambda>oper. op_OpType oper \<noteq> OpGet"
  op_ClientId op_SeqId kv_execute kv_stateMachine kv_dup
proof (unfold_locales, goal_cases)
  case (1 kv oper n r)
  then show ?case by (auto simp: kv_execute_def requestDuplicated_def kv_dup_def)
next
  case (2 kv oper x r)
  have "\<not> requestDuplicated (kv_duplicateTable kv) (op_ClientId oper) (op_SeqId oper)"
    using 2(2) by (fastforce simp: requestDuplicated_def kv_dup_def split: option.splits)
  with 2(1,3) show ?case by (auto simp: kv_execute_def kv_dup_def fun_eq_iff)
next
  case (3 kv oper x r)
  then show ?case by (auto simp: kv_execute_def kv_dup_def fun_eq_iff)
next
  case (4 kv oper)
  then show ?case by simp
qed

abbreviation kv_effective :: "(int \<Rightarrow> int option) \<Rightarrow> Op list \<Rightarrow> Op list" where
  "kv_effective \<equiv> effective (\<lambda>oper. op_OpType oper \<noteq> OpGet) op_ClientId op_SeqId"

primrec kv_run :: "'b KVServer \<Rightarrow> Op list \<Rightarrow> ('b KVServer \<times> OpReply list) option" where
  "kv_run kv [] = Some (kv, [])"
| "kv_run kv (oper # opers) =
     do { (kv1, r) \<leftarrow> kv_execute kv oper; (kv2, rs) \<leftarrow> kv_run kv1 opers; Some (kv2, r # rs) }"

lemma kv_run_eq: "kv_run kv opers = kvd.run kv opers"
  by (induction opers arbitrary: kv) simp_all

lemma steps_total: "steps (\<lambda>x p. Some (f x p)) x ps = Some (fold (\<lambda>p x. fst (f x p)) ps x)"
  by (induction ps arbitrary: x) (simp_all add: case_prod_beta)

lemma kv_run_total: "\<exists>kv' rs. kv_run kv opers = Some (kv', rs) \<and> length rs = length opers"
proof (induction opers arbitrary: kv)
  case Nil
  then show ?case by simp
next
  case (Cons oper opers)
  obtain kv1 r where "kv_execute kv oper = Some (kv1, r)"
    by (cases "kv_execute kv oper")
      (auto simp: kv_execute_def requestDuplicated_def case_prod_beta Let_def split: if_splits option.splits)
  moreover obtain kv2 rs where "kv_run kv1 opers = Some (kv2, rs)" "length rs = length opers" using Cons by blast
  ultimately show ?case by simp
qed

text \<open>C5. Exactly-once execution: whatever log of operations a server applies, with retried and
  duplicated writes, it never panics, and its state machine ends as if only the effective operations
  had been applied, in log order: every read, and every write the first time it appears. No write,
  identified by client and sequence number, is effective twice.\<close>

theorem kv_exactly_once:
  "\<exists>kv' rs. kv_run kv opers = Some (kv', rs) \<and> length rs = length opers \<and>
     kv_stateMachine kv' = fold (\<lambda>oper sm. fst (applyToStateMachine sm oper))
       (kv_effective (seen_of (kv_dup kv)) opers) (kv_stateMachine kv) \<and>
     distinct (map (\<lambda>w. (op_ClientId w, op_SeqId w))
       (filter (\<lambda>w. op_OpType w \<noteq> OpGet) (kv_effective (seen_of (kv_dup kv)) opers)))"
proof -
  obtain kv' rs where run: "kv_run kv opers = Some (kv', rs)" "length rs = length opers" using kv_run_total by blast
  from run(1) have "kvd.run kv opers = Some (kv', rs)" by (simp add: kv_run_eq)
  from kvd.run_effective[OF this] have "kv_stateMachine kv' = fold (\<lambda>oper sm. fst (applyToStateMachine sm oper))
       (kv_effective (seen_of (kv_dup kv)) opers) (kv_stateMachine kv)" by (simp add: steps_total)
  with run effective_distinct show ?thesis by blast
qed

text \<open>A retried write gets the reply of its first execution and leaves the state alone, also when it
  comes back as a new RPC: \<open>PutAppend\<close> then answers without touching the log.\<close>

lemma kv_retry_same_reply:
  assumes "kv_execute kv oper = Some (kv1, r)" "op_OpType oper \<noteq> OpGet"
    and "\<not> requestDuplicated (kv_duplicateTable kv) (op_ClientId oper) (op_SeqId oper)"
    and "kv_duplicateTable kv2 (op_ClientId oper) = kv_duplicateTable kv1 (op_ClientId oper)"
    and "pa_ClientId args = op_ClientId oper" "pa_SeqId args = op_SeqId oper"
  shows "kv_execute kv2 oper = Some (kv2, r) \<and> kv_PutAppend cd kv2 args = Some (kv2, Inl (or_Err r))"
proof -
  have "kv_duplicateTable kv1 (op_ClientId oper) = Some \<lparr>lo_SeqId = op_SeqId oper, lo_Reply = r\<rparr>"
    using assms(1-3) by (auto simp: kv_execute_def case_prod_beta Let_def)
  with assms(2,4-6) show ?thesis by (simp add: kv_execute_def kv_PutAppend_def requestDuplicated_def)
qed

text \<open>One write of client 7 with sequence number 0.\<close>

definition demo_put :: Op where
  "demo_put = \<lparr>op_Key = ''x'', op_Value = ''1'', op_OpType = OpAppend, op_ClientId = 7, op_SeqId = 0\<rparr>"

definition demo_put_args :: PutAppendArgs where
  "demo_put_args = \<lparr>pa_Key = ''x'', pa_Value = ''1'', pa_Op = ''Append'', pa_ClientId = 7, pa_SeqId = 0\<rparr>"

definition demo_kv :: "Op gob KVServer" where
  "demo_kv = \<lparr>kv_rf = Make cell_codec 3 0 MakePersister, kv_dead = False, kv_maxraftstate = -1, kv_lastApplied = 0,
     kv_stateMachine = NewMemoryKVStateMachine, kv_notifyChans = chans_empty, kv_duplicateTable = (\<lambda>_. None)\<rparr>"

section \<open>Replicas agree\<close>

definition kv_view :: "'b KVServer \<Rightarrow> int \<times> MemoryKVStateMachine \<times> dup_table" where
  "kv_view kv = (kv_lastApplied kv, kv_stateMachine kv, kv_duplicateTable kv)"

lemma kv_execute_frame:
  assumes "kv_execute kv oper = Some (kv', r)"
  shows "kv' = kv\<lparr>kv_stateMachine := kv_stateMachine kv', kv_duplicateTable := kv_duplicateTable kv'\<rparr>"
  using assms by (auto simp: kv_execute_def case_prod_beta Let_def bind_eq_Some_conv split: if_splits)

lemma kv_execute_view:
  assumes "kv_execute kv oper = Some (kv', r)" "kv_view k2 = kv_view kv"
  shows "\<exists>k2'. kv_execute k2 oper = Some (k2', r) \<and> kv_view k2' = kv_view kv'"
  using assms by (auto simp: kv_execute_def kv_view_def case_prod_beta Let_def bind_eq_Some_conv split: if_splits)

lemma kv_notify_view: "kv_notify kv i r = Some kv' \<Longrightarrow> kv_view kv' = kv_view kv"
  by (auto simp: kv_notify_def kv_view_def case_prod_beta Let_def bind_eq_Some_conv split: if_splits)

lemma kv_checkSnapshot_view: "kv_checkSnapshot cd sc kv i = Some kv' \<Longrightarrow> kv_view kv' = kv_view kv"
  by (auto simp: kv_checkSnapshot_def kv_makeSnapshot_def kv_view_def bind_eq_Some_conv split: if_splits)

lemma kv_applyTask_command_view:
  assumes "kv_applyTask cd sc kv m = Some kv'" "am_CommandValid m" "kv_lastApplied kv < am_CommandIndex m"
    "am_Command m = Some oper"
    "kv_execute (kv\<lparr>kv_lastApplied := am_CommandIndex m\<rparr>) oper = Some (kv1, r)"
  shows "kv_view kv' = kv_view kv1"
  using assms by (auto simp: kv_applyTask_def bind_eq_Some_conv dest!: kv_notify_view kv_checkSnapshot_view)

text \<open>C16. Replicas agree: two servers that have the same applied index, state machine and duplicate
  table, and that receive the same message, have the same again afterwards, whichever of them is the
  leader, whatever their Raft peers and waiting requests are and whether or not they take a snapshot.\<close>

theorem kv_replicas_agree:
  assumes "kv_view k1 = kv_view k2" "kv_applyTask cd sc k1 m = Some k1'" "kv_applyTask cd sc k2 m = Some k2'"
  shows "kv_view k1' = kv_view k2'"
proof -
  have la: "kv_lastApplied k1 = kv_lastApplied k2" using assms(1) by (simp add: kv_view_def)
  consider (old) "am_CommandValid m" "am_CommandIndex m \<le> kv_lastApplied k1"
    | (new) "am_CommandValid m" "kv_lastApplied k1 < am_CommandIndex m"
    | (snap) "\<not> am_CommandValid m" "am_SnapshotValid m" | (none) "\<not> am_CommandValid m" "\<not> am_SnapshotValid m"
    by linarith
  then show ?thesis
  proof cases
    case new
    let ?k1 = "k1\<lparr>kv_lastApplied := am_CommandIndex m\<rparr>" and ?k2 = "k2\<lparr>kv_lastApplied := am_CommandIndex m\<rparr>"
    from new assms(2) obtain oper x r where x: "am_Command m = Some oper" "kv_execute ?k1 oper = Some (x, r)"
      by (auto simp: kv_applyTask_def bind_eq_Some_conv)
    moreover have "kv_view ?k2 = kv_view ?k1" using assms(1) by (simp add: kv_view_def)
    ultimately obtain y where y: "kv_execute ?k2 oper = Some (y, r)" "kv_view y = kv_view x"
      using kv_execute_view by blast
    from kv_applyTask_command_view[OF assms(2) new x] kv_applyTask_command_view[OF assms(3) new(1) _ x(1) y(1)] new y(2) la
    show ?thesis by simp
  next
    case snap
    with assms show ?thesis
      by (auto simp: kv_applyTask_def kv_restoreFromSnapshot_def kv_view_def bind_eq_Some_conv split: if_splits)
  qed (use assms la in \<open>auto simp: kv_applyTask_def\<close>)
qed

definition demo_msg :: "(Op, Op gob) ApplyMsg" where
  "demo_msg = \<lparr>am_CommandValid = True, am_Command = Some demo_put, am_CommandIndex = 1, am_SnapshotValid = False,
     am_Snapshot = [], am_SnapshotTerm = 0, am_SnapshotIndex = 0\<rparr>"

text \<open>The same server as a leader with a waiting request.\<close>

definition demo_kv_leader :: "Op gob KVServer" where
  "demo_kv_leader = fst (kv_await (demo_kv\<lparr>kv_rf := (kv_rf demo_kv)\<lparr>role := Leader\<rparr>\<rparr>) 1)"

definition no_snap :: "(MemoryKVStateMachine \<times> dup_table, Op gob) snap_codec" where
  "no_snap = \<lparr>snap_enc = (\<lambda>_. []), snap_dec = (\<lambda>_. None)\<rparr>"

lemma demo_apply:
  "kv_applyTask cell_codec no_snap demo_kv demo_msg \<noteq> None"
  "kv_applyTask cell_codec no_snap demo_kv_leader demo_msg \<noteq> None"
  by (simp_all add: kv_applyTask_def demo_kv_def demo_msg_def demo_kv_leader_def kv_await_def kv_execute_def
      requestDuplicated_def demo_put_def applyToStateMachine_def mkv_Append_def kv_notify_def GetState_def
      kv_checkSnapshot_def getNotifyChannel_def chans_empty_def chan_send_def)

theorem kv_replicas_agree_witness:
  "\<exists>k1 k2. kv_applyTask cell_codec no_snap demo_kv demo_msg = Some k1 \<and>
     kv_applyTask cell_codec no_snap demo_kv_leader demo_msg = Some k2 \<and> kv_view k1 = kv_view k2"
proof -
  obtain k1 k2 where k: "kv_applyTask cell_codec no_snap demo_kv demo_msg = Some k1"
      "kv_applyTask cell_codec no_snap demo_kv_leader demo_msg = Some k2" using demo_apply by blast
  have "kv_view demo_kv = kv_view demo_kv_leader"
    by (simp add: kv_view_def demo_kv_leader_def kv_await_def case_prod_beta Let_def)
  from kv_replicas_agree[OF this k] k show ?thesis by blast
qed

section \<open>Snapshots\<close>


section \<open>Progress of the apply loop\<close>

lemma chans_ok_steps:
  assumes "chans_ok (kv_lastApplied kv) (kv_notifyChans kv)"
  shows "chans_ok (kv_lastApplied kv) (kv_notifyChans (fst (kv_await kv index)))"
    and "kv_result kv a = Some (kv', r) \<Longrightarrow> chans_ok (kv_lastApplied kv') (kv_notifyChans kv')"
    and "chans_ok (kv_lastApplied kv) (kv_notifyChans (kv_forget kv index))"
  using assms chans_ok_get(1)[OF assms prod.collapse[symmetric]]
  by (auto simp: kv_await_def kv_result_def kv_forget_def case_prod_beta Let_def bind_eq_Some_conv
      intro: chans_ok_remove chans_ok_recv)


section \<open>Concrete servers\<close>

text \<open>One cell per gob value, for the Raft state and for snapshots in the same buffer type.\<close>

definition sum_codec :: "('c, 'c gob + 's) codec" where
  "sum_codec = \<lparr>enc = (\<lambda>v. [Inl v]), dec = (\<lambda>d. case d of Inl v # r \<Rightarrow> Some (v, r) | _ \<Rightarrow> None)\<rparr>"

definition sum_snap :: "('s, 'c gob + 's) snap_codec" where
  "sum_snap = \<lparr>snap_enc = (\<lambda>v. [Inr v]), snap_dec = (\<lambda>d. case d of [Inr v] \<Rightarrow> Some v | _ \<Rightarrow> None)\<rparr>"

lemma sum_codecs_ok [simp]: "codec_ok sum_codec" "snap_ok sum_snap"
  by (simp_all add: codec_ok_def sum_codec_def snap_ok_def sum_snap_def)

definition demo_kv_log :: "(Op gob + MemoryKVStateMachine \<times> dup_table) KVServer" where
  "demo_kv_log = \<lparr>kv_rf = (Make sum_codec 3 0 MakePersister)\<lparr>commitIndex := 1, rf_log := NewLog 0 0 [] [\<lparr>le_Term = 1,
       le_CommandValid = True, le_Command = Some demo_put\<rparr>]\<rparr>,
     kv_dead = False, kv_maxraftstate = -1, kv_lastApplied = 1, kv_stateMachine = \<lparr>KV = [''x'' \<mapsto> ''1'']\<rparr>,
     kv_notifyChans = chans_empty, kv_duplicateTable = (\<lambda>_. None)\<rparr>"



end
