(* ===== verification/Ctrler_State_Machine.thy ===== *)
theory Ctrler_State_Machine
  imports Service_Common
begin

text \<open>
  The state machine of the shard controller, \<open>shardctrler/state_machine.go\<close> with the types of
  \<open>shardctrler/common.go\<close>: the list of configurations and \<open>Query\<close>, \<open>Join\<close>, \<open>Leave\<close>, \<open>Move\<close>.

  \<open>Groups\<close> and the local map \<open>gidToShards\<close> are Go maps, so association lists whose order is the
  iteration order. The rebalancing loop of \<open>Join\<close> is a recursive function with a termination proof;
  an index panic is \<^const>\<open>None\<close>. A group identifier is an \<^typ>\<open>int\<close>, 0 is the invalid group.
\<close>

section \<open>Data\<close>

definition NShards :: nat where "NShards = 10"

record Config =
  cfg_Num :: int
  cfg_Shards :: "int list"
  cfg_Groups :: "(int, string list) gomap"

definition DefaultConfig :: Config where
  "DefaultConfig = \<lparr>cfg_Num = 0, cfg_Shards = replicate NShards 0, cfg_Groups = []\<rparr>"

record CtrlerStateMachine =
  Configs :: "Config list"

definition NewCtrlerStateMachine :: CtrlerStateMachine where
  "NewCtrlerStateMachine = \<lparr>Configs = [DefaultConfig]\<rparr>"

type_synonym gid_shards = "(int, int list) gomap"

section \<open>Helpers\<close>

definition copyGroups :: "(int, string list) gomap \<Rightarrow> (int, string list) gomap" where
  "copyGroups groups = fold (\<lambda>(gid, servers) newGroup. AList.update gid servers newGroup) groups []"

fun maxShards_loop :: "gid_shards \<Rightarrow> int list \<Rightarrow> int \<Rightarrow> int \<Rightarrow> int" where
  "maxShards_loop m [] maxGid maxShards = maxGid"
| "maxShards_loop m (gid # gids) maxGid maxShards =
     (if int (length (mget [] m gid)) > maxShards
      then maxShards_loop m gids gid (int (length (mget [] m gid)))
      else maxShards_loop m gids maxGid maxShards)"

definition gidWithMaxShards :: "gid_shards \<Rightarrow> int" where
  "gidWithMaxShards m =
     (case map_of m 0 of
        Some shard \<Rightarrow> if 0 < length shard then 0 else maxShards_loop m (sort (map fst m)) (-1) (-1)
      | None \<Rightarrow> maxShards_loop m (sort (map fst m)) (-1) (-1))"

fun minShards_loop :: "gid_shards \<Rightarrow> int list \<Rightarrow> int \<Rightarrow> int \<Rightarrow> int" where
  "minShards_loop m [] minGid minShards = minGid"
| "minShards_loop m (gid # gids) minGid minShards =
     (if gid \<noteq> 0 \<and> int (length (mget [] m gid)) < minShards
      then minShards_loop m gids gid (int (length (mget [] m gid)))
      else minShards_loop m gids minGid minShards)"

definition gidWithMinShards :: "gid_shards \<Rightarrow> int" where
  "gidWithMinShards m = minShards_loop m (sort (map fst m)) (-1) (int NShards + 1)"

text \<open>\<open>gidToShards\<close>: an empty list per group, then every shard appended to the list of its gid.\<close>

fun gidToShards_loop :: "int \<Rightarrow> int list \<Rightarrow> gid_shards \<Rightarrow> gid_shards" where
  "gidToShards_loop shard [] m = m"
| "gidToShards_loop shard (gid # gids) m =
     gidToShards_loop (shard + 1) gids (AList.update gid (mget [] m gid @ [shard]) m)"

definition gidToShards :: "Config \<Rightarrow> gid_shards" where
  "gidToShards cfg = gidToShards_loop 0 (cfg_Shards cfg)
     (fold (\<lambda>(gid, _) m. AList.update gid [] m) (cfg_Groups cfg) [])"

text \<open>Storing the lists back into \<open>[NShards]int\<close>.\<close>

fun store_gid :: "int \<Rightarrow> int list \<Rightarrow> int list \<Rightarrow> int list option" where
  "store_gid gid [] newShards = Some newShards"
| "store_gid gid (shard # shards) newShards = do { a \<leftarrow> go_set newShards shard gid; store_gid gid shards a }"

fun store_shards :: "gid_shards \<Rightarrow> int list \<Rightarrow> int list option" where
  "store_shards [] newShards = Some newShards"
| "store_shards ((gid, shards) # m) newShards = do { a \<leftarrow> store_gid gid shards newShards; store_shards m a }"

section \<open>The rebalancing loop\<close>

lemma minShards_loop_neq_0: "minGid \<noteq> 0 \<Longrightarrow> minShards_loop m gids minGid minShards \<noteq> 0"
  by (induction gids arbitrary: minGid minShards) auto

lemma gidWithMinShards_neq_0 [simp]: "gidWithMinShards m \<noteq> 0"
  by (simp add: gidWithMinShards_def minShards_loop_neq_0)

definition sum_squares :: "gid_shards \<Rightarrow> nat" where
  "sum_squares m = (\<Sum>g \<in> fst ` set m. (length (mget [] m g))\<^sup>2)"

lemma sum_squares_super:
  assumes "finite A" "fst ` set m \<subseteq> A"
  shows "sum_squares m = (\<Sum>g \<in> A. (length (mget [] m g))\<^sup>2)"
  unfolding sum_squares_def
  by (rule sum.mono_neutral_left) (use assms in \<open>auto simp: mget_outside\<close>)

lemma square_move: "b + 2 \<le> a \<Longrightarrow> (a - 1)\<^sup>2 + (b + 1)\<^sup>2 < a\<^sup>2 + (b::nat)\<^sup>2"
proof -
  assume "b + 2 \<le> a"
  from le_Suc_ex[OF this] obtain d where "a = b + 2 + d" ..
  then show ?thesis by (simp add: power2_eq_square algebra_simps)
qed

lemma sum_squares_move:
  assumes "g \<noteq> h" "length (mget [] m h) + 2 \<le> length (mget [] m g)"
    and "length xs = length (mget [] m h) + 1" "length ys = length (mget [] m g) - 1"
  shows "sum_squares (AList.update g ys (AList.update h xs m)) < sum_squares m"
proof -
  let ?A = "insert g (insert h (fst ` set m))" and ?m' = "AList.update g ys (AList.update h xs m)"
  let ?R = "?A - {g, h}"
  have A: "(\<Sum>x \<in> ?A. f x) = f g + f h + (\<Sum>x \<in> ?R. f x)" for f :: "int \<Rightarrow> nat"
  proof -
    have "?A = insert g (insert h ?R)" by blast
    then have "sum f ?A = sum f (insert g (insert h ?R))" by (rule arg_cong)
    also have "\<dots> = f g + f h + sum f ?R" using assms(1) by simp
    finally show ?thesis .
  qed
  have "sum_squares ?m' = (\<Sum>x \<in> ?A. (length (mget [] ?m' x))\<^sup>2)"
    by (rule sum_squares_super) auto
  also have "\<dots> = (length ys)\<^sup>2 + (length xs)\<^sup>2 + (\<Sum>x \<in> ?R. (length (mget [] m x))\<^sup>2)"
    using assms(1) unfolding A by (auto intro!: sum.cong)
  also have "\<dots> < (length (mget [] m g))\<^sup>2 + (length (mget [] m h))\<^sup>2 + (\<Sum>x \<in> ?R. (length (mget [] m x))\<^sup>2)"
    using square_move[OF assms(2)] assms(3,4) by simp
  also have "\<dots> = (\<Sum>x \<in> ?A. (length (mget [] m x))\<^sup>2)" unfolding A ..
  also have "\<dots> = sum_squares m" by (rule sum_squares_super[symmetric]) auto
  finally show ?thesis .
qed

function rebalance :: "gid_shards \<Rightarrow> gid_shards option" where
  "rebalance m =
     (let maxGid = gidWithMaxShards m; minGid = gidWithMinShards m in
      if maxGid \<noteq> 0 \<and> int (length (mget [] m maxGid)) - int (length (mget [] m minGid)) \<le> 1 then Some m
      else
        case go_nth (mget [] m maxGid) 0 of None \<Rightarrow> None | Some shard \<Rightarrow>
        let m1 = AList.update minGid (mget [] m minGid @ [shard]) m in
        case go_from (mget [] m1 maxGid) 1 of None \<Rightarrow> None | Some rest \<Rightarrow>
        rebalance (AList.update maxGid rest m1))"
  by pat_completeness auto

text \<open>The loop of \<open>Join\<close> ends: a round takes a shard from group 0, or it leaves group 0 alone and
  makes the sum of the squares of the list lengths smaller.\<close>

termination rebalance
proof (relation "measures [\<lambda>m. length (mget [] m 0), sum_squares]", simp)
  fix m maxGid minGid shard m1 rest
  assume d: "maxGid = gidWithMaxShards m" "minGid = gidWithMinShards m"
    "m1 = AList.update minGid (mget [] m minGid @ [shard]) m"
    and go: "\<not> (maxGid \<noteq> 0 \<and> int (length (mget [] m maxGid)) - int (length (mget [] m minGid)) \<le> 1)"
    and first: "go_nth (mget [] m maxGid) 0 = Some shard" and rest: "go_from (mget [] m1 maxGid) 1 = Some rest"
  have "minGid \<noteq> 0" by (simp add: d)
  show "(AList.update maxGid rest m1, m) \<in> measures [\<lambda>m. length (mget [] m 0), sum_squares]"
  proof (cases "maxGid = 0")
    case True
    with \<open>minGid \<noteq> 0\<close> first rest show ?thesis by (auto simp: d(3) go_from_def go_nth_def split: if_splits)
  next
    case False
    with go have gap: "length (mget [] m minGid) + 2 \<le> length (mget [] m maxGid)" by linarith
    then have neq: "maxGid \<noteq> minGid" by auto
    have "length rest = length (mget [] m maxGid) - 1"
      using rest neq by (auto simp: d(3) go_from_def split: if_splits)
    with gap neq have "sum_squares (AList.update maxGid rest m1) < sum_squares m"
      unfolding d(3) by (intro sum_squares_move) auto
    with False \<open>minGid \<noteq> 0\<close> show ?thesis by (simp add: d(3))
  qed
qed

declare rebalance.simps [simp del]

section \<open>Operations\<close>

definition csm_Query :: "CtrlerStateMachine \<Rightarrow> int \<Rightarrow> (Config \<times> Err) option" where
  "csm_Query csm num =
     (if num < 0 \<or> num \<ge> int (length (Configs csm))
      then do { c \<leftarrow> go_nth (Configs csm) (int (length (Configs csm)) - 1); Some (c, OK) }
      else do { c \<leftarrow> go_nth (Configs csm) num; Some (c, OK) })"

text \<open>The new configuration every mutation starts from.\<close>

definition next_config :: "CtrlerStateMachine \<Rightarrow> Config option" where
  "next_config csm =
     (let num = int (length (Configs csm)) in
      do { lastConfig \<leftarrow> go_nth (Configs csm) (num - 1);
           Some \<lparr>cfg_Num = num, cfg_Shards = cfg_Shards lastConfig, cfg_Groups = copyGroups (cfg_Groups lastConfig)\<rparr> })"

definition join_groups :: "(int, string list) gomap \<Rightarrow> (int, string list) gomap \<Rightarrow> (int, string list) gomap" where
  "join_groups groups newGroups =
     fold (\<lambda>(gid, servers) gs. case map_of gs gid of None \<Rightarrow> AList.update gid servers gs | Some _ \<Rightarrow> gs) groups newGroups"

definition csm_Join :: "CtrlerStateMachine \<Rightarrow> (int, string list) gomap \<Rightarrow> (CtrlerStateMachine \<times> Err) option" where
  "csm_Join csm groups =
     do { newConfig \<leftarrow> next_config csm;
          (let newConfig1 = newConfig\<lparr>cfg_Groups := join_groups groups (cfg_Groups newConfig)\<rparr> in
           do { m \<leftarrow> rebalance (gidToShards newConfig1);
                newShards \<leftarrow> store_shards m (replicate NShards 0);
                Some (csm\<lparr>Configs := Configs csm @ [newConfig1\<lparr>cfg_Shards := newShards\<rparr>]\<rparr>, OK) }) }"

text \<open>The first loop of \<open>Leave\<close>: groups, lists and unassigned shards.\<close>

fun leave_loop ::
    "int list \<Rightarrow> (int, string list) gomap \<Rightarrow> gid_shards \<Rightarrow> int list
      \<Rightarrow> (int, string list) gomap \<times> gid_shards \<times> int list" where
  "leave_loop [] groups m unassigned = (groups, m, unassigned)"
| "leave_loop (gid # gids) groups m unassigned =
     (let groups' = AList.delete gid groups in
      case map_of m gid of
        None \<Rightarrow> leave_loop gids groups' m unassigned
      | Some shards \<Rightarrow> leave_loop gids groups' (AList.delete gid m) (unassigned @ shards))"

text \<open>The second loop: every unassigned shard to the group with the fewest shards.\<close>

fun reassign_loop :: "int list \<Rightarrow> gid_shards \<Rightarrow> gid_shards" where
  "reassign_loop [] m = m"
| "reassign_loop (shard # unassigned) m =
     (let minGid = gidWithMinShards m
      in reassign_loop unassigned (AList.update minGid (mget [] m minGid @ [shard]) m))"

definition csm_Leave :: "CtrlerStateMachine \<Rightarrow> int list \<Rightarrow> (CtrlerStateMachine \<times> Err) option" where
  "csm_Leave csm gids =
     do { newConfig \<leftarrow> next_config csm;
          (let (groups, m, unassigned) = leave_loop gids (cfg_Groups newConfig) (gidToShards newConfig) [] in
           do { newShards \<leftarrow>
                  (if length groups \<noteq> 0 then store_shards (reassign_loop unassigned m) (replicate NShards 0)
                   else Some (replicate NShards 0));
                Some (csm\<lparr>Configs := Configs csm @ [newConfig\<lparr>cfg_Groups := groups, cfg_Shards := newShards\<rparr>]\<rparr>, OK) }) }"

definition csm_Move :: "CtrlerStateMachine \<Rightarrow> int \<Rightarrow> int \<Rightarrow> (CtrlerStateMachine \<times> Err) option" where
  "csm_Move csm shardid gid =
     do { newConfig \<leftarrow> next_config csm;
          newShards \<leftarrow> go_set (cfg_Shards newConfig) shardid gid;
          Some (csm\<lparr>Configs := Configs csm @ [newConfig\<lparr>cfg_Shards := newShards\<rparr>]\<rparr>, OK) }"

section \<open>The two selection loops\<close>

abbreviation nshards :: "gid_shards \<Rightarrow> int \<Rightarrow> nat" where
  "nshards m g \<equiv> length (mget [] m g)"

lemma maxShards_loop_spec:
  "let r = maxShards_loop m gids a s in
     (r = a \<and> (\<forall>g \<in> set gids. int (nshards m g) \<le> s)) \<or>
     (r \<in> set gids \<and> s < int (nshards m r) \<and> (\<forall>g \<in> set gids. nshards m g \<le> nshards m r))"
proof (induction gids arbitrary: a s)
  case Nil
  then show ?case by simp
next
  case (Cons g gids)
  show ?case
    using Cons[of g "int (nshards m g)"] Cons[of a s] by (auto simp: Let_def)
qed

lemma minShards_loop_spec:
  "let r = minShards_loop m gids a s in
     (r = a \<and> (\<forall>g \<in> set gids. g \<noteq> 0 \<longrightarrow> s \<le> int (nshards m g))) \<or>
     (r \<in> set gids \<and> r \<noteq> 0 \<and> int (nshards m r) < s \<and> (\<forall>g \<in> set gids. g \<noteq> 0 \<longrightarrow> nshards m r \<le> nshards m g))"
proof (induction gids arbitrary: a s)
  case Nil
  then show ?case by simp
next
  case (Cons g gids)
  show ?case
    using Cons[of g "int (nshards m g)"] Cons[of a s] by (auto simp: Let_def)
qed

lemma gidWithMax_spec:
  assumes "m \<noteq> []" "nshards m 0 = 0"
  shows "gidWithMaxShards m \<in> fst ` set m \<and> (\<forall>g. nshards m g \<le> nshards m (gidWithMaxShards m))"
proof -
  have eq: "gidWithMaxShards m = maxShards_loop m (sort (map fst m)) (-1) (-1)"
    using assms(2) by (auto simp: gidWithMaxShards_def mget_def split: option.split)
  obtain g0 where "g0 \<in> fst ` set m" using assms(1) by (cases m) auto
  with maxShards_loop_spec[of m "sort (map fst m)" "-1" "-1"] have
    "gidWithMaxShards m \<in> fst ` set m \<and> (\<forall>g \<in> fst ` set m. nshards m g \<le> nshards m (gidWithMaxShards m))"
    unfolding eq by (auto simp: Let_def)
  then show ?thesis by (metis mget_outside le0 list.size(3))
qed

lemma gidWithMax_0: "nshards m 0 \<noteq> 0 \<Longrightarrow> gidWithMaxShards m = 0"
  by (auto simp: gidWithMaxShards_def mget_def split: option.splits)

lemma gidWithMin_spec:
  assumes "g \<in> fst ` set m" "g \<noteq> 0" "nshards m g \<le> NShards"
  shows "gidWithMinShards m \<in> fst ` set m \<and>
    (\<forall>h \<in> fst ` set m. h \<noteq> 0 \<longrightarrow> nshards m (gidWithMinShards m) \<le> nshards m h)"
  using minShards_loop_spec[of m "sort (map fst m)" "-1" "int NShards + 1"] assms
  by (auto simp: gidWithMinShards_def Let_def)

end
