(* ===== verification/Ctrler_Balance.thy ===== *)
theory Ctrler_Balance
  imports Ctrler_State_Machine
begin

text \<open>
  Correctness of the shard controller's state machine: the shards stay partitioned among the
  groups, \<open>Join\<close> and \<open>Leave\<close> balance them, configurations are only appended, and the result does
  not depend on the order in which Go iterates its maps.
\<close>

section \<open>Partitions of the shards\<close>

definition shards_of :: "gid_shards \<Rightarrow> int multiset" where
  "shards_of m = mset (concat (map snd m))"

definition all_shards :: "int multiset" where
  "all_shards = mset (map int [0..<NShards])"

definition partition_ok :: "gid_shards \<Rightarrow> bool" where
  "partition_ok m \<longleftrightarrow> gomap_ok m \<and> shards_of m = all_shards"

lemma shards_of_update:
  assumes "gomap_ok m"
  shows "shards_of (AList.update k v m) + mset (mget [] m k) = shards_of m + mset v"
  using assms
proof (induction m)
  case Nil
  then show ?case by (simp add: shards_of_def mget_def)
next
  case (Cons x m)
  obtain k' v' where x: "x = (k', v')" by (cases x)
  show ?case
    using Cons unfolding x by (auto simp: shards_of_def mget_Cons gomap_ok_Cons mget_outside add.assoc)
qed

lemma shards_of_delete:
  assumes "gomap_ok m"
  shows "shards_of (AList.delete k m) + mset (mget [] m k) = shards_of m"
  using assms
proof (induction m)
  case Nil
  then show ?case by (simp add: shards_of_def mget_def)
next
  case (Cons x m)
  obtain k' v where x: "x = (k', v)" by (cases x)
  have del: "AList.delete k m = m" if "k \<notin> fst ` set m" using that by (simp add: delete_id)
  show ?case
    using Cons del unfolding x by (auto simp: shards_of_def mget_Cons gomap_ok_Cons mget_outside add.assoc)
qed

lemma mget_le_shards_of: "mset (mget [] m g) \<subseteq># shards_of m"
  by (induction m) (auto simp: shards_of_def mget_def intro: subset_mset.trans[OF _ mset_subset_eq_add_right])

lemma size_all_shards [simp]: "size all_shards = NShards"
  by (simp add: all_shards_def)

lemma partition_nshards: "partition_ok m \<Longrightarrow> nshards m g \<le> NShards"
  using size_mset_mono[OF mget_le_shards_of[of m g]] by (simp add: partition_ok_def)

lemma partition_append:
  assumes "gomap_ok m"
  shows "shards_of (AList.update g (mget [] m g @ [s]) m) = shards_of m + {#s#}"
  using shards_of_update[OF assms, of g "mget [] m g @ [s]"] by (simp add: add.commute add.left_commute)

lemma partition_some_shard: "partition_ok m \<Longrightarrow> \<exists>g. nshards m g \<noteq> 0"
proof -
  assume "partition_ok m"
  then have "size (shards_of m) = NShards" by (simp add: partition_ok_def)
  then have "shards_of m \<noteq> {#}" by (auto simp: NShards_def)
  then have "concat (map snd m) \<noteq> []" by (simp add: shards_of_def)
  then obtain g ss where "(g, ss) \<in> set m" "ss \<noteq> []" by auto
  with \<open>partition_ok m\<close> have "mget [] m g = ss" by (auto simp: partition_ok_def intro: mget_in)
  with \<open>ss \<noteq> []\<close> show ?thesis by auto
qed

section \<open>Building and storing the lists\<close>

lemma fold_init_keys:
  "fst ` set (fold (\<lambda>(gid, _) m. AList.update gid [] m) gs m0) = fst ` set gs \<union> fst ` set m0"
  by (induction gs arbitrary: m0) (simp_all add: case_prod_beta)

lemma fold_init_shards:
  "\<forall>g. mget [] m0 g = [] \<Longrightarrow> gomap_ok m0 \<Longrightarrow>
     let m = fold (\<lambda>(gid, _) m. AList.update gid [] m) gs m0 in gomap_ok m \<and> (\<forall>g. mget [] m g = [])"
  by (induction gs arbitrary: m0) (auto simp: Let_def)

lemma shards_of_empty: "gomap_ok m \<Longrightarrow> \<forall>g. mget [] m g = [] \<Longrightarrow> shards_of m = {#}"
proof (induction m)
  case Nil
  then show ?case by (simp add: shards_of_def)
next
  case (Cons x m)
  obtain k v where x: "x = (k, v)" by (cases x)
  have "mget [] m g = []" for g
    using Cons.prems by (cases "g = k") (auto simp: x mget_Cons gomap_ok_Cons mget_outside dest: spec[of _ g])
  moreover have "v = []" using Cons.prems(2) by (auto simp: x mget_Cons dest: spec[of _ k])
  ultimately show ?case using Cons by (simp add: x gomap_ok_Cons shards_of_def)
qed

lemma gidToShards_loop_spec:
  assumes "gomap_ok m"
  shows "gomap_ok (gidToShards_loop s gs m) \<and>
    shards_of (gidToShards_loop s gs m) = shards_of m + mset (map (\<lambda>i. s + int i) [0..<length gs]) \<and>
    fst ` set (gidToShards_loop s gs m) = fst ` set m \<union> set gs \<and>
    (\<forall>g. mget [] (gidToShards_loop s gs m) g =
       mget [] m g @ map (\<lambda>i. s + int i) (filter (\<lambda>i. gs ! i = g) [0..<length gs]))"
  using assms
proof (induction gs arbitrary: s m)
  case Nil
  then show ?case by simp
next
  case (Cons g gs)
  let ?m = "AList.update g (mget [] m g @ [s]) m"
  have up: "[0..<length (g # gs)] = 0 # map Suc [0..<length gs]"
    by (simp add: upt_conv_Cons map_Suc_upt del: upt_Suc)
  have sh: "map (\<lambda>i. s + int i) (map Suc xs) = map (\<lambda>i. s + 1 + int i) xs" for xs by simp
  have fl: "filter (\<lambda>i. (g # gs) ! i = h) (map Suc xs) = map Suc (filter (\<lambda>i. gs ! i = h) xs)" for h xs
    by (simp add: filter_map o_def)
  have "gomap_ok ?m" using Cons.prems by simp
  note IH = Cons.IH[OF this, of "s + 1"]
  show ?case
    unfolding up gidToShards_loop.simps using IH partition_append[OF Cons.prems, of g s]
    by (auto simp: sh fl dom_update simp del: map_map)
qed

definition config_ok :: "Config \<Rightarrow> bool" where
  "config_ok cfg \<longleftrightarrow> length (cfg_Shards cfg) = NShards \<and> gomap_ok (cfg_Groups cfg)"

lemma gidToShards_spec:
  assumes "config_ok cfg"
  shows "partition_ok (gidToShards cfg)"
    and "fst ` set (gidToShards cfg) = fst ` set (cfg_Groups cfg) \<union> set (cfg_Shards cfg)"
    and "mget [] (gidToShards cfg) g = map int (filter (\<lambda>i. cfg_Shards cfg ! i = g) [0..<NShards])"
proof -
  let ?m0 = "fold (\<lambda>(gid, _) m. AList.update gid [] m) (cfg_Groups cfg) ([] :: gid_shards)"
  have m0: "gomap_ok ?m0" "\<forall>g. mget [] ?m0 g = []"
    using fold_init_shards[of "[] :: gid_shards" "cfg_Groups cfg"] by (simp_all add: Let_def)
  note spec = gidToShards_loop_spec[OF m0(1), of 0 "cfg_Shards cfg"]
  have len: "length (cfg_Shards cfg) = NShards" using assms by (simp add: config_ok_def)
  have e: "map (\<lambda>i. 0 + int i) xs = map int xs" for xs by simp
  show "partition_ok (gidToShards cfg)"
    using spec shards_of_empty[OF m0] unfolding partition_ok_def all_shards_def gidToShards_def e len by simp
  show "fst ` set (gidToShards cfg) = fst ` set (cfg_Groups cfg) \<union> set (cfg_Shards cfg)"
    using spec fold_init_keys[of "cfg_Groups cfg" "[] :: gid_shards"] by (simp add: gidToShards_def)
  show "mget [] (gidToShards cfg) g = map int (filter (\<lambda>i. cfg_Shards cfg ! i = g) [0..<NShards])"
    using spec m0(2) unfolding gidToShards_def e len by simp
qed

lemma store_gid_spec:
  assumes "\<forall>s \<in> set ss. 0 \<le> s \<and> s < int (length a)"
  shows "\<exists>a'. store_gid g ss a = Some a' \<and> length a' = length a \<and>
    (\<forall>i. int i \<in> set ss \<longrightarrow> a' ! i = g) \<and> (\<forall>i. int i \<notin> set ss \<longrightarrow> a' ! i = a ! i)"
  using assms
proof (induction ss arbitrary: a)
  case Nil
  then show ?case by simp
next
  case (Cons s ss)
  let ?a = "a[nat s := g]"
  from Cons.IH[of ?a] Cons.prems obtain a' where
    a': "store_gid g ss ?a = Some a'" "length a' = length a"
      "\<forall>i. int i \<in> set ss \<longrightarrow> a' ! i = g" "\<forall>i. int i \<notin> set ss \<longrightarrow> a' ! i = ?a ! i" by auto
  have "a' ! i = g" if "int i \<in> set (s # ss)" for i
    using that a'(2-4) Cons.prems by (cases "int i \<in> set ss") auto
  moreover have "a' ! i = a ! i" if "int i \<notin> set (s # ss)" for i
  proof -
    have "nat s \<noteq> i" using that Cons.prems by auto
    with that a'(4) show ?thesis by simp
  qed
  ultimately show ?case using a'(1,2) Cons.prems by (auto simp: go_set_def)
qed

lemma store_shards_spec:
  assumes "\<forall>s \<in># shards_of m. 0 \<le> s \<and> s < int (length a)" "distinct (concat (map snd m))"
  shows "\<exists>a'. store_shards m a = Some a' \<and> length a' = length a \<and>
    (\<forall>g ss i. (g, ss) \<in> set m \<longrightarrow> int i \<in> set ss \<longrightarrow> a' ! i = g) \<and>
    (\<forall>i. int i \<notin># shards_of m \<longrightarrow> a' ! i = a ! i)"
  using assms
proof (induction m arbitrary: a)
  case Nil
  then show ?case by simp
next
  case (Cons x m)
  obtain g ss where x: "x = (g, ss)" by (cases x)
  from store_gid_spec[of ss a g] Cons.prems obtain a1 where
    a1: "store_gid g ss a = Some a1" "length a1 = length a"
      "\<forall>i. int i \<in> set ss \<longrightarrow> a1 ! i = g" "\<forall>i. int i \<notin> set ss \<longrightarrow> a1 ! i = a ! i"
    by (auto simp: x shards_of_def)
  from Cons.IH[of a1] Cons.prems a1(2) obtain a' where
    a': "store_shards m a1 = Some a'" "length a' = length a"
      "\<forall>g ss i. (g, ss) \<in> set m \<longrightarrow> int i \<in> set ss \<longrightarrow> a' ! i = g"
      "\<forall>i. int i \<notin># shards_of m \<longrightarrow> a' ! i = a1 ! i"
    by (auto simp: x shards_of_def)
  have "a' ! i = g" if "int i \<in> set ss" for i
    using that a1(3) a'(4) Cons.prems(2) by (force simp: x shards_of_def)
  with a1 a' show ?case by (auto simp: x shards_of_def)
qed

lemma partition_distinct: "partition_ok m \<Longrightarrow> distinct (concat (map snd m))"
proof -
  assume "partition_ok m"
  then have "mset (concat (map snd m)) = mset (map int [0..<NShards])"
    by (simp add: partition_ok_def shards_of_def all_shards_def)
  moreover have "distinct (map int [0..<NShards])" by (simp add: distinct_map)
  ultimately show ?thesis using mset_eq_imp_distinct_iff by blast
qed

lemma distinct_mget: "distinct (concat (map snd m)) \<Longrightarrow> distinct (mget [] m g)"
  by (induction m) (auto simp: mget_Cons)

text \<open>Storing a partition gives every shard the group whose list holds it.\<close>

lemma store_partition:
  assumes "partition_ok m"
  shows "\<exists>a. store_shards m (replicate NShards 0) = Some a \<and> length a = NShards \<and>
    (\<forall>g. \<forall>i<NShards. a ! i = g \<longleftrightarrow> int i \<in> set (mget [] m g))"
proof -
  have sh: "shards_of m = all_shards" and ok: "gomap_ok m" using assms by (auto simp: partition_ok_def)
  have mem: "s \<in># shards_of m \<longleftrightarrow> (\<exists>i<NShards. s = int i)" for s by (auto simp: sh all_shards_def)
  have "distinct (concat (map snd m))" by (rule partition_distinct[OF assms])
  moreover have "\<forall>s \<in># shards_of m. 0 \<le> s \<and> s < int (length (replicate NShards (0 :: int)))"
    using mem by auto
  ultimately obtain a where a: "store_shards m (replicate NShards 0) = Some a" "length a = NShards"
      "\<forall>g ss i. (g, ss) \<in> set m \<longrightarrow> int i \<in> set ss \<longrightarrow> a ! i = g"
    using store_shards_spec[of m "replicate NShards 0"] by auto
  have "a ! i = g \<longleftrightarrow> int i \<in> set (mget [] m g)" if "i < NShards" for i g
  proof -
    have "int i \<in># shards_of m" using that mem by blast
    then obtain h ss where h: "(h, ss) \<in> set m" "int i \<in> set ss" by (auto simp: shards_of_def)
    with a(3) have "a ! i = h" by blast
    moreover have "a ! i = g" if "int i \<in> set (mget [] m g)"
    proof -
      have "map_of m g \<noteq> None" using that by (cases "map_of m g") (simp_all add: mget_def)
      then have "(g, mget [] m g) \<in> set m" by (auto simp: mget_def dest: map_of_SomeD)
      with a(3) that show ?thesis by blast
    qed
    ultimately show ?thesis using h mget_in[OF ok h(1)] by auto
  qed
  with a(1,2) show ?thesis by blast
qed

section \<open>The rebalancing loop\<close>

text \<open>One round of the loop, and its exit condition.\<close>

definition round_stop :: "gid_shards \<Rightarrow> bool" where
  "round_stop m \<longleftrightarrow> gidWithMaxShards m \<noteq> 0 \<and>
     int (nshards m (gidWithMaxShards m)) - int (nshards m (gidWithMinShards m)) \<le> 1"

definition round_move :: "gid_shards \<Rightarrow> gid_shards" where
  "round_move m = (let maxGid = gidWithMaxShards m; minGid = gidWithMinShards m
     in AList.update maxGid (tl (mget [] m maxGid)) (AList.update minGid (mget [] m minGid @ [hd (mget [] m maxGid)]) m))"

lemma partition_not_Nil: "partition_ok m \<Longrightarrow> m \<noteq> []"
  using partition_some_shard by fastforce

lemma round_max:
  assumes "partition_ok m" "\<not> round_stop m"
  shows "mget [] m (gidWithMaxShards m) \<noteq> []" "gidWithMaxShards m \<noteq> gidWithMinShards m"
proof -
  show ne: "mget [] m (gidWithMaxShards m) \<noteq> []"
  proof (cases "nshards m 0 = 0")
    case True
    obtain g where g: "nshards m g \<noteq> 0" using partition_some_shard[OF assms(1)] by blast
    have "nshards m g \<le> nshards m (gidWithMaxShards m)"
      using gidWithMax_spec[OF partition_not_Nil[OF assms(1)] True] by blast
    with g show ?thesis by auto
  next
    case False
    then show ?thesis by (simp add: gidWithMax_0)
  qed
  show "gidWithMaxShards m \<noteq> gidWithMinShards m"
  proof
    assume eq: "gidWithMaxShards m = gidWithMinShards m"
    then have "round_stop m" by (simp add: round_stop_def)
    with assms(2) show False ..
  qed
qed

lemma round_partition:
  assumes "partition_ok m" "\<not> round_stop m"
  shows "partition_ok (round_move m)"
proof -
  let ?x = "gidWithMaxShards m" and ?n = "gidWithMinShards m"
  note mx = round_max[OF assms]
  have ok: "gomap_ok m" and sh: "shards_of m = all_shards" using assms(1) by (auto simp: partition_ok_def)
  let ?m1 = "AList.update ?n (mget [] m ?n @ [hd (mget [] m ?x)]) m"
  have "shards_of ?m1 = all_shards + {#hd (mget [] m ?x)#}" using partition_append[OF ok] by (simp add: sh)
  moreover have "mget [] ?m1 ?x = mget [] m ?x" using mx(2) by simp
  moreover have "mset (mget [] m ?x) = mset (tl (mget [] m ?x)) + {#hd (mget [] m ?x)#}"
    using mx(1) by (cases "mget [] m ?x") auto
  moreover have "gomap_ok ?m1" using ok by simp
  ultimately show ?thesis
    using shards_of_update[of ?m1 ?x "tl (mget [] m ?x)"]
    by (simp add: partition_ok_def round_move_def Let_def)
qed

lemma rebalance_round:
  assumes "partition_ok m"
  shows "rebalance m = (if round_stop m then Some m else rebalance (round_move m))"
proof (cases "round_stop m")
  case True
  then show ?thesis by (subst rebalance.simps) (simp add: round_stop_def Let_def)
next
  case False
  note mx = round_max[OF assms False]
  obtain s ss where ss: "mget [] m (gidWithMaxShards m) = s # ss" using mx(1) by (cases "mget [] m (gidWithMaxShards m)") auto
  show ?thesis
    using False mx(2) ss
    by (subst rebalance.simps) (auto simp: round_stop_def round_move_def Let_def go_nth_def go_from_def)
qed

text \<open>An invariant of the rounds holds at the exit, and the exit is reached.\<close>

lemma rebalance_invariant:
  assumes "partition_ok m" "P m"
    and step: "\<And>m. partition_ok m \<Longrightarrow> P m \<Longrightarrow> \<not> round_stop m \<Longrightarrow> P (round_move m)"
  shows "\<exists>m'. rebalance m = Some m' \<and> partition_ok m' \<and> P m' \<and> round_stop m'"
  using assms(1,2)
proof (induction m rule: rebalance.induct)
  case (1 m)
  show ?case
  proof (cases "round_stop m")
    case True
    with 1(2,3) show ?thesis by (intro exI[of _ m]) (simp add: rebalance_round)
  next
    case False
    note mx = round_max[OF 1(2) False]
    obtain s ss where ss: "mget [] m (gidWithMaxShards m) = s # ss"
      using mx(1) by (cases "mget [] m (gidWithMaxShards m)") auto
    have "partition_ok (round_move m) \<Longrightarrow> P (round_move m) \<Longrightarrow>
        \<exists>m'. rebalance (round_move m) = Some m' \<and> partition_ok m' \<and> P m' \<and> round_stop m'"
      using 1(1)[OF refl refl, of s _ ss] False mx(2) ss
      by (auto simp: round_stop_def round_move_def Let_def go_nth_def go_from_def)
    then show ?thesis
      using round_partition[OF 1(2) False] step[OF 1(2,3) False] False by (simp add: rebalance_round[OF 1(2)])
  qed
qed

lemma round_keys:
  assumes "partition_ok m" "\<not> round_stop m" "g \<in> fst ` set m" "g \<noteq> 0"
  shows "fst ` set (round_move m) = fst ` set m"
proof -
  have "gidWithMinShards m \<in> fst ` set m"
    using gidWithMin_spec[OF assms(3,4) partition_nshards[OF assms(1)]] by blast
  moreover have "gidWithMaxShards m \<in> fst ` set m"
    using round_max(1)[OF assms(1,2)] mget_outside[of _ m "[]"] by metis
  ultimately show ?thesis by (auto simp: round_move_def Let_def)
qed

text \<open>Where the loop stops, group 0 is empty and any two groups differ by at most one shard.\<close>

lemma rebalance_balanced:
  assumes "partition_ok m" "g0 \<in> fst ` set m" "g0 \<noteq> 0"
  shows "\<exists>m'. rebalance m = Some m' \<and> partition_ok m' \<and> fst ` set m' = fst ` set m \<and> nshards m' 0 = 0 \<and>
    (\<forall>g h. h \<in> fst ` set m \<longrightarrow> h \<noteq> 0 \<longrightarrow> nshards m' g \<le> nshards m' h + 1)"
proof -
  have "\<exists>m'. rebalance m = Some m' \<and> partition_ok m' \<and> fst ` set m' = fst ` set m \<and> round_stop m'"
    by (rule rebalance_invariant[where P = "\<lambda>m'. fst ` set m' = fst ` set m", OF assms(1) refl])
      (use round_keys assms(2,3) in metis)
  then obtain m' where m': "rebalance m = Some m'" "partition_ok m'" "fst ` set m' = fst ` set m" "round_stop m'"
    by blast
  then have zero: "nshards m' 0 = 0" using gidWithMax_0[of m'] by (auto simp: round_stop_def)
  have "nshards m' g \<le> nshards m' h + 1" if "h \<in> fst ` set m" "h \<noteq> 0" for g h
  proof -
    have "nshards m' g \<le> nshards m' (gidWithMaxShards m')"
      using gidWithMax_spec[OF partition_not_Nil[OF m'(2)] zero] by blast
    moreover have "nshards m' (gidWithMinShards m') \<le> nshards m' h"
      using gidWithMin_spec[of h m', OF _ that(2) partition_nshards[OF m'(2)]] that m'(3) by blast
    ultimately show ?thesis using m'(4) by (simp add: round_stop_def)
  qed
  with m' zero show ?thesis by blast
qed

lemma partition_mget:
  assumes "partition_ok m"
  shows "distinct (mget [] m g)" "s \<in> set (mget [] m g) \<Longrightarrow> \<exists>i<NShards. s = int i"
proof -
  have sub: "mset (mget [] m g) \<subseteq># all_shards" using mget_le_shards_of[of m g] assms by (simp add: partition_ok_def)
  show "distinct (mget [] m g)" using partition_distinct[OF assms] by (rule distinct_mget)
  assume "s \<in> set (mget [] m g)"
  then show "\<exists>i<NShards. s = int i"
    using mset_subset_eqD[OF sub, of s] by (auto simp: all_shards_def)
qed

lemma count_stored:
  assumes "partition_ok m" "length a = NShards" "\<forall>g. \<forall>i<NShards. a ! i = g \<longleftrightarrow> int i \<in> set (mget [] m g)"
  shows "count_list a g = nshards m g"
proof -
  have "set (mget [] m g) = int ` {i. i < NShards \<and> a ! i = g}"
    using assms(3) partition_mget(2)[OF assms(1)] by fastforce
  then have "card (set (mget [] m g)) = card {i. i < NShards \<and> a ! i = g}"
    by (simp add: card_image)
  then show ?thesis
    using assms(2) partition_mget(1)[OF assms(1), of g]
    by (simp add: count_list_eq_length_filter length_filter_conv_card distinct_card eq_commute)
qed

section \<open>Groups\<close>

lemma fold_update_keys:
  "fst ` set (fold (\<lambda>(k, v) m. AList.update k v m) xs m0) = fst ` set xs \<union> fst ` set m0"
  by (induction xs arbitrary: m0) (simp_all add: case_prod_beta)

lemma fold_update_ok: "gomap_ok m0 \<Longrightarrow> gomap_ok (fold (\<lambda>(k, v) m. AList.update k v m) xs m0)"
  by (induction xs arbitrary: m0) (simp_all add: case_prod_beta)

lemma fold_update_map_of:
  "gomap_ok xs \<Longrightarrow> map_of (fold (\<lambda>(k, v) m. AList.update k v m) xs m0) = map_of m0 ++ map_of xs"
proof (induction xs arbitrary: m0)
  case Nil
  then show ?case by simp
next
  case (Cons x xs)
  obtain k v where x: "x = (k, v)" by (cases x)
  have "map_of xs k = None" using Cons.prems by (simp add: x gomap_ok_Cons map_of_eq_None_iff)
  then show ?case
    using Cons by (auto simp: x gomap_ok_Cons update_conv' fun_eq_iff map_add_def split: option.split)
qed

lemma copyGroups_spec:
  "gomap_ok (copyGroups gs)" "fst ` set (copyGroups gs) = fst ` set gs"
  "gomap_ok gs \<Longrightarrow> map_of (copyGroups gs) = map_of gs"
  by (simp_all add: copyGroups_def fold_update_ok fold_update_keys fold_update_map_of)

lemma join_groups_spec:
  assumes "gomap_ok gs"
  shows "gomap_ok (join_groups new gs)" "fst ` set (join_groups new gs) = fst ` set new \<union> fst ` set gs"
    "map_of gs g \<noteq> None \<Longrightarrow> map_of (join_groups new gs) g = map_of gs g"
    "map_of gs g = None \<Longrightarrow> map_of (join_groups new gs) g = map_of new g"
proof -
  have "gomap_ok (join_groups new gs) \<and> fst ` set (join_groups new gs) = fst ` set new \<union> fst ` set gs \<and>
    map_of (join_groups new gs) = map_of new ++ map_of gs" using assms
  proof (induction new arbitrary: gs)
    case Nil
    then show ?case by (simp add: join_groups_def)
  next
    case (Cons x new)
    obtain k v where x: "x = (k, v)" by (cases x)
    show ?case
    proof (cases "map_of gs k")
      case None
      then have "join_groups (x # new) gs = join_groups new (AList.update k v gs)" by (simp add: join_groups_def x)
      with Cons.IH[of "AList.update k v gs"] Cons.prems None show ?thesis
        by (auto simp: x update_conv' map_add_def fun_eq_iff split: option.split)
    next
      case (Some w)
      then have "join_groups (x # new) gs = join_groups new gs" by (simp add: join_groups_def x)
      moreover have "k \<in> fst ` set gs" using Some by (force dest: map_of_SomeD)
      ultimately show ?thesis
        using Cons.IH[OF Cons.prems] Some by (auto simp: x map_add_def fun_eq_iff split: option.split)
    qed
  qed
  then show "gomap_ok (join_groups new gs)" "fst ` set (join_groups new gs) = fst ` set new \<union> fst ` set gs"
    "map_of gs g \<noteq> None \<Longrightarrow> map_of (join_groups new gs) g = map_of gs g"
    "map_of gs g = None \<Longrightarrow> map_of (join_groups new gs) g = map_of new g"
    by (auto simp: map_add_def split: option.splits)
qed

section \<open>The invariant of the configurations\<close>

text \<open>Configurations are numbered by their position; every shard belongs to a group or to none.\<close>

definition assigned :: "Config \<Rightarrow> bool" where
  "assigned cfg \<longleftrightarrow> 0 \<notin> fst ` set (cfg_Groups cfg) \<and> set (cfg_Shards cfg) \<subseteq> insert 0 (fst ` set (cfg_Groups cfg))"

definition csm_ok :: "CtrlerStateMachine \<Rightarrow> bool" where
  "csm_ok csm \<longleftrightarrow> Configs csm \<noteq> [] \<and>
     (\<forall>i < length (Configs csm). config_ok (Configs csm ! i) \<and> cfg_Num (Configs csm ! i) = int i)"

lemma csm_ok_new: "csm_ok NewCtrlerStateMachine"
  by (simp add: csm_ok_def NewCtrlerStateMachine_def DefaultConfig_def config_ok_def)

lemma next_config_eq:
  assumes "csm_ok csm"
  shows "next_config csm = Some \<lparr>cfg_Num = int (length (Configs csm)), cfg_Shards = cfg_Shards (last (Configs csm)),
    cfg_Groups = copyGroups (cfg_Groups (last (Configs csm)))\<rparr>"
    and "config_ok (last (Configs csm))"
  using assms by (auto simp: next_config_def csm_ok_def Let_def go_nth_def last_conv_nth nat_diff_distrib)

lemma csm_ok_append:
  assumes "csm_ok csm" "config_ok cfg" "cfg_Num cfg = int (length (Configs csm))"
  shows "csm_ok (csm\<lparr>Configs := Configs csm @ [cfg]\<rparr>)"
  using assms by (auto simp: csm_ok_def nth_append less_Suc_eq)

end
