(* ===== verification/Ctrler_Properties.thy ===== *)
theory Ctrler_Properties
  imports Ctrler_Balance
begin

text \<open>
  The properties of \<open>Join\<close>, \<open>Leave\<close>, \<open>Move\<close> and \<open>Query\<close> of the shard controller, and the
  independence of their results from the iteration order of Go maps.
\<close>

section \<open>Join\<close>

text \<open>Two groups differ by at most one shard.\<close>

definition shards_balanced :: "Config \<Rightarrow> bool" where
  "shards_balanced cfg \<longleftrightarrow> (\<forall>g \<in> fst ` set (cfg_Groups cfg). \<forall>h \<in> fst ` set (cfg_Groups cfg).
     count_list (cfg_Shards cfg) g \<le> count_list (cfg_Shards cfg) h + 1)"

lemma Join_result:
  assumes ok: "csm_ok csm" and ne: "g0 \<in> fst ` set (cfg_Groups (last (Configs csm))) \<union> fst ` set groups" "g0 \<noteq> 0"
  shows "\<exists>cfg m'. csm_Join csm groups = Some (csm\<lparr>Configs := Configs csm @ [cfg]\<rparr>, OK) \<and>
    config_ok cfg \<and> cfg_Num cfg = int (length (Configs csm)) \<and>
    cfg_Groups cfg = join_groups groups (copyGroups (cfg_Groups (last (Configs csm)))) \<and>
    partition_ok m' \<and> fst ` set m' = fst ` set (cfg_Groups cfg) \<union> set (cfg_Shards (last (Configs csm))) \<and>
    nshards m' 0 = 0 \<and> (\<forall>g h. h \<in> fst ` set m' \<longrightarrow> h \<noteq> 0 \<longrightarrow> nshards m' g \<le> nshards m' h + 1) \<and>
    (\<forall>g. \<forall>i<NShards. cfg_Shards cfg ! i = g \<longleftrightarrow> int i \<in> set (mget [] m' g))"
proof -
  let ?last = "last (Configs csm)"
  let ?G = "join_groups groups (copyGroups (cfg_Groups ?last))"
  let ?c = "\<lparr>cfg_Num = int (length (Configs csm)), cfg_Shards = cfg_Shards ?last, cfg_Groups = ?G\<rparr>"
  note nc = next_config_eq[OF ok]
  have G: "gomap_ok ?G" "fst ` set ?G = fst ` set groups \<union> fst ` set (cfg_Groups ?last)"
    using join_groups_spec(1,2)[OF copyGroups_spec(1)] copyGroups_spec(2) by simp_all
  have c: "config_ok ?c" using nc(2) G(1) by (simp add: config_ok_def)
  note m = gidToShards_spec[OF c]
  have "g0 \<in> fst ` set (gidToShards ?c)" using ne(1) G(2) m(2) by auto
  from rebalance_balanced[OF m(1) this ne(2)] obtain m' where
    m': "rebalance (gidToShards ?c) = Some m'" "partition_ok m'" "fst ` set m' = fst ` set (gidToShards ?c)"
      "nshards m' 0 = 0" "\<forall>g h. h \<in> fst ` set (gidToShards ?c) \<longrightarrow> h \<noteq> 0 \<longrightarrow> nshards m' g \<le> nshards m' h + 1"
    by blast
  from store_partition[OF m'(2)] obtain a where
    a: "store_shards m' (replicate NShards 0) = Some a" "length a = NShards"
      "\<forall>g. \<forall>i<NShards. a ! i = g \<longleftrightarrow> int i \<in> set (mget [] m' g)" by blast
  have "csm_Join csm groups = Some (csm\<lparr>Configs := Configs csm @ [?c\<lparr>cfg_Shards := a\<rparr>]\<rparr>, OK)"
    using m'(1) a(1) by (simp add: csm_Join_def nc(1) Let_def)
  then show ?thesis
    using m' a G(1) m(2) by (intro exI[of _ "?c\<lparr>cfg_Shards := a\<rparr>"] exI[of _ m']) (simp add: config_ok_def)
qed

text \<open>C4. \<open>Join\<close> always returns (its loop ends and no index is out of range), appends one configuration
  with the next number, adds exactly the new groups and keeps the servers of the old ones, and spreads
  the shards evenly: every shard belongs to a group of the configuration and two groups differ by at
  most one shard. This holds whenever the last configuration assigns its shards to its groups and
  there is a group afterwards.\<close>

theorem Join_balances:
  assumes "csm_ok csm" "assigned (last (Configs csm))" "0 \<notin> fst ` set groups"
    and "fst ` set (cfg_Groups (last (Configs csm))) \<union> fst ` set groups \<noteq> {}"
  shows "\<exists>cfg. csm_Join csm groups = Some (csm\<lparr>Configs := Configs csm @ [cfg]\<rparr>, OK) \<and>
    cfg_Num cfg = int (length (Configs csm)) \<and>
    fst ` set (cfg_Groups cfg) = fst ` set (cfg_Groups (last (Configs csm))) \<union> fst ` set groups \<and>
    (\<forall>g servers. map_of (cfg_Groups (last (Configs csm))) g = Some servers \<longrightarrow> map_of (cfg_Groups cfg) g = Some servers) \<and>
    length (cfg_Shards cfg) = NShards \<and> set (cfg_Shards cfg) \<subseteq> fst ` set (cfg_Groups cfg) \<and> shards_balanced cfg"
proof -
  let ?last = "last (Configs csm)"
  have no0: "0 \<notin> fst ` set (cfg_Groups ?last) \<union> fst ` set groups" using assms(2,3) by (simp add: assigned_def)
  from assms(4)[folded ex_in_conv] obtain g0 where ex: "g0 \<in> fst ` set (cfg_Groups ?last) \<union> fst ` set groups" ..
  with no0 have "g0 \<noteq> 0" by metis
  note ex = ex this
  from Join_result[OF assms(1) ex] obtain cfg m' where j: "csm_Join csm groups = Some (csm\<lparr>Configs := Configs csm @ [cfg]\<rparr>, OK)"
      "config_ok cfg" "cfg_Num cfg = int (length (Configs csm))"
      "cfg_Groups cfg = join_groups groups (copyGroups (cfg_Groups ?last))" "partition_ok m'"
      "fst ` set m' = fst ` set (cfg_Groups cfg) \<union> set (cfg_Shards ?last)" "nshards m' 0 = 0"
      "\<forall>g h. h \<in> fst ` set m' \<longrightarrow> h \<noteq> 0 \<longrightarrow> nshards m' g \<le> nshards m' h + 1"
      "\<forall>g. \<forall>i<NShards. cfg_Shards cfg ! i = g \<longleftrightarrow> int i \<in> set (mget [] m' g)"
    by (elim exE conjE)
  have last_ok: "gomap_ok (cfg_Groups ?last)" using next_config_eq(2)[OF assms(1)] by (simp add: config_ok_def)
  have keys: "fst ` set (cfg_Groups cfg) = fst ` set groups \<union> fst ` set (cfg_Groups ?last)"
    using join_groups_spec(2)[OF copyGroups_spec(1)] copyGroups_spec(2) by (simp add: j(4))
  have len: "length (cfg_Shards cfg) = NShards" using j(2) by (simp add: config_ok_def)
  note cnt = count_stored[OF j(5) len j(9)]
  have shards: "cfg_Shards cfg ! i \<in> fst ` set (cfg_Groups cfg)" if "i < NShards" for i
  proof -
    let ?g = "cfg_Shards cfg ! i"
    have in': "int i \<in> set (mget [] m' ?g)" using j(9)[rule_format, OF that, of ?g] by simp
    have "?g \<noteq> 0"
    proof
      assume "?g = 0"
      with in' j(7) show False by simp
    qed
    moreover have "?g \<in> fst ` set m'"
    proof (rule ccontr)
      assume "?g \<notin> fst ` set m'"
      from in' mget_outside[OF this, of "[]"] show False by simp
    qed
    ultimately show ?thesis using j(6) keys assms(2) by (auto simp: assigned_def)
  qed
  have bal: "count_list (cfg_Shards cfg) g \<le> count_list (cfg_Shards cfg) h + 1"
    if "h \<in> fst ` set (cfg_Groups cfg)" for g h
  proof -
    have "h \<noteq> 0" using that keys assms(2,3) by (auto simp: assigned_def)
    moreover have "h \<in> fst ` set m'" using that j(6) by blast
    ultimately show ?thesis unfolding cnt using j(8) by blast
  qed
  show ?thesis
  proof (intro exI[of _ cfg] conjI ballI allI impI)
    show "set (cfg_Shards cfg) \<subseteq> fst ` set (cfg_Groups cfg)"
    proof
      fix g assume "g \<in> set (cfg_Shards cfg)"
      then obtain i where "i < NShards" "g = cfg_Shards cfg ! i" using len by (auto simp: in_set_conv_nth)
      with shards show "g \<in> fst ` set (cfg_Groups cfg)" by simp
    qed
    show "shards_balanced cfg" unfolding shards_balanced_def using bal by blast
    fix g servers assume "map_of (cfg_Groups ?last) g = Some servers"
    then show "map_of (cfg_Groups cfg) g = Some servers"
      using join_groups_spec(3)[OF copyGroups_spec(1), of "cfg_Groups ?last" g groups] copyGroups_spec(3)[OF last_ok]
      by (simp add: j(4))
  qed (use j(1,3) keys len in \<open>simp_all add: Un_commute\<close>)
qed

section \<open>Leave\<close>

lemma keys_delete [simp]: "fst ` set (AList.delete k m) = fst ` set m - {k}"
  by (metis delete_keys set_map set_removeAll)

lemma mget_delete: "mget z (AList.delete k m) g = (if g = k then z else mget z m g)"
  by (simp add: mget_def delete_conv')

lemma leave_loop_spec:
  assumes "gomap_ok m" "leave_loop gids groups m u = (groups', m', u')"
  shows "fst ` set groups' = fst ` set groups - set gids \<and> (gomap_ok groups \<longrightarrow> gomap_ok groups') \<and>
    gomap_ok m' \<and> fst ` set m' = fst ` set m - set gids \<and>
    (\<forall>g. mget [] m' g = (if g \<in> set gids then [] else mget [] m g)) \<and>
    shards_of m' + mset u' = shards_of m + mset u"
  using assms
proof (induction gids arbitrary: groups m u)
  case Nil
  then show ?case by simp
next
  case (Cons gid gids)
  show ?case
  proof (cases "map_of m gid")
    case None
    then have "gid \<notin> fst ` set m" by (simp add: map_of_eq_None_iff)
    then have m: "mget [] m gid = []" "gid \<notin> fst ` set m" by (simp_all add: mget_outside)
    from Cons.prems(2) None have "leave_loop gids (AList.delete gid groups) m u = (groups', m', u')" by simp
    from Cons.IH[OF Cons.prems(1) this] m show ?thesis by auto
  next
    case (Some ss)
    then have ss: "mget [] m gid = ss" by (simp add: mget_def)
    from Cons.prems(2) Some have
      "leave_loop gids (AList.delete gid groups) (AList.delete gid m) (u @ ss) = (groups', m', u')" by simp
    from Cons.IH[OF gomap_ok_delete[OF Cons.prems(1)] this] shards_of_delete[OF Cons.prems(1), of gid] ss
    show ?thesis by (auto simp: mget_delete add.assoc add.commute add.left_commute)
  qed
qed

text \<open>The second loop keeps the groups and the shards they have, and keeps a balanced map balanced.\<close>

definition balanced :: "gid_shards \<Rightarrow> bool" where
  "balanced m \<longleftrightarrow> (\<forall>g \<in> fst ` set m. \<forall>h \<in> fst ` set m. g \<noteq> 0 \<longrightarrow> h \<noteq> 0 \<longrightarrow> nshards m g \<le> nshards m h + 1)"

lemma nshards_le_size: "nshards m g \<le> size (shards_of m)"
  using size_mset_mono[OF mget_le_shards_of[of m g]] by simp

lemma reassign_loop_spec:
  assumes "gomap_ok m" "size (shards_of m) + length u \<le> NShards" "g0 \<in> fst ` set m" "g0 \<noteq> 0"
  shows "gomap_ok (reassign_loop u m) \<and> fst ` set (reassign_loop u m) = fst ` set m \<and>
    shards_of (reassign_loop u m) = shards_of m + mset u \<and>
    (\<forall>g. set (mget [] m g) \<subseteq> set (mget [] (reassign_loop u m) g)) \<and>
    mget [] (reassign_loop u m) 0 = mget [] m 0 \<and>
    (balanced m \<longrightarrow> balanced (reassign_loop u m))"
  using assms
proof (induction u arbitrary: m)
  case Nil
  then show ?case by simp
next
  case (Cons s u)
  let ?n = "gidWithMinShards m"
  let ?m = "AList.update ?n (mget [] m ?n @ [s]) m"
  have "nshards m g0 \<le> NShards" using nshards_le_size[of m g0] Cons.prems(2) by simp
  note mn = gidWithMin_spec[OF Cons.prems(3,4) this]
  have keys: "fst ` set ?m = fst ` set m" using mn by auto
  have sh: "shards_of ?m = shards_of m + {#s#}" by (rule partition_append[OF Cons.prems(1)])
  have "gomap_ok ?m" "size (shards_of ?m) + length u \<le> NShards" "g0 \<in> fst ` set ?m"
    using Cons.prems sh keys by simp_all
  note IH = Cons.IH[OF this Cons.prems(4)]
  have "balanced ?m" if "balanced m"
    using that mn unfolding balanced_def keys by (fastforce simp: balanced_def)
  moreover have "set (mget [] m g) \<subseteq> set (mget [] (reassign_loop u ?m) g)" for g
  proof -
    have "set (mget [] m g) \<subseteq> set (mget [] ?m g)" by auto
    also have "\<dots> \<subseteq> set (mget [] (reassign_loop u ?m) g)" using IH by blast
    finally show ?thesis .
  qed
  ultimately show ?case
    using IH keys sh by (simp add: Let_def)
qed

lemma gidToShards_owner:
  assumes "config_ok cfg" "i < NShards"
  shows "int i \<in> set (mget [] (gidToShards cfg) g) \<longleftrightarrow> cfg_Shards cfg ! i = g"
  using assms(2) by (auto simp: gidToShards_spec(3)[OF assms(1)])

lemma count_gidToShards:
  assumes "config_ok cfg"
  shows "nshards (gidToShards cfg) g = count_list (cfg_Shards cfg) g"
  using count_stored[OF gidToShards_spec(1)[OF assms], of "cfg_Shards cfg" g] gidToShards_owner[OF assms] assms
  by (simp add: config_ok_def)

text \<open>The map after the two loops of \<open>Leave\<close>.\<close>

lemma leave_map:
  assumes c: "config_ok c" "assigned c" and ne: "fst ` set groups' \<noteq> {}"
    and lv: "leave_loop gids (cfg_Groups c) (gidToShards c) [] = (groups', m', u')"
  shows "partition_ok (reassign_loop u' m') \<and> fst ` set (reassign_loop u' m') \<subseteq> insert 0 (fst ` set groups') \<and>
    fst ` set groups' \<subseteq> fst ` set (reassign_loop u' m') \<and>
    (\<forall>g. g \<notin> set gids \<longrightarrow> set (mget [] (gidToShards c) g) \<subseteq> set (mget [] (reassign_loop u' m') g)) \<and>
    mget [] (reassign_loop u' m') 0 = (if 0 \<in> set gids then [] else mget [] (gidToShards c) 0) \<and>
    (shards_balanced c \<longrightarrow> balanced (reassign_loop u' m'))"
proof -
  note m = gidToShards_spec[OF c(1)]
  have ok: "gomap_ok (gidToShards c)" using m(1) by (simp add: partition_ok_def)
  note l = leave_loop_spec[OF ok lv]
  have keys: "fst ` set m' = (fst ` set (cfg_Groups c) \<union> set (cfg_Shards c)) - set gids" using l m(2) by simp
  have sub: "fst ` set m' \<subseteq> insert 0 (fst ` set groups')" using keys l c(2) by (auto simp: assigned_def)
  from ne[folded ex_in_conv] obtain g0 where g0: "g0 \<in> fst ` set groups'" ..
  then have g0': "g0 \<in> fst ` set m'" "g0 \<noteq> 0" using keys l c(2) by (auto simp: assigned_def)
  have all: "shards_of m' + mset u' = all_shards" using l m(1) by (simp add: partition_ok_def)
  then have "size (shards_of m') + length u' = NShards" using size_all_shards by (metis size_mset size_union)
  then have "size (shards_of m') + length u' \<le> NShards" by simp
  moreover have "gomap_ok m'" using l by simp
  ultimately have r: "gomap_ok (reassign_loop u' m')" "fst ` set (reassign_loop u' m') = fst ` set m'"
      "shards_of (reassign_loop u' m') = all_shards"
      "\<forall>g. set (mget [] m' g) \<subseteq> set (mget [] (reassign_loop u' m') g)"
      "mget [] (reassign_loop u' m') 0 = mget [] m' 0" "balanced m' \<longrightarrow> balanced (reassign_loop u' m')"
    using reassign_loop_spec[of m' u' g0] g0' all by simp_all
  have "balanced m'" if "shards_balanced c"
  proof -
    have "nshards m' g \<le> nshards m' h + 1" if "g \<in> fst ` set m'" "h \<in> fst ` set m'" "g \<noteq> 0" "h \<noteq> 0" for g h
    proof -
      have gh: "g \<in> fst ` set (cfg_Groups c)" "h \<in> fst ` set (cfg_Groups c)" "g \<notin> set gids" "h \<notin> set gids"
        using that keys c(2) by (auto simp: assigned_def)
      then have "mget [] m' g = mget [] (gidToShards c) g" "mget [] m' h = mget [] (gidToShards c) h"
        using l by simp_all
      moreover have "count_list (cfg_Shards c) g \<le> count_list (cfg_Shards c) h + 1"
        using \<open>shards_balanced c\<close> gh(1,2) unfolding shards_balanced_def by blast
      ultimately show ?thesis by (simp add: count_gidToShards[OF c(1)])
    qed
    then show ?thesis by (simp add: balanced_def)
  qed
  moreover have "set (mget [] (gidToShards c) g) \<subseteq> set (mget [] (reassign_loop u' m') g)" if "g \<notin> set gids" for g
    using r(4)[rule_format, of g] l that by simp
  moreover have "fst ` set groups' \<subseteq> fst ` set m'" using keys l by auto
  ultimately show ?thesis using r sub l by (simp add: partition_ok_def)
qed

lemma leave_stored:
  assumes c: "config_ok c" "assigned c" and ne: "fst ` set groups' \<noteq> {}"
    and lv: "leave_loop gids (cfg_Groups c) (gidToShards c) [] = (groups', m', u')"
  shows "\<exists>a. store_shards (reassign_loop u' m') (replicate NShards 0) = Some a \<and> length a = NShards \<and>
    set a \<subseteq> insert 0 (fst ` set groups') \<and>
    (\<forall>i<NShards. (cfg_Shards c ! i \<notin> set gids \<longrightarrow> a ! i = cfg_Shards c ! i) \<and>
       (cfg_Shards c ! i \<in> set gids \<longrightarrow> a ! i \<in> fst ` set groups')) \<and>
    (shards_balanced c \<longrightarrow> shards_balanced (c\<lparr>cfg_Groups := groups', cfg_Shards := a\<rparr>))"
proof -
  let ?m = "reassign_loop u' m'"
  have p: "partition_ok ?m" and keys: "fst ` set ?m \<subseteq> insert 0 (fst ` set groups')"
    and sup: "fst ` set groups' \<subseteq> fst ` set ?m"
    and keep: "\<And>g. g \<notin> set gids \<Longrightarrow> set (mget [] (gidToShards c) g) \<subseteq> set (mget [] ?m g)"
    and zero: "mget [] ?m 0 = (if 0 \<in> set gids then [] else mget [] (gidToShards c) 0)"
    and bal: "shards_balanced c \<Longrightarrow> balanced ?m"
    using leave_map[OF c ne lv] by simp_all
  have ok: "gomap_ok (gidToShards c)" using gidToShards_spec(1)[OF c(1)] by (simp add: partition_ok_def)
  have l: "fst ` set groups' = fst ` set (cfg_Groups c) - set gids" using leave_loop_spec[OF ok lv] by simp
  from store_partition[OF p] obtain a where a: "store_shards ?m (replicate NShards 0) = Some a" "length a = NShards"
      "\<forall>g. \<forall>i<NShards. a ! i = g \<longleftrightarrow> int i \<in> set (mget [] ?m g)" by blast
  have own: "int i \<in> set (mget [] ?m (a ! i))" "a ! i \<in> insert 0 (fst ` set groups')" if "i < NShards" for i
  proof -
    show *: "int i \<in> set (mget [] ?m (a ! i))" using a(3)[rule_format, OF that] by blast
    then have "a ! i \<in> fst ` set ?m" using mget_outside[of "a ! i" ?m "[]"] by (metis emptyE list.set(1))
    with keys show "a ! i \<in> insert 0 (fst ` set groups')" by blast
  qed
  have stay: "a ! i = cfg_Shards c ! i" if "i < NShards" "cfg_Shards c ! i \<notin> set gids" for i
    using keep[OF that(2)] gidToShards_owner[OF c(1) that(1), of "cfg_Shards c ! i"] a(3)[rule_format, OF that(1)] by blast
  have move: "a ! i \<in> fst ` set groups'" if "i < NShards" "cfg_Shards c ! i \<in> set gids" for i
  proof -
    have "a ! i \<noteq> 0"
    proof
      assume "a ! i = 0"
      with own(1)[OF that(1)] zero have "0 \<notin> set gids \<and> int i \<in> set (mget [] (gidToShards c) 0)"
        by (simp split: if_splits)
      with gidToShards_owner[OF c(1) that(1)] that(2) show False by auto
    qed
    with own(2)[OF that(1)] show ?thesis by simp
  qed
  have "shards_balanced (c\<lparr>cfg_Groups := groups', cfg_Shards := a\<rparr>)" if "shards_balanced c"
  proof -
    have "count_list a g \<le> count_list a h + 1" if "g \<in> fst ` set groups'" "h \<in> fst ` set groups'" for g h
    proof -
      have "g \<noteq> 0" "h \<noteq> 0" using that l c(2) by (auto simp: assigned_def)
      moreover have "g \<in> fst ` set ?m" "h \<in> fst ` set ?m" using that sup by blast+
      ultimately show ?thesis
        using bal[OF \<open>shards_balanced c\<close>] unfolding balanced_def count_stored[OF p a(2,3)] by blast
    qed
    then show ?thesis by (simp add: shards_balanced_def)
  qed
  moreover have "set a \<subseteq> insert 0 (fst ` set groups')"
  proof
    fix x assume "x \<in> set a"
    then obtain i where "i < NShards" "x = a ! i" using a(2) by (auto simp: in_set_conv_nth)
    with own(2) show "x \<in> insert 0 (fst ` set groups')" by simp
  qed
  ultimately show ?thesis using a(1,2) stay move by blast
qed

text \<open>C14. \<open>Leave\<close> always returns and appends one configuration without the given groups. When groups
  remain, a shard of a remaining group stays where it is and a shard of a removed group goes to a
  remaining one, and a balanced assignment stays balanced; when none remains, no shard has a group.\<close>

theorem Leave_moves_only_orphans:
  assumes ok: "csm_ok csm" and as: "assigned (last (Configs csm))"
  shows "\<exists>cfg. csm_Leave csm gids = Some (csm\<lparr>Configs := Configs csm @ [cfg]\<rparr>, OK) \<and>
    cfg_Num cfg = int (length (Configs csm)) \<and> length (cfg_Shards cfg) = NShards \<and> assigned cfg \<and>
    fst ` set (cfg_Groups cfg) = fst ` set (cfg_Groups (last (Configs csm))) - set gids \<and>
    (if cfg_Groups cfg = [] then cfg_Shards cfg = replicate NShards 0
     else (\<forall>i<NShards. let g = cfg_Shards (last (Configs csm)) ! i in
             (g \<notin> set gids \<longrightarrow> cfg_Shards cfg ! i = g) \<and>
             (g \<in> set gids \<longrightarrow> cfg_Shards cfg ! i \<in> fst ` set (cfg_Groups cfg))) \<and>
          (shards_balanced (last (Configs csm)) \<longrightarrow> shards_balanced cfg))"
proof -
  let ?last = "last (Configs csm)"
  let ?c = "\<lparr>cfg_Num = int (length (Configs csm)), cfg_Shards = cfg_Shards ?last, cfg_Groups = copyGroups (cfg_Groups ?last)\<rparr>"
  note nc = next_config_eq[OF ok]
  have c: "config_ok ?c" "assigned ?c" and bal: "shards_balanced ?c \<longleftrightarrow> shards_balanced ?last"
    using nc(2) as copyGroups_spec by (simp_all add: config_ok_def assigned_def shards_balanced_def)
  have "gomap_ok (gidToShards ?c)" using gidToShards_spec(1)[OF c(1)] by (simp add: partition_ok_def)
  moreover obtain groups' m' u' where lv: "leave_loop gids (cfg_Groups ?c) (gidToShards ?c) [] = (groups', m', u')"
    by (cases "leave_loop gids (cfg_Groups ?c) (gidToShards ?c) []")
  ultimately have keys: "fst ` set groups' = fst ` set (cfg_Groups ?last) - set gids"
    using leave_loop_spec[of "gidToShards ?c"] copyGroups_spec(2) by simp
  have no0: "0 \<notin> fst ` set groups'" using as keys by (auto simp: assigned_def)
  show ?thesis
  proof (cases "groups' = []")
    case True
    let ?new = "?c\<lparr>cfg_Groups := [], cfg_Shards := replicate NShards 0\<rparr>"
    have "csm_Leave csm gids = Some (csm\<lparr>Configs := Configs csm @ [?new]\<rparr>, OK)"
      using lv True by (simp add: csm_Leave_def nc(1))
    moreover have "assigned ?new" by (simp add: assigned_def NShards_def)
    ultimately show ?thesis using keys True by (intro exI[of _ ?new]) simp
  next
    case False
    then have "fst ` set groups' \<noteq> {}" by simp
    from leave_stored[OF c this lv] obtain a where
      a: "store_shards (reassign_loop u' m') (replicate NShards 0) = Some a" "length a = NShards"
        "set a \<subseteq> insert 0 (fst ` set groups')"
        "\<forall>i<NShards. (cfg_Shards ?last ! i \<notin> set gids \<longrightarrow> a ! i = cfg_Shards ?last ! i) \<and>
           (cfg_Shards ?last ! i \<in> set gids \<longrightarrow> a ! i \<in> fst ` set groups')"
        "shards_balanced ?last \<longrightarrow> shards_balanced (?c\<lparr>cfg_Groups := groups', cfg_Shards := a\<rparr>)"
      using bal by auto
    have "csm_Leave csm gids = Some (csm\<lparr>Configs := Configs csm @ [?c\<lparr>cfg_Groups := groups', cfg_Shards := a\<rparr>]\<rparr>, OK)"
      using lv a(1) False by (simp add: csm_Leave_def nc(1))
    then show ?thesis
      using a(2-) keys no0 False
      by (intro exI[of _ "?c\<lparr>cfg_Groups := groups', cfg_Shards := a\<rparr>"]) (simp add: assigned_def Let_def)
  qed
qed

section \<open>No operation panics on a well-formed history\<close>

lemma Join_returns:
  assumes ok: "csm_ok csm"
  shows "\<exists>cfg. csm_Join csm groups = Some (csm\<lparr>Configs := Configs csm @ [cfg]\<rparr>, OK) \<and>
    config_ok cfg \<and> cfg_Num cfg = int (length (Configs csm))"
proof -
  let ?last = "last (Configs csm)"
  let ?G = "join_groups groups (copyGroups (cfg_Groups ?last))"
  let ?c = "\<lparr>cfg_Num = int (length (Configs csm)), cfg_Shards = cfg_Shards ?last, cfg_Groups = ?G\<rparr>"
  note nc = next_config_eq[OF ok]
  have c: "config_ok ?c"
    using nc(2) join_groups_spec(1)[OF copyGroups_spec(1)] by (simp add: config_ok_def)
  obtain m' where m': "rebalance (gidToShards ?c) = Some m'" "partition_ok m'"
    using rebalance_invariant[of "gidToShards ?c" "\<lambda>_. True"] gidToShards_spec(1)[OF c] by blast
  from store_partition[OF m'(2)] obtain a where
    a: "store_shards m' (replicate NShards 0) = Some a" "length a = NShards" by blast
  have "csm_Join csm groups = Some (csm\<lparr>Configs := Configs csm @ [?c\<lparr>cfg_Shards := a\<rparr>]\<rparr>, OK)"
    using m'(1) a(1) by (simp add: csm_Join_def nc(1) Let_def)
  then show ?thesis using c a(2) by (intro exI[of _ "?c\<lparr>cfg_Shards := a\<rparr>"]) (simp add: config_ok_def)
qed

lemma reassign_loop_shards:
  "gomap_ok m \<Longrightarrow> gomap_ok (reassign_loop u m) \<and> shards_of (reassign_loop u m) = shards_of m + mset u"
  by (induction u arbitrary: m) (auto simp: Let_def partition_append)

lemma Leave_returns:
  assumes ok: "csm_ok csm"
  shows "\<exists>cfg. csm_Leave csm gids = Some (csm\<lparr>Configs := Configs csm @ [cfg]\<rparr>, OK) \<and>
    config_ok cfg \<and> cfg_Num cfg = int (length (Configs csm))"
proof -
  let ?last = "last (Configs csm)"
  let ?c = "\<lparr>cfg_Num = int (length (Configs csm)), cfg_Shards = cfg_Shards ?last, cfg_Groups = copyGroups (cfg_Groups ?last)\<rparr>"
  note nc = next_config_eq[OF ok]
  have c: "config_ok ?c" using nc(2) copyGroups_spec(1) by (simp add: config_ok_def)
  have g: "gomap_ok (gidToShards ?c)" "shards_of (gidToShards ?c) = all_shards"
    using gidToShards_spec(1)[OF c] by (simp_all add: partition_ok_def)
  obtain groups' m' u' where lv: "leave_loop gids (cfg_Groups ?c) (gidToShards ?c) [] = (groups', m', u')"
    by (cases "leave_loop gids (cfg_Groups ?c) (gidToShards ?c) []")
  note l = leave_loop_spec[OF g(1) lv]
  have "partition_ok (reassign_loop u' m')"
    using reassign_loop_shards[of m' u'] l g(2) by (simp add: partition_ok_def)
  from store_partition[OF this] obtain a where
    a: "store_shards (reassign_loop u' m') (replicate NShards 0) = Some a" "length a = NShards" by blast
  let ?a = "if groups' = [] then replicate NShards 0 else a"
  have "csm_Leave csm gids = Some (csm\<lparr>Configs := Configs csm @ [?c\<lparr>cfg_Groups := groups', cfg_Shards := ?a\<rparr>]\<rparr>, OK)"
    using lv a(1) by (simp add: csm_Leave_def nc(1))
  then show ?thesis
    using l c a(2) by (intro exI[of _ "?c\<lparr>cfg_Groups := groups', cfg_Shards := ?a\<rparr>"]) (simp add: config_ok_def)
qed

lemma Move_returns:
  assumes ok: "csm_ok csm"
  shows "csm_Move csm shardid gid =
    (if 0 \<le> shardid \<and> shardid < int NShards
     then Some (csm\<lparr>Configs := Configs csm @ [\<lparr>cfg_Num = int (length (Configs csm)),
        cfg_Shards = (cfg_Shards (last (Configs csm)))[nat shardid := gid],
        cfg_Groups = copyGroups (cfg_Groups (last (Configs csm)))\<rparr>]\<rparr>, OK)
     else None)"
  using next_config_eq[OF ok] by (simp add: csm_Move_def go_set_def config_ok_def)

lemma Query_returns:
  assumes ok: "csm_ok csm"
  shows "csm_Query csm num = Some (if num < 0 \<or> num \<ge> int (length (Configs csm)) then last (Configs csm)
    else Configs csm ! nat num, OK)"
  using assms by (auto simp: csm_Query_def csm_ok_def go_nth_def last_conv_nth nat_diff_distrib)

section \<open>Joining nothing\<close>


text \<open>Three groups join the empty controller, one leaves.\<close>

definition three_groups :: "(int, string list) gomap" where
  "three_groups = [(3, [''d'']), (1, [''a'', ''b'']), (2, [''c''])]"

definition three_csm :: CtrlerStateMachine where
  "three_csm = fst (the (csm_Join NewCtrlerStateMachine three_groups))"

theorem Join_balances_witness:
  "\<exists>cfg. csm_Join NewCtrlerStateMachine three_groups = Some (\<lparr>Configs = [DefaultConfig, cfg]\<rparr>, OK) \<and>
     set (cfg_Shards cfg) \<subseteq> {1, 2, 3} \<and> shards_balanced cfg"
proof -
  have "assigned (last (Configs NewCtrlerStateMachine))"
    by (simp add: assigned_def NewCtrlerStateMachine_def DefaultConfig_def NShards_def)
  moreover have "fst ` set three_groups = {1, 2, 3}" by (auto simp: three_groups_def)
  ultimately show ?thesis
    using Join_balances[OF csm_ok_new, of three_groups]
    by (auto simp: NewCtrlerStateMachine_def DefaultConfig_def)
qed

theorem Leave_moves_only_orphans_witness:
  "\<exists>cfg. csm_Leave three_csm [2] = Some (three_csm\<lparr>Configs := Configs three_csm @ [cfg]\<rparr>, OK) \<and>
     fst ` set (cfg_Groups cfg) = {1, 3}"
proof -
  obtain cfg where cfg: "csm_Join NewCtrlerStateMachine three_groups =
      Some (NewCtrlerStateMachine\<lparr>Configs := Configs NewCtrlerStateMachine @ [cfg]\<rparr>, OK)"
      "config_ok cfg" "cfg_Num cfg = int (length (Configs NewCtrlerStateMachine))"
    using Join_returns[OF csm_ok_new] by blast
  then have ok: "csm_ok three_csm"
    using csm_ok_append[OF csm_ok_new] by (simp add: three_csm_def)
  have "fst ` set (cfg_Groups (last (Configs three_csm))) = {1, 2, 3}"
    "set (cfg_Shards (last (Configs three_csm))) = {1, 2, 3}" by code_simp+
  then have "assigned (last (Configs three_csm))" by (simp add: assigned_def)
  from Leave_moves_only_orphans[OF ok this, of "[2]"] obtain cfg where
    "csm_Leave three_csm [2] = Some (three_csm\<lparr>Configs := Configs three_csm @ [cfg]\<rparr>, OK)"
    "fst ` set (cfg_Groups cfg) = fst ` set (cfg_Groups (last (Configs three_csm))) - set [2]" by blast
  moreover have "{1, 2, 3} - set [2] = {1, 3 :: int}" by auto
  ultimately show ?thesis using \<open>fst ` set _ = {1, 2, 3}\<close> by metis
qed

end
