(* ===== verification/Ctrler_Order.thy ===== *)
theory Ctrler_Order
  imports Ctrler_Properties
begin

text \<open>
  Every replica of the shard controller must compute the same configuration although Go iterates
  maps in a random order. Two association lists are the same map when their lookups agree; every
  operation of the state machine is shown to respect this.
\<close>

section \<open>Equal maps\<close>

definition map_eq :: "('k, 'v) gomap \<Rightarrow> ('k, 'v) gomap \<Rightarrow> bool" where
  "map_eq m m' \<longleftrightarrow> gomap_ok m \<and> gomap_ok m' \<and> map_of m = map_of m'"

lemma map_eqD: "map_eq m m' \<Longrightarrow> gomap_ok m \<and> gomap_ok m' \<and> map_of m = map_of m' \<and> mget z m = mget z m'"
  by (auto simp: map_eq_def intro: mget_cong)

lemma map_eq_mget: "map_eq m m' \<Longrightarrow> mget z m = mget z m'"
  by (auto simp: map_eq_def intro: mget_cong)

lemma map_eq_refl: "gomap_ok m \<Longrightarrow> map_eq m m"
  by (simp add: map_eq_def)

lemma map_eq_update: "map_eq m m' \<Longrightarrow> map_eq (AList.update k v m) (AList.update k v m')"
  by (simp add: map_eq_def update_conv')

lemma map_eq_delete: "map_eq m m' \<Longrightarrow> map_eq (AList.delete k m) (AList.delete k m')"
  by (simp add: map_eq_def delete_conv' fun_eq_iff)

lemma map_eq_keys: "map_eq m m' \<Longrightarrow> fst ` set m = fst ` set m'"
  by (metis map_eq_def dom_map_of_conv_image_fst)

lemma sort_keys: "gomap_ok x \<Longrightarrow> sort (map fst x) = sorted_list_of_set (fst ` set x)"
  using sorted_list_of_set_sort_remdups[of "map fst x"] by (simp add: gomap_ok_def distinct_remdups_id)

lemma map_eq_sorted_keys: "map_eq m m' \<Longrightarrow> sort (map fst m) = sort (map fst m')"
  using map_eq_keys[of m m'] by (simp add: map_eq_def sort_keys)

lemma map_eq_mset: "map_eq m m' \<Longrightarrow> mset m = mset m'"
proof -
  assume eq: "map_eq m m'"
  have "distinct m" "distinct m'" using eq by (auto simp: map_eq_def gomap_ok_def distinct_map)
  moreover have "set m = set m'"
    using eq map_of_eq_Some_iff by (fastforce simp: map_eq_def gomap_ok_def)
  ultimately show ?thesis using set_eq_iff_mset_eq_distinct by blast
qed

lemma map_eq_length: "map_eq m m' \<Longrightarrow> length m = length m'"
  using map_eq_mset mset_eq_length by blast

lemma map_eq_shards_of:
  assumes "map_eq m m'"
  shows "shards_of m = shards_of m'"
proof -
  have "shards_of x = (\<Sum>p \<in># mset x. mset (snd p))" for x
    by (induction x) (simp_all add: shards_of_def)
  then show ?thesis using map_eq_mset[OF assms] by simp
qed

lemma map_eq_fold_insert:
  assumes "map_eq m m'" "map_eq xs xs'"
  shows "map_eq (fold (\<lambda>(k, v) m. AList.update k (f v) m) xs m) (fold (\<lambda>(k, v) m. AList.update k (f v) m) xs' m')"
proof -
  have fold_of: "gomap_ok x \<Longrightarrow> gomap_ok xs \<Longrightarrow>
      gomap_ok (fold (\<lambda>(k, v) m. AList.update k (f v) m) xs x) \<and>
      map_of (fold (\<lambda>(k, v) m. AList.update k (f v) m) xs x) = map_of x ++ (map_option f \<circ> map_of xs)"
    for x and xs
  proof (induction xs arbitrary: x)
    case Nil
    then show ?case by (simp add: fun_eq_iff map_add_def)
  next
    case (Cons a xs)
    obtain k v where a: "a = (k, v)" by (cases a)
    have "map_of xs k = None" using Cons.prems(2) by (simp add: a gomap_ok_Cons map_of_eq_None_iff)
    then show ?case
      using Cons by (auto simp: a gomap_ok_Cons update_conv' fun_eq_iff map_add_def split: option.split)
  qed
  show ?thesis using assms fold_of[of m xs] fold_of[of m' xs'] by (simp add: map_eq_def)
qed

section \<open>The steps of the operations\<close>

lemma maxShards_loop_cong: "mget [] m = mget [] m' \<Longrightarrow> maxShards_loop m gids a s = maxShards_loop m' gids a s"
  by (induction gids arbitrary: a s) simp_all

lemma minShards_loop_cong: "mget [] m = mget [] m' \<Longrightarrow> minShards_loop m gids a s = minShards_loop m' gids a s"
  by (induction gids arbitrary: a s) simp_all

lemma gidWith_cong:
  assumes "map_eq m m'"
  shows "gidWithMaxShards m = gidWithMaxShards m'" "gidWithMinShards m = gidWithMinShards m'"
  using map_eqD[OF assms, of "[]"] map_eq_sorted_keys[OF assms]
    maxShards_loop_cong[of m m'] minShards_loop_cong[of m m']
  by (simp_all add: gidWithMaxShards_def gidWithMinShards_def split: option.split)

lemma map_eq_gidToShards_loop:
  "map_eq m m' \<Longrightarrow> map_eq (gidToShards_loop s gs m) (gidToShards_loop s gs m')"
  by (induction gs arbitrary: s m m') (simp_all add: map_eq_update map_eqD[of _ _ "[]"])

lemma map_eq_gidToShards:
  assumes "map_eq (cfg_Groups c) (cfg_Groups c')" "cfg_Shards c = cfg_Shards c'"
  shows "map_eq (gidToShards c) (gidToShards c')"
proof -
  have "map_eq (fold (\<lambda>(gid, _) m. AList.update gid [] m) (cfg_Groups c) [])
      (fold (\<lambda>(gid, _) m. AList.update gid [] m) (cfg_Groups c') ([] :: gid_shards))"
    using map_eq_fold_insert[of "[]" "[]" _ _ "\<lambda>_. []", OF _ assms(1)] by (simp add: map_eq_def)
  then show ?thesis using assms(2) by (simp add: gidToShards_def map_eq_gidToShards_loop)
qed

lemma rebalance_go:
  assumes "\<not> (gidWithMaxShards m \<noteq> 0 \<and> int (nshards m (gidWithMaxShards m)) - int (nshards m (gidWithMinShards m)) \<le> 1)"
  shows "rebalance m =
    (case go_nth (mget [] m (gidWithMaxShards m)) 0 of None \<Rightarrow> None | Some shard \<Rightarrow>
     let m1 = AList.update (gidWithMinShards m) (mget [] m (gidWithMinShards m) @ [shard]) m in
     case go_from (mget [] m1 (gidWithMaxShards m)) 1 of None \<Rightarrow> None | Some rest \<Rightarrow>
     rebalance (AList.update (gidWithMaxShards m) rest m1))"
  by (subst rebalance.simps) (simp only: Let_def if_not_P[OF assms])

lemma map_eq_rebalance:
  assumes "map_eq m m'"
  shows "rel_option map_eq (rebalance m) (rebalance m')"
  using assms
proof (induction m arbitrary: m' rule: rebalance.induct)
  case (1 m)
  have gets: "mget [] m' = mget [] m" using map_eq_mget[OF 1(2)] by simp
  have c: "gidWithMaxShards m' = gidWithMaxShards m" "gidWithMinShards m' = gidWithMinShards m"
    using gidWith_cong[OF 1(2)] by simp_all
  let ?x = "gidWithMaxShards m" and ?n = "gidWithMinShards m"
  show ?case
  proof (cases "?x \<noteq> 0 \<and> int (nshards m ?x) - int (nshards m ?n) \<le> 1")
    case True
    then show ?thesis using 1(2) gets c by (simp add: rebalance.simps[of m] rebalance.simps[of m'] Let_def)
  next
    case go: False
    note go' = rebalance_go[of m', unfolded c gets, OF go]
    show ?thesis
    proof (cases "go_nth (mget [] m ?x) 0")
      case None
      then show ?thesis by (simp add: rebalance_go[OF go] go')
    next
      case shard: (Some shard)
      let ?m1 = "AList.update ?n (mget [] m ?n @ [shard]) m" and ?m1' = "AList.update ?n (mget [] m ?n @ [shard]) m'"
      have m1: "map_eq ?m1 ?m1'" using 1(2) by (rule map_eq_update)
      have g1: "mget [] ?m1' = mget [] ?m1" using map_eq_mget[OF m1] by simp
      have e: "rebalance m = (case go_from (mget [] ?m1 ?x) 1 of None \<Rightarrow> None | Some rest \<Rightarrow> rebalance (AList.update ?x rest ?m1))"
        "rebalance m' = (case go_from (mget [] ?m1 ?x) 1 of None \<Rightarrow> None | Some rest \<Rightarrow> rebalance (AList.update ?x rest ?m1'))"
        unfolding rebalance_go[OF go] go' shard option.case Let_def g1 by (rule refl)+
      show ?thesis
      proof (cases "go_from (mget [] ?m1 ?x) 1")
        case None
        show ?thesis unfolding e None by simp
      next
        case rest: (Some rest)
        have "map_eq (AList.update ?x rest ?m1) (AList.update ?x rest ?m1')" using m1 by (rule map_eq_update)
        from 1(1)[OF refl refl go shard refl rest this] show ?thesis unfolding e rest option.case .
      qed
    qed
  qed
qed

lemma map_eq_reassign: "map_eq m m' \<Longrightarrow> map_eq (reassign_loop u m) (reassign_loop u m')"
  by (induction u arbitrary: m m')
    (simp_all add: Let_def gidWith_cong(2)[of m m' for m m'] map_eq_update map_eqD[of _ _ "[]"])

lemma leave_loop_cong:
  assumes "map_eq g g'" "map_eq m m'"
  shows "\<exists>h h' n n' u'. leave_loop gids g m u = (h, n, u') \<and> leave_loop gids g' m' u = (h', n', u') \<and>
    map_eq h h' \<and> map_eq n n'"
  using assms
proof (induction gids arbitrary: g g' m m' u)
  case Nil
  then show ?case by simp
next
  case (Cons gid gids)
  have eq: "map_of m' gid = map_of m gid" using Cons.prems(2) by (simp add: map_eq_def)
  show ?case
  proof (cases "map_of m gid")
    case None
    then show ?thesis using Cons.IH[OF map_eq_delete[OF Cons.prems(1)] Cons.prems(2)] eq by simp
  next
    case (Some ss)
    then show ?thesis
      using Cons.IH[OF map_eq_delete[OF Cons.prems(1)] map_eq_delete[OF Cons.prems(2)]] eq by simp
  qed
qed

text \<open>Storing a partition does not depend on the order.\<close>

lemma store_cong:
  assumes "map_eq m m'" "partition_ok m"
  shows "store_shards m (replicate NShards 0) = store_shards m' (replicate NShards 0)"
proof -
  have p': "partition_ok m'" using assms map_eq_shards_of[OF assms(1)] by (simp add: partition_ok_def map_eq_def)
  from store_partition[OF assms(2)] obtain a where a: "store_shards m (replicate NShards 0) = Some a"
    "length a = NShards" "\<forall>g. \<forall>i<NShards. a ! i = g \<longleftrightarrow> int i \<in> set (mget [] m g)" by blast
  from store_partition[OF p'] obtain a' where a': "store_shards m' (replicate NShards 0) = Some a'"
    "length a' = NShards" "\<forall>g. \<forall>i<NShards. a' ! i = g \<longleftrightarrow> int i \<in> set (mget [] m' g)" by blast
  have "mget [] m = mget [] m'" using map_eqD[OF assms(1)] by blast
  with a(3) a'(3) have "a ! i = a' ! i" if "i < NShards" for i using that by metis
  with a(2) a'(2) have "a = a'" by (simp add: list_eq_iff_nth_eq)
  with a(1) a'(1) show ?thesis by simp
qed

section \<open>The operations\<close>

definition cfg_eq :: "Config \<Rightarrow> Config \<Rightarrow> bool" where
  "cfg_eq c c' \<longleftrightarrow> cfg_Num c = cfg_Num c' \<and> cfg_Shards c = cfg_Shards c' \<and> map_eq (cfg_Groups c) (cfg_Groups c')"

definition csm_eq :: "CtrlerStateMachine \<Rightarrow> CtrlerStateMachine \<Rightarrow> bool" where
  "csm_eq csm csm' \<longleftrightarrow> list_all2 cfg_eq (Configs csm) (Configs csm')"

lemma map_eq_copyGroups: "map_eq g g' \<Longrightarrow> map_eq (copyGroups g) (copyGroups g')"
  using copyGroups_spec by (simp add: map_eq_def)

lemma map_eq_join_groups:
  assumes "map_eq n n'" "map_eq g g'"
  shows "map_eq (join_groups n g) (join_groups n' g')"
proof -
  have ok: "gomap_ok g" "gomap_ok g'" "map_of g = map_of g'" "map_of n = map_of n'"
    using assms by (auto simp: map_eq_def)
  have "map_of (join_groups n g) k = map_of (join_groups n' g') k" for k
    using join_groups_spec(3,4)[OF ok(1), of k n] join_groups_spec(3,4)[OF ok(2), of k n'] ok(3,4)
    by (cases "map_of g k") simp_all
  then show ?thesis using join_groups_spec(1)[OF ok(1)] join_groups_spec(1)[OF ok(2)] by (simp add: map_eq_def fun_eq_iff)
qed

lemma next_config_cong:
  assumes "csm_ok csm" "csm_ok csm'" "csm_eq csm csm'"
  shows "\<exists>c c'. next_config csm = Some c \<and> next_config csm' = Some c' \<and> cfg_eq c c' \<and> config_ok c"
proof -
  have l: "length (Configs csm) = length (Configs csm')" using assms(3) by (simp add: csm_eq_def list_all2_lengthD)
  have ne: "Configs csm \<noteq> []" "Configs csm' \<noteq> []" using assms by (auto simp: csm_ok_def)
  then have "cfg_eq (last (Configs csm)) (last (Configs csm'))"
    using assms(3) l by (simp add: csm_eq_def list_all2_conv_all_nth last_conv_nth)
  then show ?thesis
    using next_config_eq[OF assms(1)] next_config_eq[OF assms(2)] l copyGroups_spec(1)
    by (simp add: cfg_eq_def config_ok_def map_eq_copyGroups)
qed

lemma csm_eq_append:
  "csm_eq csm csm' \<Longrightarrow> cfg_eq c c' \<Longrightarrow>
     csm_eq (csm\<lparr>Configs := Configs csm @ [c]\<rparr>) (csm'\<lparr>Configs := Configs csm' @ [c']\<rparr>)"
  by (simp add: csm_eq_def list_all2_appendI)

lemma Join_cong:
  assumes "csm_ok csm" "csm_ok csm'" "csm_eq csm csm'" "map_eq groups groups'"
  shows "rel_option (rel_prod csm_eq (=)) (csm_Join csm groups) (csm_Join csm' groups')"
proof -
  from next_config_cong[OF assms(1-3)] obtain c c' where
    c: "next_config csm = Some c" "next_config csm' = Some c'" "cfg_eq c c'" "config_ok c" by blast
  let ?c = "c\<lparr>cfg_Groups := join_groups groups (cfg_Groups c)\<rparr>"
  let ?c' = "c'\<lparr>cfg_Groups := join_groups groups' (cfg_Groups c')\<rparr>"
  have G: "map_eq (cfg_Groups ?c) (cfg_Groups ?c')"
    using c(3) assms(4) by (simp add: cfg_eq_def map_eq_join_groups)
  have ok: "config_ok ?c" using c(4) join_groups_spec(1) by (simp add: config_ok_def)
  have "rel_option map_eq (rebalance (gidToShards ?c)) (rebalance (gidToShards ?c'))"
    using G c(3) by (intro map_eq_rebalance map_eq_gidToShards) (simp_all add: cfg_eq_def)
  moreover obtain m where m: "rebalance (gidToShards ?c) = Some m" "partition_ok m"
    using rebalance_invariant[of "gidToShards ?c" "\<lambda>_. True"] gidToShards_spec(1)[OF ok] by blast
  ultimately obtain m' where m': "rebalance (gidToShards ?c') = Some m'" "map_eq m m'"
    by (auto simp: option_rel_Some1)
  from store_partition[OF m(2)] obtain a where a: "store_shards m (replicate NShards 0) = Some a" by blast
  with store_cong[OF m'(2) m(2)] have a': "store_shards m' (replicate NShards 0) = Some a" by simp
  show ?thesis
    using c m(1) m'(1) a a' G csm_eq_append[OF assms(3), of "?c\<lparr>cfg_Shards := a\<rparr>" "?c'\<lparr>cfg_Shards := a\<rparr>"]
    by (simp add: csm_Join_def cfg_eq_def)
qed

lemma Leave_cong:
  assumes "csm_ok csm" "csm_ok csm'" "csm_eq csm csm'"
  shows "rel_option (rel_prod csm_eq (=)) (csm_Leave csm gids) (csm_Leave csm' gids)"
proof -
  from next_config_cong[OF assms] obtain c c' where
    c: "next_config csm = Some c" "next_config csm' = Some c'" "cfg_eq c c'" "config_ok c" by blast
  have m: "map_eq (gidToShards c) (gidToShards c')" "map_eq (cfg_Groups c) (cfg_Groups c')"
    using c(3) map_eq_gidToShards by (auto simp: cfg_eq_def)
  from leave_loop_cong[OF m(2,1), of gids "[]"] obtain h h' n n' u where
    l: "leave_loop gids (cfg_Groups c) (gidToShards c) [] = (h, n, u)"
      "leave_loop gids (cfg_Groups c') (gidToShards c') [] = (h', n', u)" "map_eq h h'" "map_eq n n'" by blast
  have g: "gomap_ok (gidToShards c)" "shards_of (gidToShards c) = all_shards"
    using gidToShards_spec(1)[OF c(4)] by (simp_all add: partition_ok_def)
  have p: "partition_ok (reassign_loop u n)"
    using reassign_loop_shards[of n u] leave_loop_spec[OF g(1) l(1)] g(2) by (simp add: partition_ok_def)
  from store_partition[OF p] obtain a where a: "store_shards (reassign_loop u n) (replicate NShards 0) = Some a" by blast
  with store_cong[OF map_eq_reassign[OF l(4)] p] have
    a': "store_shards (reassign_loop u n') (replicate NShards 0) = Some a" by simp
  have len: "length h' = length h" using map_eq_length[OF l(3)] by simp
  show ?thesis
    using c l(1-3) a a' len csm_eq_append[OF assms(3), of "c\<lparr>cfg_Groups := h, cfg_Shards := b\<rparr>"
        "c'\<lparr>cfg_Groups := h', cfg_Shards := b\<rparr>" for b]
    by (cases "h = []") (auto simp: csm_Leave_def cfg_eq_def)
qed

text \<open>C10. The new configuration does not depend on Go's iteration order: two replicas whose histories
  are the same up to the order of their maps, and that apply the same \<open>Join\<close> or \<open>Leave\<close>, again have
  the same history up to the order of the maps. In particular they assign every shard to the same
  group.\<close>

theorem replicas_agree:
  assumes "csm_ok csm" "csm_ok csm'" "csm_eq csm csm'" "map_eq groups groups'"
  shows "rel_option (rel_prod csm_eq (=)) (csm_Join csm groups) (csm_Join csm' groups') \<and>
    rel_option (rel_prod csm_eq (=)) (csm_Leave csm gids) (csm_Leave csm' gids)"
  using Join_cong[OF assms] Leave_cong[OF assms(1-3)] by blast

definition demo_groups :: "(int, string list) gomap" where
  "demo_groups = [(1, [''a'', ''b'']), (2, [''c'']), (3, [''d''])]"

theorem replicas_agree_witness:
  "rel_option (rel_prod csm_eq (=)) (csm_Join NewCtrlerStateMachine demo_groups)
     (csm_Join NewCtrlerStateMachine (rev demo_groups))"
proof -
  have "map_eq demo_groups (rev demo_groups)"
    by (auto simp: map_eq_def gomap_ok_def demo_groups_def fun_eq_iff)
  moreover have "csm_eq NewCtrlerStateMachine NewCtrlerStateMachine"
    by (simp add: csm_eq_def NewCtrlerStateMachine_def DefaultConfig_def cfg_eq_def map_eq_def)
  ultimately show ?thesis using replicas_agree[OF csm_ok_new csm_ok_new] by blast
qed

end
