(* ===== verification/Ctrler_Server.thy ===== *)
theory Ctrler_Server
  imports Service_Common Ctrler_State_Machine Raft_Handlers
begin

text \<open>
  The shard controller's server, \<open>shardctrler/server.go\<close> and the data of \<open>shardctrler/common.go\<close>: the
  same shape as the key/value server, over the controller's state machine and without snapshots.
  A request is cut where it waits for its channel. \<^const>\<open>None\<close> is a panic, or a goroutine that
  blocks for ever in a send.
\<close>

section \<open>Data\<close>

datatype ScOperationType = OpJoin | OpLeave | OpMove | OpQuery

record ScOp =
  so_Servers :: "(int, string list) gomap"
  so_GIDs :: "int list"
  so_Shard :: int
  so_GID :: int
  so_Num :: int
  so_OpType :: ScOperationType
  so_ClientId :: int
  so_SeqId :: int

text \<open>The zero value, from which the handlers' literals start.\<close>

definition ScOp_zero :: ScOp where
  "ScOp_zero = \<lparr>so_Servers = [], so_GIDs = [], so_Shard = 0, so_GID = 0, so_Num = 0, so_OpType = OpJoin,
     so_ClientId = 0, so_SeqId = 0\<rparr>"

definition Config_zero :: Config where
  "Config_zero = \<lparr>cfg_Num = 0, cfg_Shards = replicate NShards 0, cfg_Groups = []\<rparr>"

record ScOpReply =
  sr_Config :: Config
  sr_Err :: Err

record ScLastOperationInfo =
  sl_SeqId :: int
  sl_Reply :: ScOpReply

record JoinArgs =
  ja_Servers :: "(int, string list) gomap"
  ja_ClientId :: int
  ja_SeqId :: int

record LeaveArgs =
  la_GIDs :: "int list"
  la_ClientId :: int
  la_SeqId :: int

record MoveArgs =
  ma_Shard :: int
  ma_GID :: int
  ma_ClientId :: int
  ma_SeqId :: int

record 'b ShardCtrler =
  sc_me :: nat
  sc_rf :: "(ScOp, 'b) raft"
  sc_configs :: "Config list"
  sc_dead :: bool
  sc_lastApplied :: int
  sc_stateMachine :: CtrlerStateMachine
  sc_notifyChans :: "ScOpReply chans"
  sc_duplicateTable :: "int \<Rightarrow> ScLastOperationInfo option"

section \<open>Requests\<close>

definition sc_requestDuplicated :: "(int \<Rightarrow> ScLastOperationInfo option) \<Rightarrow> int \<Rightarrow> int \<Rightarrow> bool" where
  "sc_requestDuplicated t clientId seqId = (case t clientId of Some info \<Rightarrow> seqId \<le> sl_SeqId info | None \<Rightarrow> False)"

text \<open>\<open>command\<close> up to the wait: the reply, or the log index whose channel to wait on.\<close>

definition sc_command ::
    "(ScOp, 'b) codec \<Rightarrow> 'b ShardCtrler \<Rightarrow> ScOp \<Rightarrow> ('b ShardCtrler \<times> (ScOpReply + int)) option" where
  "sc_command cd sc args =
     (if so_OpType args \<noteq> OpQuery \<and> sc_requestDuplicated (sc_duplicateTable sc) (so_ClientId args) (so_SeqId args)
      then do { info \<leftarrow> sc_duplicateTable sc (so_ClientId args);
                Some (sc, Inl \<lparr>sr_Config = Config_zero, sr_Err = sr_Err (sl_Reply info)\<rparr>) }
      else
        let (rf', index, _, isLeader) = Start cd (sc_rf sc) args;
            sc' = sc\<lparr>sc_rf := rf'\<rparr>
        in Some (if \<not> isLeader then (sc', Inl \<lparr>sr_Config = Config_zero, sr_Err = ErrWrongLeader\<rparr>)
                 else (sc', Inr index)))"

definition sc_Join :: "(ScOp, 'b) codec \<Rightarrow> 'b ShardCtrler \<Rightarrow> JoinArgs \<Rightarrow> ('b ShardCtrler \<times> (ScOpReply + int)) option" where
  "sc_Join cd sc args = sc_command cd sc (ScOp_zero\<lparr>so_OpType := OpJoin, so_ClientId := ja_ClientId args,
     so_SeqId := ja_SeqId args, so_Servers := ja_Servers args\<rparr>)"

definition sc_Leave :: "(ScOp, 'b) codec \<Rightarrow> 'b ShardCtrler \<Rightarrow> LeaveArgs \<Rightarrow> ('b ShardCtrler \<times> (ScOpReply + int)) option" where
  "sc_Leave cd sc args = sc_command cd sc (ScOp_zero\<lparr>so_OpType := OpLeave, so_ClientId := la_ClientId args,
     so_SeqId := la_SeqId args, so_GIDs := la_GIDs args\<rparr>)"

definition sc_Move :: "(ScOp, 'b) codec \<Rightarrow> 'b ShardCtrler \<Rightarrow> MoveArgs \<Rightarrow> ('b ShardCtrler \<times> (ScOpReply + int)) option" where
  "sc_Move cd sc args = sc_command cd sc (ScOp_zero\<lparr>so_OpType := OpMove, so_ClientId := ma_ClientId args,
     so_SeqId := ma_SeqId args, so_Shard := ma_Shard args, so_GID := ma_GID args\<rparr>)"

definition sc_Query :: "(ScOp, 'b) codec \<Rightarrow> 'b ShardCtrler \<Rightarrow> int \<Rightarrow> ('b ShardCtrler \<times> (ScOpReply + int)) option" where
  "sc_Query cd sc num = sc_command cd sc (ScOp_zero\<lparr>so_OpType := OpQuery, so_Num := num\<rparr>)"

text \<open>The second half of \<open>command\<close>: the channel, its result or the timeout, and the removal.\<close>

definition sc_await :: "'b ShardCtrler \<Rightarrow> int \<Rightarrow> 'b ShardCtrler \<times> nat" where
  "sc_await sc index =
     (let (c, a) = getNotifyChannel (sc_notifyChans sc) index in (sc\<lparr>sc_notifyChans := c\<rparr>, a))"

definition sc_result :: "'b ShardCtrler \<Rightarrow> nat \<Rightarrow> ('b ShardCtrler \<times> ScOpReply) option" where
  "sc_result sc a = do { (c, r) \<leftarrow> chan_recv (sc_notifyChans sc) a; Some (sc\<lparr>sc_notifyChans := c\<rparr>, r) }"

definition sc_forget :: "'b ShardCtrler \<Rightarrow> int \<Rightarrow> 'b ShardCtrler" where
  "sc_forget sc index = sc\<lparr>sc_notifyChans := removeNotifyChannel (sc_notifyChans sc) index\<rparr>"

definition sc_Kill :: "'b ShardCtrler \<Rightarrow> 'b ShardCtrler" where
  "sc_Kill sc = sc\<lparr>sc_dead := True, sc_rf := Kill (sc_rf sc)\<rparr>"

definition sc_killed :: "'b ShardCtrler \<Rightarrow> bool" where
  "sc_killed sc = sc_dead sc"

definition sc_StartServer :: "(ScOp, 'b) codec \<Rightarrow> nat \<Rightarrow> nat \<Rightarrow> 'b persister \<Rightarrow> 'b ShardCtrler" where
  "sc_StartServer cd servers i ps =
     \<lparr>sc_me = i, sc_rf = Make cd servers i ps, sc_configs = [Config_zero], sc_dead = False, sc_lastApplied = 0,
      sc_stateMachine = NewCtrlerStateMachine, sc_notifyChans = chans_empty, sc_duplicateTable = (\<lambda>_. None)\<rparr>"

section \<open>Applying\<close>

definition sc_applyToStateMachine :: "CtrlerStateMachine \<Rightarrow> ScOp \<Rightarrow> (CtrlerStateMachine \<times> ScOpReply) option" where
  "sc_applyToStateMachine sm oper =
     (case so_OpType oper of
        OpQuery \<Rightarrow> do { (cfg, err) \<leftarrow> csm_Query sm (so_Num oper); Some (sm, \<lparr>sr_Config = cfg, sr_Err = err\<rparr>) }
      | OpJoin \<Rightarrow> do { (sm', err) \<leftarrow> csm_Join sm (so_Servers oper); Some (sm', \<lparr>sr_Config = Config_zero, sr_Err = err\<rparr>) }
      | OpLeave \<Rightarrow> do { (sm', err) \<leftarrow> csm_Leave sm (so_GIDs oper); Some (sm', \<lparr>sr_Config = Config_zero, sr_Err = err\<rparr>) }
      | OpMove \<Rightarrow> do { (sm', err) \<leftarrow> csm_Move sm (so_Shard oper) (so_GID oper);
                       Some (sm', \<lparr>sr_Config = Config_zero, sr_Err = err\<rparr>) })"

definition sc_execute :: "'b ShardCtrler \<Rightarrow> ScOp \<Rightarrow> ('b ShardCtrler \<times> ScOpReply) option" where
  "sc_execute sc oper =
     (if so_OpType oper \<noteq> OpQuery \<and> sc_requestDuplicated (sc_duplicateTable sc) (so_ClientId oper) (so_SeqId oper)
      then do { info \<leftarrow> sc_duplicateTable sc (so_ClientId oper); Some (sc, sl_Reply info) }
      else do {
        (sm, opReply) \<leftarrow> sc_applyToStateMachine (sc_stateMachine sc) oper;
        (let sc1 = sc\<lparr>sc_stateMachine := sm\<rparr>
         in Some (if so_OpType oper \<noteq> OpQuery
                  then sc1\<lparr>sc_duplicateTable := (sc_duplicateTable sc1)(so_ClientId oper \<mapsto>
                         \<lparr>sl_SeqId = so_SeqId oper, sl_Reply = opReply\<rparr>)\<rparr>
                  else sc1, opReply)) })"

definition sc_notify :: "'b ShardCtrler \<Rightarrow> int \<Rightarrow> ScOpReply \<Rightarrow> 'b ShardCtrler option" where
  "sc_notify sc index opReply =
     (if snd (GetState (sc_rf sc)) then
        let (c, a) = getNotifyChannel (sc_notifyChans sc) index
        in do { c' \<leftarrow> chan_send c a opReply; Some (sc\<lparr>sc_notifyChans := c'\<rparr>) }
      else Some sc)"

text \<open>One message of \<open>applyTask\<close>; a message without a command is ignored.\<close>

definition sc_applyTask :: "'b ShardCtrler \<Rightarrow> (ScOp, 'b) ApplyMsg \<Rightarrow> 'b ShardCtrler option" where
  "sc_applyTask sc message =
     (if am_CommandValid message then
        if am_CommandIndex message \<le> sc_lastApplied sc then Some sc
        else do {
          oper \<leftarrow> am_Command message;
          (sc1, opReply) \<leftarrow> sc_execute (sc\<lparr>sc_lastApplied := am_CommandIndex message\<rparr>) oper;
          sc_notify sc1 (am_CommandIndex message) opReply }
      else Some sc)"

end
