(* ===== verification/Ctrler_Service.thy ===== *)
theory Ctrler_Service
  imports Ctrler_Server Ctrler_Properties
begin

text \<open>
  Correctness of the shard controller's server: the duplicate table meets the contract of
  \<open>Service_Common\<close>, the history of configurations only grows, one configuration per operation
  however often it is retried, and the apply loop never blocks.
\<close>

section \<open>Exactly once\<close>

definition sc_dup :: "'b ShardCtrler \<Rightarrow> int \<Rightarrow> (int \<times> ScOpReply) option" where
  "sc_dup sc c = map_option (\<lambda>info. (sl_SeqId info, sl_Reply info)) (sc_duplicateTable sc c)"

interpretation scd: dedup_static sc_applyToStateMachine "\<lambda>oper. so_OpType oper \<noteq> OpQuery"
  so_ClientId so_SeqId sc_execute sc_stateMachine sc_dup
proof (unfold_locales, goal_cases)
  case (1 sc oper n r)
  then show ?case by (auto simp: sc_execute_def sc_requestDuplicated_def sc_dup_def)
next
  case (2 sc oper x r)
  have "\<not> sc_requestDuplicated (sc_duplicateTable sc) (so_ClientId oper) (so_SeqId oper)"
    using 2(2) by (fastforce simp: sc_requestDuplicated_def sc_dup_def split: option.splits)
  with 2(1,3) show ?case by (auto simp: sc_execute_def sc_dup_def fun_eq_iff)
next
  case (3 sc oper x r)
  then show ?case by (auto simp: sc_execute_def sc_dup_def fun_eq_iff)
next
  case (4 sc oper)
  then show ?case
    by (fastforce simp: sc_execute_def sc_requestDuplicated_def sc_dup_def split: option.splits)
qed

abbreviation sc_effective :: "(int \<Rightarrow> int option) \<Rightarrow> ScOp list \<Rightarrow> ScOp list" where
  "sc_effective \<equiv> effective (\<lambda>oper. so_OpType oper \<noteq> OpQuery) so_ClientId so_SeqId"

primrec sc_run :: "'b ShardCtrler \<Rightarrow> ScOp list \<Rightarrow> ('b ShardCtrler \<times> ScOpReply list) option" where
  "sc_run sc [] = Some (sc, [])"
| "sc_run sc (oper # opers) =
     do { (sc1, r) \<leftarrow> sc_execute sc oper; (sc2, rs) \<leftarrow> sc_run sc1 opers; Some (sc2, r # rs) }"

lemma sc_run_eq: "sc_run sc opers = scd.run sc opers"
  by (induction opers arbitrary: sc) simp_all

section \<open>The history of configurations\<close>

text \<open>An operation that does not panic: only \<open>Move\<close> indexes an array with a client's value.\<close>

definition op_in_range :: "ScOp \<Rightarrow> bool" where
  "op_in_range oper \<longleftrightarrow> so_OpType oper = OpMove \<longrightarrow> 0 \<le> so_Shard oper \<and> so_Shard oper < int NShards"

lemma sc_apply_grows:
  assumes "csm_ok sm" "op_in_range oper"
  shows "\<exists>sm' r cfgs. sc_applyToStateMachine sm oper = Some (sm', r) \<and> csm_ok sm' \<and> sr_Err r = OK \<and>
    Configs sm' = Configs sm @ cfgs \<and> length cfgs = (if so_OpType oper = OpQuery then 0 else 1)"
proof (cases "so_OpType oper")
  case OpJoin
  from Join_returns[OF assms(1), of "so_Servers oper"] csm_ok_append[OF assms(1)] OpJoin show ?thesis
    by (auto simp: sc_applyToStateMachine_def)
next
  case OpLeave
  from Leave_returns[OF assms(1), of "so_GIDs oper"] csm_ok_append[OF assms(1)] OpLeave show ?thesis
    by (auto simp: sc_applyToStateMachine_def)
next
  case OpMove
  let ?c = "\<lparr>cfg_Num = int (length (Configs sm)),
    cfg_Shards = (cfg_Shards (last (Configs sm)))[nat (so_Shard oper) := so_GID oper],
    cfg_Groups = copyGroups (cfg_Groups (last (Configs sm)))\<rparr>"
  have "config_ok ?c"
    using next_config_eq[OF assms(1)] copyGroups_spec(1) by (simp add: config_ok_def)
  with Move_returns[OF assms(1)] csm_ok_append[OF assms(1), of ?c] OpMove assms(2) show ?thesis
    by (auto simp: sc_applyToStateMachine_def op_in_range_def)
next
  case OpQuery
  with Query_returns[OF assms(1)] assms(1) show ?thesis by (auto simp: sc_applyToStateMachine_def)
qed

lemma sc_execute_grows:
  assumes "csm_ok (sc_stateMachine sc)" "op_in_range oper"
  shows "\<exists>sc' r. sc_execute sc oper = Some (sc', r) \<and> csm_ok (sc_stateMachine sc')"
  using sc_apply_grows[OF assms] assms(1)
  by (auto simp: sc_execute_def sc_requestDuplicated_def Let_def split: option.splits)

lemma sc_run_total:
  assumes "csm_ok (sc_stateMachine sc)" "\<forall>oper \<in> set opers. op_in_range oper"
  shows "\<exists>sc' rs. sc_run sc opers = Some (sc', rs)"
  using assms
proof (induction opers arbitrary: sc)
  case Nil
  then show ?case by simp
next
  case (Cons oper opers)
  from Cons.prems sc_execute_grows obtain sc1 r where
    ex: "sc_execute sc oper = Some (sc1, r)" "csm_ok (sc_stateMachine sc1)" by fastforce
  from Cons.IH[OF ex(2)] Cons.prems obtain sc2 rs where "sc_run sc1 opers = Some (sc2, rs)" by auto
  with ex(1) show ?case by simp
qed

lemma steps_grow:
  assumes "csm_ok sm" "\<forall>oper \<in> set opers. op_in_range oper"
  shows "\<exists>sm' cfgs. steps sc_applyToStateMachine sm opers = Some sm' \<and> csm_ok sm' \<and> Configs sm' = Configs sm @ cfgs \<and>
    length cfgs = length (filter (\<lambda>oper. so_OpType oper \<noteq> OpQuery) opers)"
  using assms
proof (induction opers arbitrary: sm)
  case Nil
  then show ?case by simp
next
  case (Cons oper opers)
  from sc_apply_grows[OF Cons.prems(1)] Cons.prems(2) obtain sm1 r c1 where
    s1: "sc_applyToStateMachine sm oper = Some (sm1, r)" "csm_ok sm1" "Configs sm1 = Configs sm @ c1"
      "length c1 = (if so_OpType oper = OpQuery then 0 else 1)" by (metis list.set_intros(1))
  from Cons.IH[OF s1(2)] Cons.prems(2) obtain sm2 c2 where
    s2: "steps sc_applyToStateMachine sm1 opers = Some sm2" "csm_ok sm2" "Configs sm2 = Configs sm1 @ c2"
      "length c2 = length (filter (\<lambda>oper. so_OpType oper \<noteq> OpQuery) opers)" by auto
  from s1 s2 show ?case by (intro exI[of _ sm2] exI[of _ "c1 @ c2"]) auto
qed

lemma effective_subset: "set (effective wr client seqno seen ps) \<subseteq> set ps"
proof (induction ps arbitrary: seen)
  case (Cons p ps)
  then show ?case using Cons[of seen] Cons[of "seen(client p \<mapsto> seqno p)"] by (auto simp del: fun_upd_apply)
qed simp

text \<open>C19. The history of configurations only grows: whatever log of operations a controller applies, with
  retries and duplicates, and with shard numbers of \<open>Move\<close> in range, it never panics, every earlier
  configuration stays as it was, the configurations stay numbered by their position, and each
  \<open>Join\<close>, \<open>Leave\<close> or \<open>Move\<close> that takes effect adds exactly one configuration, once.\<close>

theorem config_history:
  assumes "csm_ok (sc_stateMachine sc)" "\<forall>oper \<in> set opers. op_in_range oper"
  shows "\<exists>sc' rs cfgs. sc_run sc opers = Some (sc', rs) \<and>
    Configs (sc_stateMachine sc') = Configs (sc_stateMachine sc) @ cfgs \<and> csm_ok (sc_stateMachine sc') \<and>
    length cfgs = length (filter (\<lambda>oper. so_OpType oper \<noteq> OpQuery) (sc_effective (seen_of (sc_dup sc)) opers)) \<and>
    distinct (map (\<lambda>oper. (so_ClientId oper, so_SeqId oper))
      (filter (\<lambda>oper. so_OpType oper \<noteq> OpQuery) (sc_effective (seen_of (sc_dup sc)) opers)))"
proof -
  from sc_run_total[OF assms] obtain sc' rs where run: "sc_run sc opers = Some (sc', rs)" by blast
  have "\<forall>oper \<in> set (sc_effective (seen_of (sc_dup sc)) opers). op_in_range oper"
    using assms(2) by (auto dest!: subsetD[OF effective_subset])
  from steps_grow[OF assms(1) this] scd.run_effective[of sc opers sc' rs] run obtain cfgs where
    "Configs (sc_stateMachine sc') = Configs (sc_stateMachine sc) @ cfgs" "csm_ok (sc_stateMachine sc')"
    "length cfgs = length (filter (\<lambda>oper. so_OpType oper \<noteq> OpQuery) (sc_effective (seen_of (sc_dup sc)) opers))"
    by (auto simp: sc_run_eq)
  with run effective_distinct show ?thesis by blast
qed

text \<open>Client 5 joins group 1, twice because of a retry, then moves shard 3.\<close>

definition demo_join :: ScOp where
  "demo_join = ScOp_zero\<lparr>so_OpType := OpJoin, so_Servers := [(1, [''a''])], so_ClientId := 5, so_SeqId := 0\<rparr>"

definition demo_move :: ScOp where
  "demo_move = ScOp_zero\<lparr>so_OpType := OpMove, so_Shard := 3, so_GID := 1, so_ClientId := 5, so_SeqId := 1\<rparr>"

definition demo_sc :: "ScOp gob ShardCtrler" where
  "demo_sc = sc_StartServer cell_codec 3 0 MakePersister"

theorem config_history_witness:
  "\<exists>sc' rs cfgs. sc_run demo_sc [demo_join, demo_join, demo_move] = Some (sc', rs) \<and>
     Configs (sc_stateMachine sc') = DefaultConfig # cfgs \<and> length cfgs = 2"
proof -
  have "csm_ok (sc_stateMachine demo_sc)" by (simp add: demo_sc_def sc_StartServer_def csm_ok_new)
  moreover have "\<forall>oper \<in> set [demo_join, demo_join, demo_move]. op_in_range oper"
    by (simp add: op_in_range_def demo_join_def demo_move_def NShards_def)
  moreover have "length (filter (\<lambda>oper. so_OpType oper \<noteq> OpQuery)
      (sc_effective (seen_of (sc_dup demo_sc)) [demo_join, demo_join, demo_move])) = 2"
    by (simp add: demo_join_def demo_move_def ScOp_zero_def seen_of_def sc_dup_def demo_sc_def sc_StartServer_def)
  moreover have "Configs (sc_stateMachine demo_sc) = [DefaultConfig]"
    by (simp add: demo_sc_def sc_StartServer_def NewCtrlerStateMachine_def)
  ultimately show ?thesis
    using config_history[of demo_sc "[demo_join, demo_join, demo_move]"] by fastforce
qed

end
