(* ===== verification/Shard_KV.thy ===== *)
theory Shard_KV
  imports KV_Server Ctrler_State_Machine
begin

text \<open>
  The sharded key/value server, \<open>shardkv\<close>: \<open>common.go\<close>, \<open>state_machine.go\<close>, \<open>server.go\<close>, \<open>task.go\<close> and
  \<open>conf_change.go\<close>. The package repeats the operations, replies and duplicate table of \<open>kvraft\<close>, which
  are taken from \<open>KV_Server\<close>. Goroutines are cut where they wait: at a channel, at a call to the shard
  controller and at a call to another group.

  \<open>kv.shards\<close> is iterated, so it is an association list, in the order of the iteration; so is the
  shard data of a migration. The contents of a shard and the duplicate table are only copied key by
  key, which does not depend on the order; they are maps. \<^const>\<open>None\<close> is a panic, or a goroutine that
  blocks for ever in a send.
\<close>

section \<open>Data\<close>

datatype ShardStatus = Normal | MoveIn | MoveOut | GC

record ShardOperationArgs =
  soa_ConfigNum :: int
  soa_ShardIds :: "int list"

record ShardOperationReply =
  sor_Err :: Err
  sor_ConfigNum :: int
  sor_ShardData :: "(int, string \<Rightarrow> string option) gomap"
  sor_DuplicateTable :: dup_table

text \<open>\<open>RaftCommand\<close>: the type tag together with the data of that type.\<close>

datatype RaftCommand =
    ClientOpeartion Op
  | ConfigChange Config
  | ShardMigration ShardOperationReply
  | ShardGC ShardOperationArgs

definition copyInfo :: "LastOperationInfo \<Rightarrow> LastOperationInfo" where
  "copyInfo info = \<lparr>lo_SeqId = lo_SeqId info,
     lo_Reply = \<lparr>or_Value = or_Value (lo_Reply info), or_Err = or_Err (lo_Reply info)\<rparr>\<rparr>"

definition key2shard :: "string \<Rightarrow> int" where
  "key2shard key = (case key of [] \<Rightarrow> 0 | c # _ \<Rightarrow> of_char c) mod int NShards"

section \<open>The state machine of a shard\<close>

record ShardStateMachine =
  sm_KV :: "string \<Rightarrow> string option"
  sm_Status :: ShardStatus

definition NewShardStateMachine :: ShardStateMachine where
  "NewShardStateMachine = \<lparr>sm_KV = (\<lambda>_. None), sm_Status = Normal\<rparr>"

definition shard_Get :: "ShardStateMachine \<Rightarrow> string \<Rightarrow> string \<times> Err" where
  "shard_Get s key = (case sm_KV s key of Some value \<Rightarrow> (value, OK) | None \<Rightarrow> ([], ErrNoKey))"

definition shard_Put :: "ShardStateMachine \<Rightarrow> string \<Rightarrow> string \<Rightarrow> ShardStateMachine \<times> Err" where
  "shard_Put s key value = (s\<lparr>sm_KV := (sm_KV s)(key \<mapsto> value)\<rparr>, OK)"

definition shard_Append :: "ShardStateMachine \<Rightarrow> string \<Rightarrow> string \<Rightarrow> ShardStateMachine \<times> Err" where
  "shard_Append s key value =
     (s\<lparr>sm_KV := (sm_KV s)(key \<mapsto> (case sm_KV s key of Some v \<Rightarrow> v | None \<Rightarrow> []) @ value)\<rparr>, OK)"

definition shard_copyData :: "ShardStateMachine \<Rightarrow> string \<Rightarrow> string option" where
  "shard_copyData s = (\<lambda>_. None) ++ sm_KV s"

interpretation shard: kv_store shard_Get shard_Put shard_Append
  by unfold_locales (auto simp: shard_Get_def shard_Put_def shard_Append_def split: option.splits)

section \<open>The server\<close>

record 'b ShardKV =
  sk_me :: nat
  sk_rf :: "(RaftCommand, 'b) raft"
  sk_gid :: int
  sk_maxraftstate :: int
  sk_dead :: bool
  sk_lastApplied :: int
  sk_shards :: "(int, ShardStateMachine) gomap"
  sk_notifyChans :: "OpReply chans"
  sk_duplicateTable :: dup_table
  sk_currentConfig :: Config
  sk_prevConfig :: Config

definition matchGroup :: "'b ShardKV \<Rightarrow> string \<Rightarrow> bool option" where
  "matchGroup kv key =
     (let shard = key2shard key in
      do { s \<leftarrow> map_of (sk_shards kv) shard;
           owner \<leftarrow> go_nth (cfg_Shards (sk_currentConfig kv)) shard;
           Some (owner = sk_gid kv \<and> (sm_Status s = Normal \<or> sm_Status s = GC)) })"

definition sk_start :: "(RaftCommand, 'b) codec \<Rightarrow> 'b ShardKV \<Rightarrow> RaftCommand \<Rightarrow> 'b ShardKV \<times> (Err + int)" where
  "sk_start cd kv command =
     (let (rf', index, _, isLeader) = Start cd (sk_rf kv) command;
          kv' = kv\<lparr>sk_rf := rf'\<rparr>
      in if \<not> isLeader then (kv', Inl ErrWrongLeader) else (kv', Inr index))"

text \<open>\<open>Get\<close>, \<open>PutAppend\<close> and \<open>ConfigCommand\<close> up to the wait: an error, or the index to wait for.\<close>

definition sk_Get :: "(RaftCommand, 'b) codec \<Rightarrow> 'b ShardKV \<Rightarrow> string \<Rightarrow> ('b ShardKV \<times> (Err + int)) option" where
  "sk_Get cd kv key =
     do { mine \<leftarrow> matchGroup kv key;
          Some (if \<not> mine then (kv, Inl ErrWrongGroup)
                else sk_start cd kv (ClientOpeartion \<lparr>op_Key = key, op_Value = [], op_OpType = OpGet,
                       op_ClientId = 0, op_SeqId = 0\<rparr>)) }"

definition sk_PutAppend ::
    "(RaftCommand, 'b) codec \<Rightarrow> 'b ShardKV \<Rightarrow> PutAppendArgs \<Rightarrow> ('b ShardKV \<times> (Err + int)) option" where
  "sk_PutAppend cd kv args =
     do { mine \<leftarrow> matchGroup kv (pa_Key args);
          if \<not> mine then Some (kv, Inl ErrWrongGroup)
          else if requestDuplicated (sk_duplicateTable kv) (pa_ClientId args) (pa_SeqId args)
          then do { info \<leftarrow> sk_duplicateTable kv (pa_ClientId args); Some (kv, Inl (or_Err (lo_Reply info))) }
          else do {
            opType \<leftarrow> getOperationType (pa_Op args);
            Some (sk_start cd kv (ClientOpeartion \<lparr>op_Key = pa_Key args, op_Value = pa_Value args, op_OpType = opType,
              op_ClientId = pa_ClientId args, op_SeqId = pa_SeqId args\<rparr>)) } }"

definition ConfigCommand :: "(RaftCommand, 'b) codec \<Rightarrow> 'b ShardKV \<Rightarrow> RaftCommand \<Rightarrow> 'b ShardKV \<times> (Err + int)" where
  "ConfigCommand cd kv command = sk_start cd kv command"

definition sk_await :: "'b ShardKV \<Rightarrow> int \<Rightarrow> 'b ShardKV \<times> nat" where
  "sk_await kv index =
     (let (c, a) = getNotifyChannel (sk_notifyChans kv) index in (kv\<lparr>sk_notifyChans := c\<rparr>, a))"

definition sk_result :: "'b ShardKV \<Rightarrow> nat \<Rightarrow> ('b ShardKV \<times> OpReply) option" where
  "sk_result kv a = do { (c, r) \<leftarrow> chan_recv (sk_notifyChans kv) a; Some (kv\<lparr>sk_notifyChans := c\<rparr>, r) }"

definition sk_forget :: "'b ShardKV \<Rightarrow> int \<Rightarrow> 'b ShardKV" where
  "sk_forget kv index = kv\<lparr>sk_notifyChans := removeNotifyChannel (sk_notifyChans kv) index\<rparr>"

definition sk_Kill :: "'b ShardKV \<Rightarrow> 'b ShardKV" where
  "sk_Kill kv = kv\<lparr>sk_dead := True, sk_rf := Kill (sk_rf kv)\<rparr>"

definition sk_killed :: "'b ShardKV \<Rightarrow> bool" where
  "sk_killed kv = sk_dead kv"

section \<open>Snapshots and start\<close>

type_synonym shard_snapshot = "(int, ShardStateMachine) gomap \<times> dup_table \<times> Config \<times> Config"

definition sk_makeSnapshot ::
    "(RaftCommand, 'b) codec \<Rightarrow> (shard_snapshot, 'b) snap_codec \<Rightarrow> 'b ShardKV \<Rightarrow> int \<Rightarrow> 'b ShardKV option" where
  "sk_makeSnapshot cd sc kv index =
     do { rf' \<leftarrow> raft_Snapshot cd (sk_rf kv) index
            (snap_enc sc (sk_shards kv, sk_duplicateTable kv, sk_currentConfig kv, sk_prevConfig kv));
          Some (kv\<lparr>sk_rf := rf'\<rparr>) }"

definition init_shards :: "(int, ShardStateMachine) gomap \<Rightarrow> (int, ShardStateMachine) gomap" where
  "init_shards shards = fold (\<lambda>i m. case map_of m (int i) of None \<Rightarrow> AList.update (int i) NewShardStateMachine m
     | Some _ \<Rightarrow> m) [0..<NShards] shards"

definition sk_restoreFromSnapshot :: "(shard_snapshot, 'b) snap_codec \<Rightarrow> 'b ShardKV \<Rightarrow> 'b list \<Rightarrow> 'b ShardKV option" where
  "sk_restoreFromSnapshot sc kv snap =
     (if length snap = 0 then Some (kv\<lparr>sk_shards := init_shards (sk_shards kv)\<rparr>)
      else do { (stateMachine, dupTable, currentConfig, prevConfig) \<leftarrow> snap_dec sc snap;
                Some (kv\<lparr>sk_shards := stateMachine, sk_duplicateTable := dupTable,
                  sk_currentConfig := currentConfig, sk_prevConfig := prevConfig\<rparr>) })"

definition sk_StartServer ::
    "(RaftCommand, 'b) codec \<Rightarrow> (shard_snapshot, 'b) snap_codec \<Rightarrow> nat \<Rightarrow> nat \<Rightarrow> 'b persister \<Rightarrow> int \<Rightarrow> int
      \<Rightarrow> 'b ShardKV option" where
  "sk_StartServer cd sc servers i ps maxraftstate gid =
     sk_restoreFromSnapshot sc
       \<lparr>sk_me = i, sk_rf = Make cd servers i ps, sk_gid = gid, sk_maxraftstate = maxraftstate, sk_dead = False,
        sk_lastApplied = 0, sk_shards = [], sk_notifyChans = chans_empty, sk_duplicateTable = (\<lambda>_. None),
        sk_currentConfig = DefaultConfig, sk_prevConfig = DefaultConfig\<rparr>
       (ReadSnapshot ps)"

section \<open>Tasks of the leader\<close>

text \<open>\<open>fetchConfigTask\<close>: before the query, the number of the next configuration if the previous change is
  finished; after it, the configuration is proposed.\<close>

definition fetchConfig_begin :: "'b ShardKV \<Rightarrow> int option" where
  "fetchConfig_begin kv =
     (if snd (GetState (sk_rf kv)) \<and> list_all (\<lambda>(_, shard). sm_Status shard = Normal) (sk_shards kv)
      then Some (cfg_Num (sk_currentConfig kv)) else None)"

definition fetchConfig_finish ::
    "(RaftCommand, 'b) codec \<Rightarrow> 'b ShardKV \<Rightarrow> int \<Rightarrow> Config \<Rightarrow> 'b ShardKV \<times> (Err + int) option" where
  "fetchConfig_finish cd kv currentNum newConfig =
     (if cfg_Num newConfig = currentNum + 1
      then let (kv', r) = ConfigCommand cd kv (ConfigChange newConfig) in (kv', Some r)
      else (kv, None))"

text \<open>\<open>getShardByStatus\<close>.\<close>

fun shardByStatus_loop ::
    "Config \<Rightarrow> ShardStatus \<Rightarrow> (int, ShardStateMachine) gomap \<Rightarrow> gid_shards \<Rightarrow> gid_shards option" where
  "shardByStatus_loop prev status [] toShards = Some toShards"
| "shardByStatus_loop prev status ((i, shard) # shards) toShards =
     (if sm_Status shard = status then
        do { gid \<leftarrow> go_nth (cfg_Shards prev) i;
             if gid \<noteq> 0
             then shardByStatus_loop prev status shards (AList.update gid (mget [] toShards gid @ [i]) toShards)
             else shardByStatus_loop prev status shards toShards }
      else shardByStatus_loop prev status shards toShards)"

definition getShardByStatus :: "'b ShardKV \<Rightarrow> ShardStatus \<Rightarrow> gid_shards option" where
  "getShardByStatus kv status = shardByStatus_loop (sk_prevConfig kv) status (sk_shards kv) []"

text \<open>\<open>shardMigrationTask\<close> and \<open>shardGCTask\<close>: the goroutines they start, each the servers to ask and the
  request; then what a goroutine does with the reply of one server (\<^const>\<open>None\<close>: the call failed).\<close>

definition task_jobs :: "'b ShardKV \<Rightarrow> ShardStatus \<Rightarrow> (string list \<times> ShardOperationArgs) list option" where
  "task_jobs kv status =
     do { toShards \<leftarrow> getShardByStatus kv status;
          Some (map (\<lambda>(gid, shardIds). (mget [] (cfg_Groups (sk_prevConfig kv)) gid,
            \<lparr>soa_ConfigNum = cfg_Num (sk_currentConfig kv), soa_ShardIds = shardIds\<rparr>)) toShards) }"

definition shardMigration_begin :: "'b ShardKV \<Rightarrow> (string list \<times> ShardOperationArgs) list option" where
  "shardMigration_begin kv = (if snd (GetState (sk_rf kv)) then task_jobs kv MoveIn else Some [])"

definition shardMigration_reply ::
    "(RaftCommand, 'b) codec \<Rightarrow> 'b ShardKV \<Rightarrow> ShardOperationReply option \<Rightarrow> 'b ShardKV \<times> (Err + int) option" where
  "shardMigration_reply cd kv answer =
     (case answer of
        Some getShardReply \<Rightarrow>
          if sor_Err getShardReply = OK
          then let (kv', r) = ConfigCommand cd kv (ShardMigration getShardReply) in (kv', Some r)
          else (kv, None)
      | None \<Rightarrow> (kv, None))"

definition shardGC_begin :: "'b ShardKV \<Rightarrow> (string list \<times> ShardOperationArgs) list option" where
  "shardGC_begin kv = (if snd (GetState (sk_rf kv)) then task_jobs kv GC else Some [])"

definition shardGC_reply ::
    "(RaftCommand, 'b) codec \<Rightarrow> 'b ShardKV \<Rightarrow> ShardOperationArgs \<Rightarrow> ShardOperationReply option
      \<Rightarrow> 'b ShardKV \<times> (Err + int) option" where
  "shardGC_reply cd kv shardGCArgs answer =
     (case answer of
        Some shardGCReply \<Rightarrow>
          if sor_Err shardGCReply = OK
          then let (kv', r) = ConfigCommand cd kv (ShardGC shardGCArgs) in (kv', Some r)
          else (kv, None)
      | None \<Rightarrow> (kv, None))"

section \<open>Requests of other groups\<close>

definition ShardOperationReply_zero :: ShardOperationReply where
  "ShardOperationReply_zero =
     \<lparr>sor_Err = ErrEmpty, sor_ConfigNum = 0, sor_ShardData = [], sor_DuplicateTable = (\<lambda>_. None)\<rparr>"

fun copyShards ::
    "(int, ShardStateMachine) gomap \<Rightarrow> int list \<Rightarrow> (int, string \<Rightarrow> string option) gomap
      \<Rightarrow> (int, string \<Rightarrow> string option) gomap option" where
  "copyShards shards [] data = Some data"
| "copyShards shards (shardId # shardIds) data =
     do { shard \<leftarrow> map_of shards shardId;
          copyShards shards shardIds (AList.update shardId (shard_copyData shard) data) }"

definition GetShardsData :: "'b ShardKV \<Rightarrow> ShardOperationArgs \<Rightarrow> ShardOperationReply option" where
  "GetShardsData kv args =
     (let reply = ShardOperationReply_zero in
      if \<not> snd (GetState (sk_rf kv)) then Some (reply\<lparr>sor_Err := ErrWrongLeader\<rparr>)
      else if cfg_Num (sk_currentConfig kv) < soa_ConfigNum args then Some (reply\<lparr>sor_Err := ErrNotReady\<rparr>)
      else do {
        shardData \<leftarrow> copyShards (sk_shards kv) (soa_ShardIds args) [];
        Some (reply\<lparr>sor_ShardData := shardData,
          sor_DuplicateTable := (\<lambda>c. map_option copyInfo (sk_duplicateTable kv c)),
          sor_ConfigNum := soa_ConfigNum args, sor_Err := OK\<rparr>) })"

text \<open>\<open>DeleteShardsData\<close> up to the wait for its command.\<close>

definition DeleteShardsData ::
    "(RaftCommand, 'b) codec \<Rightarrow> 'b ShardKV \<Rightarrow> ShardOperationArgs \<Rightarrow> 'b ShardKV \<times> (Err + int)" where
  "DeleteShardsData cd kv args =
     (if \<not> snd (GetState (sk_rf kv)) then (kv, Inl ErrWrongLeader)
      else if cfg_Num (sk_currentConfig kv) > soa_ConfigNum args then (kv, Inl OK)
      else ConfigCommand cd kv (ShardGC args))"

section \<open>Applying\<close>

definition sk_applyToStateMachine ::
    "(int, ShardStateMachine) gomap \<Rightarrow> Op \<Rightarrow> int \<Rightarrow> ((int, ShardStateMachine) gomap \<times> OpReply) option" where
  "sk_applyToStateMachine shards oper shardId =
     do { shard \<leftarrow> map_of shards shardId;
          Some (case op_OpType oper of
            OpGet \<Rightarrow> let (value, err) = shard_Get shard (op_Key oper) in (shards, \<lparr>or_Value = value, or_Err = err\<rparr>)
          | OpPut \<Rightarrow> let (shard', err) = shard_Put shard (op_Key oper) (op_Value oper)
                     in (AList.update shardId shard' shards, \<lparr>or_Value = [], or_Err = err\<rparr>)
          | OpAppend \<Rightarrow> let (shard', err) = shard_Append shard (op_Key oper) (op_Value oper)
                     in (AList.update shardId shard' shards, \<lparr>or_Value = [], or_Err = err\<rparr>)) }"

definition applyClientOperation :: "'b ShardKV \<Rightarrow> Op \<Rightarrow> ('b ShardKV \<times> OpReply) option" where
  "applyClientOperation kv oper =
     do { mine \<leftarrow> matchGroup kv (op_Key oper);
          if mine then
            if op_OpType oper \<noteq> OpGet \<and> requestDuplicated (sk_duplicateTable kv) (op_ClientId oper) (op_SeqId oper)
            then do { info \<leftarrow> sk_duplicateTable kv (op_ClientId oper); Some (kv, lo_Reply info) }
            else do {
              (shards, opReply) \<leftarrow> sk_applyToStateMachine (sk_shards kv) oper (key2shard (op_Key oper));
              (let kv1 = kv\<lparr>sk_shards := shards\<rparr>
               in Some (if op_OpType oper \<noteq> OpGet
                        then kv1\<lparr>sk_duplicateTable := (sk_duplicateTable kv1)(op_ClientId oper \<mapsto>
                               \<lparr>lo_SeqId = op_SeqId oper, lo_Reply = opReply\<rparr>)\<rparr>
                        else kv1, opReply)) }
          else Some (kv, \<lparr>or_Value = [], or_Err = ErrWrongGroup\<rparr>) }"

text \<open>One iteration of the loop of \<open>applyNewConfig\<close>, for shard \<open>i\<close>.\<close>

definition set_status ::
    "(int, ShardStateMachine) gomap \<Rightarrow> int \<Rightarrow> ShardStatus \<Rightarrow> (int, ShardStateMachine) gomap option" where
  "set_status shards i status =
     do { shard \<leftarrow> map_of shards i; Some (AList.update i (shard\<lparr>sm_Status := status\<rparr>) shards) }"

definition newConfig_shard ::
    "int \<Rightarrow> Config \<Rightarrow> Config \<Rightarrow> int \<Rightarrow> (int, ShardStateMachine) gomap \<Rightarrow> (int, ShardStateMachine) gomap option" where
  "newConfig_shard gid cur new i shards =
     do { from \<leftarrow> go_nth (cfg_Shards cur) i;
          dest \<leftarrow> go_nth (cfg_Shards new) i;
          shards1 \<leftarrow> (if from \<noteq> gid \<and> dest = gid \<and> from \<noteq> 0 then set_status shards i MoveIn else Some shards);
          (if from = gid \<and> dest \<noteq> gid \<and> dest \<noteq> 0 then set_status shards1 i MoveOut else Some shards1) }"

fun newConfig_loop ::
    "int \<Rightarrow> Config \<Rightarrow> Config \<Rightarrow> nat list \<Rightarrow> (int, ShardStateMachine) gomap \<Rightarrow> (int, ShardStateMachine) gomap option" where
  "newConfig_loop gid cur new [] shards = Some shards"
| "newConfig_loop gid cur new (i # is) shards =
     do { shards1 \<leftarrow> newConfig_shard gid cur new (int i) shards; newConfig_loop gid cur new is shards1 }"

definition applyNewConfig :: "'b ShardKV \<Rightarrow> Config \<Rightarrow> ('b ShardKV \<times> OpReply) option" where
  "applyNewConfig kv newConfig =
     (if cfg_Num (sk_currentConfig kv) + 1 = cfg_Num newConfig then
        do { shards \<leftarrow> newConfig_loop (sk_gid kv) (sk_currentConfig kv) newConfig [0..<NShards] (sk_shards kv);
             Some (kv\<lparr>sk_shards := shards, sk_prevConfig := sk_currentConfig kv, sk_currentConfig := newConfig\<rparr>,
               \<lparr>or_Value = [], or_Err = OK\<rparr>) }
      else Some (kv, \<lparr>or_Value = [], or_Err = ErrWrongConfig\<rparr>))"

fun migration_loop ::
    "(int, string \<Rightarrow> string option) gomap \<Rightarrow> (int, ShardStateMachine) gomap \<Rightarrow> (int, ShardStateMachine) gomap option" where
  "migration_loop [] shards = Some shards"
| "migration_loop ((shardId, shardData) # rest) shards =
     do { shard \<leftarrow> map_of shards shardId;
          if sm_Status shard = MoveIn
          then migration_loop rest
                 (AList.update shardId (shard\<lparr>sm_KV := sm_KV shard ++ shardData, sm_Status := GC\<rparr>) shards)
          else Some shards }"

definition merge_table :: "dup_table \<Rightarrow> dup_table \<Rightarrow> dup_table" where
  "merge_table table new clientId =
     (case new clientId of
        Some info \<Rightarrow>
          (case table clientId of
             Some old \<Rightarrow> if lo_SeqId old < lo_SeqId info then Some info else Some old
           | None \<Rightarrow> Some info)
      | None \<Rightarrow> table clientId)"

definition applyShardMigration :: "'b ShardKV \<Rightarrow> ShardOperationReply \<Rightarrow> ('b ShardKV \<times> OpReply) option" where
  "applyShardMigration kv shardDataReply =
     do { kv' \<leftarrow>
            (if sor_ConfigNum shardDataReply = cfg_Num (sk_currentConfig kv) then
               do { shards \<leftarrow> migration_loop (sor_ShardData shardDataReply) (sk_shards kv);
                    Some (kv\<lparr>sk_shards := shards,
                      sk_duplicateTable := merge_table (sk_duplicateTable kv) (sor_DuplicateTable shardDataReply)\<rparr>) }
             else Some kv);
          Some (kv', \<lparr>or_Value = [], or_Err = ErrWrongConfig\<rparr>) }"

fun gc_loop :: "int list \<Rightarrow> (int, ShardStateMachine) gomap \<Rightarrow> (int, ShardStateMachine) gomap option" where
  "gc_loop [] shards = Some shards"
| "gc_loop (shardId # shardIds) shards =
     do { shard \<leftarrow> map_of shards shardId;
          if sm_Status shard = GC then gc_loop shardIds (AList.update shardId (shard\<lparr>sm_Status := Normal\<rparr>) shards)
          else if sm_Status shard = MoveOut then gc_loop shardIds (AList.update shardId NewShardStateMachine shards)
          else Some shards }"

definition applyShardGC :: "'b ShardKV \<Rightarrow> ShardOperationArgs \<Rightarrow> ('b ShardKV \<times> OpReply) option" where
  "applyShardGC kv shardsInfo =
     do { kv' \<leftarrow>
            (if soa_ConfigNum shardsInfo = cfg_Num (sk_currentConfig kv) then
               do { shards \<leftarrow> gc_loop (soa_ShardIds shardsInfo) (sk_shards kv); Some (kv\<lparr>sk_shards := shards\<rparr>) }
             else Some kv);
          Some (kv', \<lparr>or_Value = [], or_Err = OK\<rparr>) }"

definition handleConfigChangeMessage :: "'b ShardKV \<Rightarrow> RaftCommand \<Rightarrow> ('b ShardKV \<times> OpReply) option" where
  "handleConfigChangeMessage kv command =
     (case command of
        ConfigChange newConfig \<Rightarrow> applyNewConfig kv newConfig
      | ShardMigration shardData \<Rightarrow> applyShardMigration kv shardData
      | ShardGC shardsInfo \<Rightarrow> applyShardGC kv shardsInfo
      | ClientOpeartion _ \<Rightarrow> None)"

definition sk_execute :: "'b ShardKV \<Rightarrow> RaftCommand \<Rightarrow> ('b ShardKV \<times> OpReply) option" where
  "sk_execute kv raftCommand =
     (case raftCommand of
        ClientOpeartion oper \<Rightarrow> applyClientOperation kv oper
      | _ \<Rightarrow> handleConfigChangeMessage kv raftCommand)"

definition sk_notify :: "'b ShardKV \<Rightarrow> int \<Rightarrow> OpReply \<Rightarrow> 'b ShardKV option" where
  "sk_notify kv index opReply =
     (if snd (GetState (sk_rf kv)) then
        let (c, a) = getNotifyChannel (sk_notifyChans kv) index
        in do { c' \<leftarrow> chan_send c a opReply; Some (kv\<lparr>sk_notifyChans := c'\<rparr>) }
      else Some kv)"

definition sk_checkSnapshot ::
    "(RaftCommand, 'b) codec \<Rightarrow> (shard_snapshot, 'b) snap_codec \<Rightarrow> 'b ShardKV \<Rightarrow> int \<Rightarrow> 'b ShardKV option" where
  "sk_checkSnapshot cd sc kv index =
     (if sk_maxraftstate kv \<noteq> -1 \<and> GetRaftStateSize (sk_rf kv) \<ge> sk_maxraftstate kv
      then sk_makeSnapshot cd sc kv index else Some kv)"

text \<open>One message of \<open>applyTask\<close>.\<close>

definition sk_applyTask ::
    "(RaftCommand, 'b) codec \<Rightarrow> (shard_snapshot, 'b) snap_codec \<Rightarrow> 'b ShardKV \<Rightarrow> (RaftCommand, 'b) ApplyMsg
      \<Rightarrow> 'b ShardKV option" where
  "sk_applyTask cd sc kv message =
     (if am_CommandValid message then
        if am_CommandIndex message \<le> sk_lastApplied kv then Some kv
        else do {
          raftCommand \<leftarrow> am_Command message;
          (kv1, opReply) \<leftarrow> sk_execute (kv\<lparr>sk_lastApplied := am_CommandIndex message\<rparr>) raftCommand;
          kv2 \<leftarrow> sk_notify kv1 (am_CommandIndex message) opReply;
          sk_checkSnapshot cd sc kv2 (am_CommandIndex message) }
      else if am_SnapshotValid message then do {
        kv1 \<leftarrow> sk_restoreFromSnapshot sc kv (am_Snapshot message);
        Some (kv1\<lparr>sk_lastApplied := am_SnapshotIndex message\<rparr>) }
      else Some kv)"

end
