(* ===== verification/Shard_Steps.thy ===== *)
theory Shard_Steps
  imports Shard_KV Ctrler_Balance
begin

text \<open>
  What one command of the log does to a sharded key/value server: it never panics, it keeps the
  well-formedness of the server, and it moves the status of each shard along
  \<open>Normal \<rightarrow> MoveIn \<rightarrow> GC \<rightarrow> Normal\<close> or \<open>Normal \<rightarrow> MoveOut \<rightarrow> Normal\<close>.
\<close>

section \<open>Well-formed servers and commands\<close>

definition shards_ok :: "(int, ShardStateMachine) gomap \<Rightarrow> bool" where
  "shards_ok shards \<longleftrightarrow> gomap_ok shards \<and> fst ` set shards = int ` {..<NShards}"

definition sk_ok :: "'b ShardKV \<Rightarrow> bool" where
  "sk_ok kv \<longleftrightarrow> shards_ok (sk_shards kv) \<and> length (cfg_Shards (sk_currentConfig kv)) = NShards \<and>
     length (cfg_Shards (sk_prevConfig kv)) = NShards"

primrec cmd_ok :: "RaftCommand \<Rightarrow> bool" where
  "cmd_ok (ClientOpeartion oper) \<longleftrightarrow> True"
| "cmd_ok (ConfigChange cfg) \<longleftrightarrow> length (cfg_Shards cfg) = NShards"
| "cmd_ok (ShardMigration r) \<longleftrightarrow> fst ` set (sor_ShardData r) \<subseteq> int ` {..<NShards} \<and> gomap_ok (sor_ShardData r)"
| "cmd_ok (ShardGC args) \<longleftrightarrow> set (soa_ShardIds args) \<subseteq> int ` {..<NShards}"

text \<open>Status and contents of shard \<open>i\<close>, and the configuration number, of a server.\<close>

definition shard_at :: "'b ShardKV \<Rightarrow> nat \<Rightarrow> ShardStateMachine" where
  "shard_at kv i = the (map_of (sk_shards kv) (int i))"

abbreviation shard_status :: "'b ShardKV \<Rightarrow> nat \<Rightarrow> ShardStatus" where
  "shard_status kv i \<equiv> sm_Status (shard_at kv i)"

abbreviation shard_data :: "'b ShardKV \<Rightarrow> nat \<Rightarrow> string \<Rightarrow> string option" where
  "shard_data kv i \<equiv> sm_KV (shard_at kv i)"

abbreviation cfg_num :: "'b ShardKV \<Rightarrow> int" where
  "cfg_num kv \<equiv> cfg_Num (sk_currentConfig kv)"

abbreviation shard_owner :: "'b ShardKV \<Rightarrow> nat \<Rightarrow> int" where
  "shard_owner kv i \<equiv> cfg_Shards (sk_currentConfig kv) ! i"

lemma shards_ok_lookup: "shards_ok sh \<Longrightarrow> i < NShards \<Longrightarrow> \<exists>s. map_of sh (int i) = Some s"
  unfolding shards_ok_def by (metis imageI lessThan_iff map_of_eq_None_iff not_Some_eq)

lemma shards_ok_update [simp]:
  "shards_ok sh \<Longrightarrow> i \<in> int ` {..<NShards} \<Longrightarrow> shards_ok (AList.update i s sh)"
  by (auto simp: shards_ok_def)

lemma shard_lookup: "sk_ok kv \<Longrightarrow> i < NShards \<Longrightarrow> map_of (sk_shards kv) (int i) = Some (shard_at kv i)"
  using shards_ok_lookup unfolding sk_ok_def shard_at_def by fastforce

lemma go_nth_config: "length (cfg_Shards c) = NShards \<Longrightarrow> i < NShards \<Longrightarrow> go_nth (cfg_Shards c) (int i) = Some (cfg_Shards c ! i)"
  by (simp add: go_nth_def)

lemma key2shard_range: "\<exists>i<NShards. key2shard key = int i"
proof -
  have "0 \<le> key2shard key" "key2shard key < int NShards" by (simp_all add: key2shard_def NShards_def)
  then show ?thesis by (metis nat_0_le nat_less_iff)
qed

lemma int_image_Collect: "A \<subseteq> int ` X \<Longrightarrow> int ` {i. int i \<in> A} = A"
  by auto

section \<open>Client operations\<close>

lemma matchGroup_eq:
  assumes "sk_ok kv" "i < NShards" "key2shard key = int i"
  shows "matchGroup kv key = Some (shard_owner kv i = sk_gid kv \<and> (shard_status kv i = Normal \<or> shard_status kv i = GC))"
  using shard_lookup[OF assms(1,2)] go_nth_config[of "sk_currentConfig kv" i] assms
  by (simp add: matchGroup_def Let_def sk_ok_def)

lemma sk_applyToStateMachine_cases:
  assumes "shards_ok sh" "i < NShards"
  obtains sh' r s where "sk_applyToStateMachine sh oper (int i) = Some (sh', r)" "shards_ok sh'"
    "map_of sh (int i) = Some s"
    "map_of sh' = (map_of sh)(int i \<mapsto> s\<lparr>sm_KV := sm_KV (the (map_of sh' (int i)))\<rparr>)"
proof -
  from shards_ok_lookup[OF assms] obtain s where s: "map_of sh (int i) = Some s" by blast
  then have upd: "map_of sh = (map_of sh)(int i \<mapsto> s)" by (simp add: fun_upd_idem)
  have ok: "shards_ok (AList.update (int i) x sh)" for x using assms by simp
  show thesis
  proof (cases "op_OpType oper")
    case OpGet
    show thesis
      by (rule that[of sh _ s])
        (use assms s OpGet upd in \<open>auto simp: sk_applyToStateMachine_def case_prod_beta Let_def\<close>)
  next
    case OpPut
    then show thesis
      by (intro that[of "AList.update (int i) (fst (shard_Put s (op_Key oper) (op_Value oper))) sh" _ s])
        (use ok s in \<open>auto simp: sk_applyToStateMachine_def shard_Put_def AList.update_conv'\<close>)
  next
    case OpAppend
    then show thesis
      by (intro that[of "AList.update (int i) (fst (shard_Append s (op_Key oper) (op_Value oper))) sh" _ s])
        (use ok s in \<open>auto simp: sk_applyToStateMachine_def shard_Append_def AList.update_conv'\<close>)
  qed
qed

text \<open>A client operation changes at most the contents of the shard of its key, and that only when the
  group serves it.\<close>

lemma client_step:
  assumes ok: "sk_ok kv"
  shows "\<exists>kv' r. applyClientOperation kv oper = Some (kv', r) \<and> sk_ok kv' \<and>
    kv' = kv\<lparr>sk_shards := sk_shards kv', sk_duplicateTable := sk_duplicateTable kv'\<rparr> \<and>
    (\<forall>i<NShards. shard_status kv' i = shard_status kv i) \<and>
    (\<forall>i<NShards. shard_data kv' i \<noteq> shard_data kv i \<longrightarrow>
       key2shard (op_Key oper) = int i \<and> shard_owner kv i = sk_gid kv \<and> (shard_status kv i = Normal \<or> shard_status kv i = GC))"
proof -
  obtain j where j: "j < NShards" "key2shard (op_Key oper) = int j" using key2shard_range by blast
  note mg = matchGroup_eq[OF ok j]
  have sok: "shards_ok (sk_shards kv)" using ok by (simp add: sk_ok_def)
  show ?thesis
  proof (cases "shard_owner kv j = sk_gid kv \<and> (shard_status kv j = Normal \<or> shard_status kv j = GC)")
    case False
    with mg ok show ?thesis by (simp add: applyClientOperation_def)
  next
    case True
    show ?thesis
    proof (cases "op_OpType oper \<noteq> OpGet \<and> requestDuplicated (sk_duplicateTable kv) (op_ClientId oper) (op_SeqId oper)")
      case dup: True
      then obtain info where "sk_duplicateTable kv (op_ClientId oper) = Some info"
        by (auto simp: requestDuplicated_def split: option.splits)
      with dup mg True ok show ?thesis by (simp add: applyClientOperation_def)
    next
      case False
      obtain sh' r s where ap: "sk_applyToStateMachine (sk_shards kv) oper (int j) = Some (sh', r)" "shards_ok sh'"
        "map_of (sk_shards kv) (int j) = Some s"
        "map_of sh' = (map_of (sk_shards kv))(int j \<mapsto> s\<lparr>sm_KV := sm_KV (the (map_of sh' (int j)))\<rparr>)"
        using sk_applyToStateMachine_cases[OF sok j(1)] by blast
      define kv' where "kv' = (if op_OpType oper \<noteq> OpGet
        then kv\<lparr>sk_shards := sh', sk_duplicateTable := (sk_duplicateTable kv)(op_ClientId oper \<mapsto>
               \<lparr>lo_SeqId = op_SeqId oper, lo_Reply = r\<rparr>)\<rparr>
        else kv\<lparr>sk_shards := sh'\<rparr>)"
      have "applyClientOperation kv oper = Some (kv', r)"
        using mg True False ap(1) j by (auto simp: applyClientOperation_def kv'_def Let_def)
      moreover have sh: "sk_shards kv' = sh'" by (simp add: kv'_def)
      moreover have "shard_at kv' i = (if i = j then s\<lparr>sm_KV := sm_KV (the (map_of sh' (int j)))\<rparr> else shard_at kv i)" for i
        unfolding shard_at_def sh by (subst ap(4)) simp
      moreover have "shard_at kv j = s" using ap(3) by (simp add: shard_at_def)
      moreover have "sk_ok kv'" using ap(2) ok by (simp add: sk_ok_def kv'_def)
      moreover have "kv' = kv\<lparr>sk_shards := sk_shards kv', sk_duplicateTable := sk_duplicateTable kv'\<rparr>"
        by (simp add: kv'_def)
      ultimately show ?thesis using True j by (intro exI[of _ kv'] exI[of _ r]) auto
    qed
  qed
qed

section \<open>A new configuration\<close>

definition new_status :: "int \<Rightarrow> int \<Rightarrow> int \<Rightarrow> ShardStatus \<Rightarrow> ShardStatus" where
  "new_status gid from dest st =
     (if from \<noteq> gid \<and> dest = gid \<and> from \<noteq> 0 then MoveIn
      else if from = gid \<and> dest \<noteq> gid \<and> dest \<noteq> 0 then MoveOut else st)"

lemma newConfig_shard_eq:
  assumes "shards_ok sh" "i < NShards" "length (cfg_Shards cur) = NShards" "length (cfg_Shards new) = NShards"
  shows "\<exists>sh' s. map_of sh (int i) = Some s \<and> newConfig_shard gid cur new (int i) sh = Some sh' \<and> shards_ok sh' \<and>
    map_of sh' = (map_of sh)(int i \<mapsto> s\<lparr>sm_Status := new_status gid (cfg_Shards cur ! i) (cfg_Shards new ! i) (sm_Status s)\<rparr>)"
proof -
  from shards_ok_lookup[OF assms(1,2)] obtain s where s: "map_of sh (int i) = Some s" by blast
  have ok: "shards_ok (AList.update (int i) x sh)" for x using assms(1,2) by simp
  from s show ?thesis
    using ok assms(1) go_nth_config[OF assms(3,2)] go_nth_config[OF assms(4,2)]
    by (auto simp: newConfig_shard_def set_status_def new_status_def AList.update_conv' fun_eq_iff)
qed

lemma newConfig_loop_eq:
  assumes "shards_ok sh" "distinct is" "set is \<subseteq> {..<NShards}"
    and len: "length (cfg_Shards cur) = NShards" "length (cfg_Shards new) = NShards"
  shows "\<exists>sh'. newConfig_loop gid cur new is sh = Some sh' \<and> shards_ok sh' \<and>
    (\<forall>i. map_of sh' (int i) = (if i \<in> set is then map_option (\<lambda>s. s\<lparr>sm_Status :=
       new_status gid (cfg_Shards cur ! i) (cfg_Shards new ! i) (sm_Status s)\<rparr>) (map_of sh (int i))
     else map_of sh (int i)))"
  using assms(1-3)
proof (induction "is" arbitrary: sh)
  case Nil
  then show ?case by simp
next
  case (Cons j js)
  from newConfig_shard_eq[OF Cons.prems(1) _ len, of j gid] Cons.prems(3) obtain sh1 s where
    s1: "map_of sh (int j) = Some s" "newConfig_shard gid cur new (int j) sh = Some sh1" "shards_ok sh1"
      "map_of sh1 = (map_of sh)(int j \<mapsto> s\<lparr>sm_Status := new_status gid (cfg_Shards cur ! j) (cfg_Shards new ! j) (sm_Status s)\<rparr>)"
    by auto
  from Cons.IH[OF s1(3)] Cons.prems obtain sh2 where
    s2: "newConfig_loop gid cur new js sh1 = Some sh2" "shards_ok sh2"
      "\<forall>i. map_of sh2 (int i) = (if i \<in> set js then map_option (\<lambda>s. s\<lparr>sm_Status :=
         new_status gid (cfg_Shards cur ! i) (cfg_Shards new ! i) (sm_Status s)\<rparr>) (map_of sh1 (int i))
       else map_of sh1 (int i))" by auto
  show ?case
    using s1(1,2,4) s2 Cons.prems(2) by (intro exI[of _ sh2]) auto
qed

lemma config_step:
  assumes ok: "sk_ok kv" and len: "length (cfg_Shards cfg) = NShards"
  shows "\<exists>kv' r. applyNewConfig kv cfg = Some (kv', r) \<and> sk_ok kv' \<and> sk_gid kv' = sk_gid kv \<and>
    sk_duplicateTable kv' = sk_duplicateTable kv \<and>
    (if cfg_num kv + 1 = cfg_Num cfg
     then sk_currentConfig kv' = cfg \<and> sk_prevConfig kv' = sk_currentConfig kv \<and>
       (\<forall>i<NShards. shard_data kv' i = shard_data kv i \<and>
          shard_status kv' i = new_status (sk_gid kv) (shard_owner kv i) (cfg_Shards cfg ! i) (shard_status kv i))
     else kv' = kv)"
proof (cases "cfg_num kv + 1 = cfg_Num cfg")
  case False
  then have "applyNewConfig kv cfg = Some (kv, \<lparr>or_Value = [], or_Err = ErrWrongConfig\<rparr>)"
    by (simp add: applyNewConfig_def)
  then show ?thesis
    using ok by (intro exI[of _ kv] exI[of _ "\<lparr>or_Value = [], or_Err = ErrWrongConfig\<rparr>"]) (simp only: False if_False simp_thms)
next
  case True
  from ok have sok: "shards_ok (sk_shards kv)" "length (cfg_Shards (sk_currentConfig kv)) = NShards"
    by (simp_all add: sk_ok_def)
  have "set [0..<NShards] \<subseteq> {..<NShards}" by auto
  from newConfig_loop_eq[OF sok(1) distinct_upt this sok(2) len, of "sk_gid kv"] obtain sh' where
    sh': "newConfig_loop (sk_gid kv) (sk_currentConfig kv) cfg [0..<NShards] (sk_shards kv) = Some sh'" "shards_ok sh'"
      "\<forall>i<NShards. map_of sh' (int i) = map_option (\<lambda>s. s\<lparr>sm_Status :=
         new_status (sk_gid kv) (shard_owner kv i) (cfg_Shards cfg ! i) (sm_Status s)\<rparr>) (map_of (sk_shards kv) (int i))"
    by auto
  let ?kv = "kv\<lparr>sk_shards := sh', sk_prevConfig := sk_currentConfig kv, sk_currentConfig := cfg\<rparr>"
  have "shard_at ?kv i = (shard_at kv i)\<lparr>sm_Status :=
      new_status (sk_gid kv) (shard_owner kv i) (cfg_Shards cfg ! i) (shard_status kv i)\<rparr>" if "i < NShards" for i
    using sh'(3) shard_lookup[OF ok that] that by (simp add: shard_at_def[of ?kv])
  moreover have "applyNewConfig kv cfg = Some (?kv, \<lparr>or_Value = [], or_Err = OK\<rparr>)"
    using True sh'(1) by (simp add: applyNewConfig_def)
  moreover have "sk_ok ?kv" using sh'(2) len sok(2) by (simp add: sk_ok_def)
  ultimately show ?thesis using True by (intro exI[of _ ?kv] exI[of _ "\<lparr>or_Value = [], or_Err = OK\<rparr>"]) simp
qed

section \<open>Migration\<close>

text \<open>The loop takes over the data of a first part of the shards of the message, up to one that is not
  expected; all of these were \<open>MoveIn\<close>.\<close>

lemma migration_loop_eq:
  assumes "shards_ok sh" "fst ` set ds \<subseteq> int ` {..<NShards}" "gomap_ok ds"
  shows "\<exists>sh' n. migration_loop ds sh = Some sh' \<and> shards_ok sh' \<and>
    (\<forall>k. map_of sh' k = (case map_of (take n ds) k of
       Some d \<Rightarrow> map_option (\<lambda>s. s\<lparr>sm_KV := sm_KV s ++ d, sm_Status := GC\<rparr>) (map_of sh k)
     | None \<Rightarrow> map_of sh k)) \<and>
    (\<forall>k \<in> fst ` set (take n ds). sm_Status (the (map_of sh k)) = MoveIn) \<and>
    (n < length ds \<longrightarrow> sm_Status (the (map_of sh (fst (ds ! n)))) \<noteq> MoveIn)"
  using assms
proof (induction ds arbitrary: sh)
  case Nil
  then show ?case by (intro exI[of _ sh] exI[of _ 0]) simp
next
  case (Cons kd ds)
  obtain k d where kd: "kd = (k, d)" by fastforce
  from Cons.prems kd obtain i where i: "i < NShards" "k = int i" by auto
  from shards_ok_lookup[OF Cons.prems(1) i(1)] i obtain s where s: "map_of sh k = Some s" by blast
  show ?case
  proof (cases "sm_Status s = MoveIn")
    case False
    then show ?thesis using Cons.prems s kd by (intro exI[of _ sh] exI[of _ 0]) simp
  next
    case True
    let ?sh1 = "AList.update k (s\<lparr>sm_KV := sm_KV s ++ d, sm_Status := GC\<rparr>) sh"
    have "shards_ok ?sh1" using Cons.prems(1) i by simp
    moreover have nk: "k \<notin> fst ` set ds" "gomap_ok ds" using Cons.prems(3) kd by (auto simp: gomap_ok_Cons)
    moreover have "fst ` set ds \<subseteq> int ` {..<NShards}" using Cons.prems(2) by simp
    ultimately obtain sh' n where IH: "migration_loop ds ?sh1 = Some sh'" "shards_ok sh'"
      "\<forall>k. map_of sh' k = (case map_of (take n ds) k of
         Some d \<Rightarrow> map_option (\<lambda>s. s\<lparr>sm_KV := sm_KV s ++ d, sm_Status := GC\<rparr>) (map_of ?sh1 k)
       | None \<Rightarrow> map_of ?sh1 k)"
      "\<forall>k \<in> fst ` set (take n ds). sm_Status (the (map_of ?sh1 k)) = MoveIn"
      "n < length ds \<longrightarrow> sm_Status (the (map_of ?sh1 (fst (ds ! n)))) \<noteq> MoveIn"
      using Cons.IH[of ?sh1] by blast
    have tk: "k \<notin> fst ` set (take n ds)" using nk(1) set_take_subset by fastforce
    then have no: "map_of (take n ds) k = None" by (simp add: map_of_eq_None_iff)
    have nn: "n < length ds \<Longrightarrow> fst (ds ! n) \<noteq> k" using nk(1) by force
    have "map_of sh' k' = (case map_of (take (Suc n) (kd # ds)) k' of
         Some d \<Rightarrow> map_option (\<lambda>s. s\<lparr>sm_KV := sm_KV s ++ d, sm_Status := GC\<rparr>) (map_of sh k')
       | None \<Rightarrow> map_of sh k')" for k'
      using IH(3) kd s no by (auto simp: AList.update_conv' split: option.splits)
    moreover have "\<forall>k \<in> fst ` set (take (Suc n) (kd # ds)). sm_Status (the (map_of sh k)) = MoveIn"
      using IH(4) kd s True tk by (auto simp: AList.update_conv' split: if_splits)
    moreover have "Suc n < length (kd # ds) \<longrightarrow> sm_Status (the (map_of sh (fst ((kd # ds) ! Suc n)))) \<noteq> MoveIn"
      using IH(5) nn by (simp add: AList.update_conv')
    moreover have "migration_loop (kd # ds) sh = Some sh'" using kd s True IH(1) by simp
    ultimately show ?thesis using IH(2) by (intro exI[of _ sh'] exI[of _ "Suc n"]) blast
  qed
qed

text \<open>\<open>T\<close> are the shards taken over. A message whose shards are all expected is taken over as a whole.\<close>

lemma migration_step:
  assumes ok: "sk_ok kv" and cmd: "cmd_ok (ShardMigration r)"
  shows "\<exists>kv' rep T. applyShardMigration kv r = Some (kv', rep) \<and> sk_ok kv' \<and> sk_gid kv' = sk_gid kv \<and>
    sk_currentConfig kv' = sk_currentConfig kv \<and> sk_prevConfig kv' = sk_prevConfig kv \<and>
    (\<forall>i<NShards. shard_at kv' i = (if i \<in> T then \<lparr>sm_KV = shard_data kv i ++ the (map_of (sor_ShardData r) (int i)), sm_Status = GC\<rparr>
       else shard_at kv i)) \<and>
    (\<forall>i\<in>T. i < NShards \<and> shard_status kv i = MoveIn \<and> int i \<in> fst ` set (sor_ShardData r)) \<and>
    (sor_ConfigNum r \<noteq> cfg_num kv \<longrightarrow> T = {}) \<and>
    (sor_ConfigNum r = cfg_num kv \<and> (\<forall>k \<in> fst ` set (sor_ShardData r). shard_status kv (nat k) = MoveIn) \<longrightarrow>
       int ` T = fst ` set (sor_ShardData r))"
proof (cases "sor_ConfigNum r = cfg_num kv")
  case False
  then have "applyShardMigration kv r = Some (kv, \<lparr>or_Value = [], or_Err = ErrWrongConfig\<rparr>)"
    by (simp add: applyShardMigration_def)
  with False ok show ?thesis by (intro exI[of _ kv] exI[of _ "\<lparr>or_Value = [], or_Err = ErrWrongConfig\<rparr>"] exI[of _ "{}"]) simp
next
  case True
  let ?ds = "sor_ShardData r"
  have ds: "fst ` set ?ds \<subseteq> int ` {..<NShards}" "gomap_ok ?ds" using cmd by simp_all
  have "shards_ok (sk_shards kv)" using ok by (simp add: sk_ok_def)
  from migration_loop_eq[OF this ds] obtain sh' n where
    m: "migration_loop ?ds (sk_shards kv) = Some sh'" "shards_ok sh'"
      "\<And>k. map_of sh' k = (case map_of (take n ?ds) k of
         Some d \<Rightarrow> map_option (\<lambda>s. s\<lparr>sm_KV := sm_KV s ++ d, sm_Status := GC\<rparr>) (map_of (sk_shards kv) k)
       | None \<Rightarrow> map_of (sk_shards kv) k)"
      "\<And>k. k \<in> fst ` set (take n ?ds) \<Longrightarrow> sm_Status (the (map_of (sk_shards kv) k)) = MoveIn"
      "n < length ?ds \<longrightarrow> sm_Status (the (map_of (sk_shards kv) (fst (?ds ! n)))) \<noteq> MoveIn" by blast
  define T where "T = {i. int i \<in> fst ` set (take n ?ds)}"
  let ?kv = "kv\<lparr>sk_shards := sh', sk_duplicateTable := merge_table (sk_duplicateTable kv) (sor_DuplicateTable r)\<rparr>"
  have sub: "fst ` set (take n ?ds) \<subseteq> fst ` set ?ds" using set_take_subset by fastforce
  have map: "map_of (take n ?ds) k = map_of ?ds k" if "k \<in> fst ` set (take n ?ds)" for k
  proof -
    have "map_of ?ds = map_of (drop n ?ds) ++ map_of (take n ?ds)"
      by (metis append_take_drop_id map_of_append)
    moreover from that obtain d where "map_of (take n ?ds) k = Some d" by (metis map_of_eq_None_iff not_None_eq)
    ultimately show ?thesis using map_add_find_right[of "map_of (take n ?ds)" k d "map_of (drop n ?ds)"] by metis
  qed
  have at: "shard_at ?kv i = (if i \<in> T then \<lparr>sm_KV = shard_data kv i ++ the (map_of ?ds (int i)), sm_Status = GC\<rparr>
      else shard_at kv i)" if "i < NShards" for i
  proof (cases "int i \<in> fst ` set (take n ?ds)")
    case t: True
    then obtain d where d: "map_of (take n ?ds) (int i) = Some d" by (metis map_of_eq_None_iff not_None_eq)
    then have "map_of ?ds (int i) = Some d" using map[OF t] by simp
    with d m(3)[of "int i"] shard_lookup[OF ok that] t show ?thesis by (simp add: shard_at_def[of ?kv] T_def)
  next
    case f: False
    then have "map_of (take n ?ds) (int i) = None" by (simp add: map_of_eq_None_iff)
    with m(3)[of "int i"] f show ?thesis by (simp add: shard_at_def T_def)
  qed
  have T: "\<forall>i\<in>T. i < NShards \<and> shard_status kv i = MoveIn \<and> int i \<in> fst ` set ?ds"
  proof
    fix i
    assume "i \<in> T"
    then have i: "int i \<in> fst ` set (take n ?ds)" by (simp add: T_def)
    then have "int i \<in> fst ` set ?ds" using sub by blast
    from this ds(1) have "int i \<in> int ` {..<NShards}" by (rule subsetD[rotated])
    then have "i < NShards" by auto
    with \<open>int i \<in> fst ` set ?ds\<close> show "i < NShards \<and> shard_status kv i = MoveIn \<and> int i \<in> fst ` set ?ds"
      using m(4)[OF i] by (simp add: shard_at_def)
  qed
  have full: "int ` T = fst ` set ?ds" if "\<forall>k \<in> fst ` set ?ds. shard_status kv (nat k) = MoveIn"
  proof -
    have "\<not> n < length ?ds"
    proof
      assume n: "n < length ?ds"
      then have "fst (?ds ! n) \<in> fst ` set ?ds" by simp
      moreover from this obtain i where "fst (?ds ! n) = int i" using ds(1) by blast
      ultimately show False using bspec[OF that, of "fst (?ds ! n)"] m(5) n by (simp add: shard_at_def)
    qed
    then have "T = {i. int i \<in> fst ` set ?ds}" by (simp add: T_def)
    with int_image_Collect[OF ds(1)] show ?thesis by simp
  qed
  have ap: "applyShardMigration kv r = Some (?kv, \<lparr>or_Value = [], or_Err = ErrWrongConfig\<rparr>)"
    using True m(1) by (simp add: applyShardMigration_def)
  have ok': "sk_ok ?kv" using ok m(2) by (simp add: sk_ok_def)
  show ?thesis
    by (rule exI[of _ ?kv], rule exI[of _ "\<lparr>or_Value = [], or_Err = ErrWrongConfig\<rparr>"], rule exI[of _ T])
      (use ap ok' at T full True in \<open>simp del: image_iff ball_simps\<close>)
qed

section \<open>Garbage collection\<close>

definition gc_shard :: "ShardStateMachine \<Rightarrow> ShardStateMachine" where
  "gc_shard s = (if sm_Status s = GC then s\<lparr>sm_Status := Normal\<rparr>
     else if sm_Status s = MoveOut then NewShardStateMachine else s)"

lemma gc_loop_eq:
  assumes "shards_ok sh" "set ids \<subseteq> int ` {..<NShards}"
  shows "\<exists>sh' T. gc_loop ids sh = Some sh' \<and> shards_ok sh' \<and> T \<subseteq> set ids \<and>
    (\<forall>k. map_of sh' k = (if k \<in> T then map_option gc_shard (map_of sh k) else map_of sh k)) \<and>
    (distinct ids \<and> (\<forall>k \<in> set ids. sm_Status (the (map_of sh k)) \<in> {GC, MoveOut}) \<longrightarrow> T = set ids)"
  using assms
proof (induction ids arbitrary: sh)
  case Nil
  then show ?case by (intro exI[of _ sh] exI[of _ "{}"]) simp
next
  case (Cons k ids)
  from Cons.prems obtain i where i: "i < NShards" "k = int i" by auto
  from shards_ok_lookup[OF Cons.prems(1) i(1)] i obtain s where s: "map_of sh k = Some s" by blast
  show ?case
  proof (cases "sm_Status s = GC \<or> sm_Status s = MoveOut")
    case False
    then show ?thesis using Cons.prems s by (intro exI[of _ sh] exI[of _ "{}"]) auto
  next
    case True
    let ?sh1 = "AList.update k (gc_shard s) sh"
    have "shards_ok ?sh1" using Cons.prems(1) i by simp
    moreover have "set ids \<subseteq> int ` {..<NShards}" using Cons.prems(2) by simp
    ultimately obtain sh' T where IH: "gc_loop ids ?sh1 = Some sh'" "shards_ok sh'" "T \<subseteq> set ids"
      "\<And>k. map_of sh' k = (if k \<in> T then map_option gc_shard (map_of ?sh1 k) else map_of ?sh1 k)"
      "distinct ids \<and> (\<forall>k \<in> set ids. sm_Status (the (map_of ?sh1 k)) \<in> {GC, MoveOut}) \<longrightarrow> T = set ids"
      using Cons.IH[of ?sh1] by blast
    have idem: "gc_shard (gc_shard s) = gc_shard s"
      by (simp add: gc_shard_def NewShardStateMachine_def)
    have "map_of sh' k' = (if k' \<in> insert k T then map_option gc_shard (map_of sh k') else map_of sh k')" for k'
      using IH(4)[of k'] s idem by (simp add: AList.update_conv')
    moreover have "gc_loop (k # ids) sh = Some sh'"
      using s True IH(1) by (auto simp: gc_shard_def)
    moreover have "insert k T = set (k # ids)"
      if "distinct (k # ids)" "\<forall>k \<in> set (k # ids). sm_Status (the (map_of sh k)) \<in> {GC, MoveOut}"
    proof -
      have "\<forall>k \<in> set ids. sm_Status (the (map_of ?sh1 k)) \<in> {GC, MoveOut}"
        using that by (auto simp: AList.update_conv')
      with IH(5) that(1) show ?thesis by simp
    qed
    moreover have "insert k T \<subseteq> set (k # ids)" using IH(3) by auto
    ultimately show ?thesis using IH(2) by blast
  qed
qed

lemma gc_step:
  assumes ok: "sk_ok kv" and cmd: "cmd_ok (ShardGC args)"
  shows "\<exists>kv' rep T. applyShardGC kv args = Some (kv', rep) \<and> sk_ok kv' \<and> sk_gid kv' = sk_gid kv \<and>
    sk_currentConfig kv' = sk_currentConfig kv \<and> sk_prevConfig kv' = sk_prevConfig kv \<and>
    sk_duplicateTable kv' = sk_duplicateTable kv \<and>
    (\<forall>i<NShards. shard_at kv' i = (if i \<in> T then gc_shard (shard_at kv i) else shard_at kv i)) \<and>
    int ` T \<subseteq> set (soa_ShardIds args) \<and> (soa_ConfigNum args \<noteq> cfg_num kv \<longrightarrow> T = {}) \<and>
    (soa_ConfigNum args = cfg_num kv \<and> distinct (soa_ShardIds args) \<and>
       (\<forall>k \<in> set (soa_ShardIds args). shard_status kv (nat k) \<in> {GC, MoveOut}) \<longrightarrow> int ` T = set (soa_ShardIds args))"
proof (cases "soa_ConfigNum args = cfg_num kv")
  case False
  then have "applyShardGC kv args = Some (kv, \<lparr>or_Value = [], or_Err = OK\<rparr>)" by (simp add: applyShardGC_def)
  with False ok show ?thesis by (intro exI[of _ kv] exI[of _ "\<lparr>or_Value = [], or_Err = OK\<rparr>"] exI[of _ "{}"]) simp
next
  case True
  let ?ids = "soa_ShardIds args"
  have ids: "set ?ids \<subseteq> int ` {..<NShards}" using cmd by simp
  have "shards_ok (sk_shards kv)" using ok by (simp add: sk_ok_def)
  from gc_loop_eq[OF this ids] obtain sh' T where
    g: "gc_loop ?ids (sk_shards kv) = Some sh'" "shards_ok sh'" "T \<subseteq> set ?ids"
      "\<And>k. map_of sh' k = (if k \<in> T then map_option gc_shard (map_of (sk_shards kv) k) else map_of (sk_shards kv) k)"
      "distinct ?ids \<and> (\<forall>k \<in> set ?ids. sm_Status (the (map_of (sk_shards kv) k)) \<in> {GC, MoveOut}) \<longrightarrow> T = set ?ids"
    by blast
  let ?kv = "kv\<lparr>sk_shards := sh'\<rparr>"
  define Tn where "Tn = {i. int i \<in> T}"
  have T: "T = int ` Tn" using g(3) ids by (auto simp: Tn_def)
  have at: "shard_at ?kv i = (if i \<in> Tn then gc_shard (shard_at kv i) else shard_at kv i)" if "i < NShards" for i
    using g(4)[of "int i"] shard_lookup[OF ok that] by (simp add: shard_at_def[of ?kv] Tn_def)
  have full: "int ` Tn = set ?ids" if "distinct ?ids" "\<forall>k \<in> set ?ids. shard_status kv (nat k) \<in> {GC, MoveOut}"
  proof -
    have "\<forall>k \<in> set ?ids. sm_Status (the (map_of (sk_shards kv) k)) \<in> {GC, MoveOut}"
      using that(2) ids by (fastforce simp: shard_at_def)
    with that(1) g(5) T show ?thesis by blast
  qed
  have "applyShardGC kv args = Some (?kv, \<lparr>or_Value = [], or_Err = OK\<rparr>)"
    using True g(1) by (simp add: applyShardGC_def)
  moreover have "sk_ok ?kv" using ok g(2) by (simp add: sk_ok_def)
  ultimately show ?thesis
    using at True g(3)[unfolded T] full
    by (intro exI[of _ ?kv] exI[of _ "\<lparr>or_Value = [], or_Err = OK\<rparr>"] exI[of _ Tn]) auto
qed

section \<open>The status machine\<close>

text \<open>What a command may do to one shard while the configuration stays.\<close>

inductive shard_moves :: "'b ShardKV \<Rightarrow> RaftCommand \<Rightarrow> 'b ShardKV \<Rightarrow> nat \<Rightarrow> bool" for kv c kv' i where
  same: "shard_at kv' i = shard_at kv i \<Longrightarrow> shard_moves kv c kv' i"
| serve: "c = ClientOpeartion oper \<Longrightarrow> key2shard (op_Key oper) = int i \<Longrightarrow> shard_owner kv i = sk_gid kv \<Longrightarrow>
    shard_status kv i = Normal \<or> shard_status kv i = GC \<Longrightarrow> shard_status kv' i = shard_status kv i \<Longrightarrow>
    shard_moves kv c kv' i"
| take_over: "c = ShardMigration r \<Longrightarrow> sor_ConfigNum r = cfg_num kv \<Longrightarrow> int i \<in> fst ` set (sor_ShardData r) \<Longrightarrow>
    shard_status kv i = MoveIn \<Longrightarrow> shard_status kv' i = GC \<Longrightarrow>
    shard_data kv' i = shard_data kv i ++ the (map_of (sor_ShardData r) (int i)) \<Longrightarrow> shard_moves kv c kv' i"
| settle: "c = ShardGC args \<Longrightarrow> soa_ConfigNum args = cfg_num kv \<Longrightarrow> int i \<in> set (soa_ShardIds args) \<Longrightarrow>
    shard_status kv i = GC \<Longrightarrow> shard_status kv' i = Normal \<Longrightarrow> shard_data kv' i = shard_data kv i \<Longrightarrow>
    shard_moves kv c kv' i"
| drop_data: "c = ShardGC args \<Longrightarrow> soa_ConfigNum args = cfg_num kv \<Longrightarrow> int i \<in> set (soa_ShardIds args) \<Longrightarrow>
    shard_status kv i = MoveOut \<Longrightarrow> shard_at kv' i = NewShardStateMachine \<Longrightarrow> shard_moves kv c kv' i"

inductive_cases shard_moves_cases: "shard_moves kv c kv' i"

text \<open>A command that installs a configuration, or leaves it.\<close>

definition installs :: "'b ShardKV \<Rightarrow> RaftCommand \<Rightarrow> 'b ShardKV \<Rightarrow> bool" where
  "installs kv c kv' \<longleftrightarrow> (\<exists>cfg. c = ConfigChange cfg \<and> cfg_Num cfg = cfg_num kv + 1 \<and> sk_currentConfig kv' = cfg \<and>
     sk_prevConfig kv' = sk_currentConfig kv \<and> (\<forall>i<NShards. shard_data kv' i = shard_data kv i \<and>
       shard_status kv' i = new_status (sk_gid kv) (shard_owner kv i) (cfg_Shards cfg ! i) (shard_status kv i)))"

definition keeps_config :: "'b ShardKV \<Rightarrow> RaftCommand \<Rightarrow> 'b ShardKV \<Rightarrow> bool" where
  "keeps_config kv c kv' \<longleftrightarrow> sk_currentConfig kv' = sk_currentConfig kv \<and> sk_prevConfig kv' = sk_prevConfig kv \<and>
     (\<forall>i<NShards. shard_moves kv c kv' i)"

lemma execute_client:
  assumes "sk_ok kv"
  shows "\<exists>kv' r. sk_execute kv (ClientOpeartion oper) = Some (kv', r) \<and> sk_ok kv' \<and> sk_gid kv' = sk_gid kv \<and>
    keeps_config kv (ClientOpeartion oper) kv'"
proof -
  from client_step[OF assms, of oper] obtain kv' r where
    k: "applyClientOperation kv oper = Some (kv', r)" "sk_ok kv'"
      "kv' = kv\<lparr>sk_shards := sk_shards kv', sk_duplicateTable := sk_duplicateTable kv'\<rparr>"
      "\<forall>i<NShards. shard_status kv' i = shard_status kv i"
      "\<forall>i<NShards. shard_data kv' i \<noteq> shard_data kv i \<longrightarrow> key2shard (op_Key oper) = int i \<and>
         shard_owner kv i = sk_gid kv \<and> (shard_status kv i = Normal \<or> shard_status kv i = GC)" by blast
  have "shard_moves kv (ClientOpeartion oper) kv' i" if "i < NShards" for i
  proof (cases "shard_data kv' i = shard_data kv i")
    case True
    then show ?thesis using k(4) that by (intro shard_moves.same) simp
  next
    case False
    then show ?thesis using k(4,5) that by (intro shard_moves.serve[OF refl]) simp_all
  qed
  moreover have "sk_gid kv' = sk_gid kv" "sk_currentConfig kv' = sk_currentConfig kv" "sk_prevConfig kv' = sk_prevConfig kv"
    using arg_cong[OF k(3), of sk_gid] arg_cong[OF k(3), of sk_currentConfig] arg_cong[OF k(3), of sk_prevConfig]
    by simp_all
  ultimately show ?thesis using k(1,2) by (auto simp: sk_execute_def keeps_config_def)
qed

lemma execute_step:
  assumes "sk_ok kv" "cmd_ok c"
  shows "\<exists>kv' r. sk_execute kv c = Some (kv', r) \<and> sk_ok kv' \<and> sk_gid kv' = sk_gid kv \<and>
    (installs kv c kv' \<or> keeps_config kv c kv')"
proof (cases c)
  case (ClientOpeartion oper)
  then show ?thesis using execute_client[OF assms(1)] by blast
next
  case (ConfigChange cfg)
  then have "length (cfg_Shards cfg) = NShards" using assms(2) by simp
  from config_step[OF assms(1) this] obtain kv' r where
    k: "applyNewConfig kv cfg = Some (kv', r)" "sk_ok kv'" "sk_gid kv' = sk_gid kv"
      "if cfg_num kv + 1 = cfg_Num cfg then sk_currentConfig kv' = cfg \<and> sk_prevConfig kv' = sk_currentConfig kv \<and>
         (\<forall>i<NShards. shard_data kv' i = shard_data kv i \<and> shard_status kv' i =
            new_status (sk_gid kv) (shard_owner kv i) (cfg_Shards cfg ! i) (shard_status kv i)) else kv' = kv" by blast
  have "installs kv c kv' \<or> keeps_config kv c kv'"
    using k(4) ConfigChange by (auto simp: installs_def keeps_config_def intro: shard_moves.same split: if_splits)
  with k ConfigChange show ?thesis by (auto simp: sk_execute_def handleConfigChangeMessage_def)
next
  case (ShardMigration r)
  with assms(2) have "cmd_ok (ShardMigration r)" by simp
  from migration_step[OF assms(1) this] obtain kv' rep T where
    k: "applyShardMigration kv r = Some (kv', rep)" "sk_ok kv'" "sk_gid kv' = sk_gid kv"
      "sk_currentConfig kv' = sk_currentConfig kv" "sk_prevConfig kv' = sk_prevConfig kv"
      "\<forall>i<NShards. shard_at kv' i = (if i \<in> T then \<lparr>sm_KV = shard_data kv i ++ the (map_of (sor_ShardData r) (int i)),
         sm_Status = GC\<rparr> else shard_at kv i)"
      "\<forall>i\<in>T. i < NShards \<and> shard_status kv i = MoveIn \<and> int i \<in> fst ` set (sor_ShardData r)"
      "sor_ConfigNum r \<noteq> cfg_num kv \<longrightarrow> T = {}" by blast
  have "shard_moves kv c kv' i" if "i < NShards" for i
  proof (cases "i \<in> T")
    case True
    then show ?thesis using k(6-8) that ShardMigration by (intro shard_moves.take_over[of c r]) auto
  qed (use k(6) that in \<open>auto intro: shard_moves.same\<close>)
  with k(1-5) ShardMigration show ?thesis
    by (auto simp: sk_execute_def handleConfigChangeMessage_def keeps_config_def)
next
  case (ShardGC args)
  with assms(2) have "cmd_ok (ShardGC args)" by simp
  note st = gc_step[OF assms(1) this]
  obtain kv' rep T where
    k: "applyShardGC kv args = Some (kv', rep)" "sk_ok kv'" "sk_gid kv' = sk_gid kv"
      "sk_currentConfig kv' = sk_currentConfig kv" "sk_prevConfig kv' = sk_prevConfig kv"
      "\<forall>i<NShards. shard_at kv' i = (if i \<in> T then gc_shard (shard_at kv i) else shard_at kv i)"
      "int ` T \<subseteq> set (soa_ShardIds args)" "soa_ConfigNum args \<noteq> cfg_num kv \<longrightarrow> T = {}"
    by (rule exE[OF st], elim exE conjE) (rule that; assumption)
  have "shard_moves kv c kv' i" if "i < NShards" for i
  proof (cases "i \<in> T")
    case True
    then have i: "int i \<in> set (soa_ShardIds args)" "soa_ConfigNum args = cfg_num kv" using k(7,8) by auto
    have at: "shard_at kv' i = gc_shard (shard_at kv i)" using k(6) True that by simp
    show ?thesis
    proof (cases "shard_status kv i")
      case GC
      then show ?thesis using i at ShardGC by (intro shard_moves.settle[of c args]) (auto simp: gc_shard_def)
    next
      case MoveOut
      then show ?thesis using i at ShardGC by (intro shard_moves.drop_data[of c args]) (auto simp: gc_shard_def)
    qed (use at in \<open>auto simp: gc_shard_def intro: shard_moves.same\<close>)
  qed (use k(6) that in \<open>auto intro: shard_moves.same\<close>)
  with k(1-5) ShardGC show ?thesis
    by (auto simp: sk_execute_def handleConfigChangeMessage_def keeps_config_def)
qed

section \<open>Shards taken over and settled\<close>

definition migrated :: "'b ShardKV \<Rightarrow> ShardOperationReply \<Rightarrow> 'b ShardKV \<Rightarrow> nat set \<Rightarrow> bool" where
  "migrated kv r kv' T \<longleftrightarrow> sk_gid kv' = sk_gid kv \<and>
    sk_currentConfig kv' = sk_currentConfig kv \<and> sk_prevConfig kv' = sk_prevConfig kv \<and>
    (\<forall>i<NShards. shard_at kv' i = (if i \<in> T then \<lparr>sm_KV = shard_data kv i ++ the (map_of (sor_ShardData r) (int i)), sm_Status = GC\<rparr>
       else shard_at kv i)) \<and>
    (\<forall>i\<in>T. i < NShards \<and> shard_status kv i = MoveIn \<and> int i \<in> fst ` set (sor_ShardData r)) \<and>
    (sor_ConfigNum r \<noteq> cfg_num kv \<longrightarrow> T = {}) \<and>
    (sor_ConfigNum r = cfg_num kv \<and> (\<forall>k \<in> fst ` set (sor_ShardData r). shard_status kv (nat k) = MoveIn) \<longrightarrow>
       int ` T = fst ` set (sor_ShardData r))"

definition collected :: "'b ShardKV \<Rightarrow> ShardOperationArgs \<Rightarrow> 'b ShardKV \<Rightarrow> nat set \<Rightarrow> bool" where
  "collected kv args kv' T \<longleftrightarrow> sk_gid kv' = sk_gid kv \<and>
    sk_currentConfig kv' = sk_currentConfig kv \<and> sk_prevConfig kv' = sk_prevConfig kv \<and>
    sk_duplicateTable kv' = sk_duplicateTable kv \<and>
    (\<forall>i<NShards. shard_at kv' i = (if i \<in> T then gc_shard (shard_at kv i) else shard_at kv i)) \<and>
    int ` T \<subseteq> set (soa_ShardIds args) \<and> (soa_ConfigNum args \<noteq> cfg_num kv \<longrightarrow> T = {}) \<and>
    (soa_ConfigNum args = cfg_num kv \<and> distinct (soa_ShardIds args) \<and>
       (\<forall>k \<in> set (soa_ShardIds args). shard_status kv (nat k) \<in> {GC, MoveOut}) \<longrightarrow> int ` T = set (soa_ShardIds args))"

lemma execute_migrated:
  assumes "sk_ok kv" "cmd_ok (ShardMigration r)"
  shows "\<exists>kv' rep T. sk_execute kv (ShardMigration r) = Some (kv', rep) \<and> sk_ok kv' \<and> migrated kv r kv' T"
  using migration_step[OF assms] unfolding migrated_def[symmetric]
  by (simp add: sk_execute_def handleConfigChangeMessage_def)

lemma execute_collected:
  assumes "sk_ok kv" "cmd_ok (ShardGC args)"
  shows "\<exists>kv' rep T. sk_execute kv (ShardGC args) = Some (kv', rep) \<and> sk_ok kv' \<and> collected kv args kv' T"
  using gc_step[OF assms] unfolding collected_def[symmetric]
  by (simp add: sk_execute_def handleConfigChangeMessage_def)

lemma migratedD:
  assumes "migrated kv r kv' T"
  shows "sk_gid kv' = sk_gid kv" "sk_currentConfig kv' = sk_currentConfig kv" "sk_prevConfig kv' = sk_prevConfig kv"
    "i < NShards \<Longrightarrow> shard_at kv' i = (if i \<in> T then \<lparr>sm_KV = shard_data kv i ++ the (map_of (sor_ShardData r) (int i)), sm_Status = GC\<rparr>
       else shard_at kv i)"
    "i \<in> T \<Longrightarrow> i < NShards \<and> shard_status kv i = MoveIn \<and> int i \<in> fst ` set (sor_ShardData r)"
    "sor_ConfigNum r \<noteq> cfg_num kv \<Longrightarrow> T = {}"
    "sor_ConfigNum r = cfg_num kv \<Longrightarrow> \<forall>k \<in> fst ` set (sor_ShardData r). shard_status kv (nat k) = MoveIn \<Longrightarrow>
       int ` T = fst ` set (sor_ShardData r)"
  using assms by (unfold migrated_def) (elim conjE, assumption | blast)+

lemma collectedD:
  assumes "collected kv args kv' T"
  shows "sk_gid kv' = sk_gid kv" "sk_currentConfig kv' = sk_currentConfig kv" "sk_prevConfig kv' = sk_prevConfig kv"
    "i < NShards \<Longrightarrow> shard_at kv' i = (if i \<in> T then gc_shard (shard_at kv i) else shard_at kv i)"
    "int ` T \<subseteq> set (soa_ShardIds args)" "soa_ConfigNum args \<noteq> cfg_num kv \<Longrightarrow> T = {}"
    "soa_ConfigNum args = cfg_num kv \<Longrightarrow> distinct (soa_ShardIds args) \<Longrightarrow>
       \<forall>k \<in> set (soa_ShardIds args). shard_status kv (nat k) \<in> {GC, MoveOut} \<Longrightarrow> int ` T = set (soa_ShardIds args)"
  using assms by (unfold collected_def) (elim conjE, assumption | blast)+

end
