(* ===== verification/Shard_Groups.thy ===== *)
theory Shard_Groups
  imports Shard_Steps
begin

text \<open>
  Several sharded key/value groups together. A group is its committed log: the state of a replica is
  what replaying a prefix of the log gives. A step appends one command to the log of one group, for
  a reason some replica has: a client sent an operation, a leader fetched the next configuration,
  received shard data, or was asked to delete, or had confirmed, shards. Replicas may be behind the
  log, requests and replies may be arbitrarily late or repeated, and the answer of a group to a
  deletion request is not relied upon.

  \<open>conf\<close> is the history of configurations of the shard controller, \<open>server_gid\<close> the group a server
  name belongs to.
\<close>

section \<open>Replaying a log\<close>

primrec sk_replay :: "'b ShardKV \<Rightarrow> RaftCommand list \<Rightarrow> 'b ShardKV option" where
  "sk_replay kv [] = Some kv"
| "sk_replay kv (c # cs) = do { (kv1, _) \<leftarrow> sk_execute kv c; sk_replay kv1 cs }"

lemma sk_replay_append: "sk_replay kv (cs @ ds) = do { kv1 \<leftarrow> sk_replay kv cs; sk_replay kv1 ds }"
proof (induction cs arbitrary: kv)
  case (Cons c cs)
  then show ?case by (cases "sk_execute kv c") auto
qed simp

text \<open>The state before the first command of a replica of group \<open>g\<close>; the log does not depend on its Raft
  peer, so the peer is the one of a group of one server.\<close>

definition group_init :: "int \<Rightarrow> RaftCommand gob ShardKV" where
  "group_init g = \<lparr>sk_me = 0, sk_rf = Make cell_codec 1 0 MakePersister, sk_gid = g, sk_maxraftstate = -1,
     sk_dead = False, sk_lastApplied = 0, sk_shards = init_shards [], sk_notifyChans = chans_empty,
     sk_duplicateTable = (\<lambda>_. None), sk_currentConfig = DefaultConfig, sk_prevConfig = DefaultConfig\<rparr>"

type_synonym logs = "int \<Rightarrow> RaftCommand list"

definition state_at :: "logs \<Rightarrow> int \<Rightarrow> nat \<Rightarrow> RaftCommand gob ShardKV" where
  "state_at L g k = the (sk_replay (group_init g) (take k (L g)))"

text \<open>A replica of \<open>g\<close> that has applied \<open>k\<close> commands: same shards, table and configurations as the replay.
  The order of the shards in its map, its role and its channels are its own.\<close>

definition replica :: "logs \<Rightarrow> int \<Rightarrow> nat \<Rightarrow> RaftCommand gob ShardKV \<Rightarrow> bool" where
  "replica L g k kv \<longleftrightarrow> k \<le> length (L g) \<and> sk_gid kv = g \<and> gomap_ok (sk_shards kv) \<and>
     map_of (sk_shards kv) = map_of (sk_shards (state_at L g k)) \<and>
     sk_duplicateTable kv = sk_duplicateTable (state_at L g k) \<and>
     sk_currentConfig kv = sk_currentConfig (state_at L g k) \<and> sk_prevConfig kv = sk_prevConfig (state_at L g k)"

section \<open>Steps\<close>

inductive gstep :: "Config list \<Rightarrow> (string \<Rightarrow> int) \<Rightarrow> logs \<Rightarrow> logs \<Rightarrow> bool" for conf server_gid where
  client: "gstep conf server_gid L (L(g := L g @ [ClientOpeartion oper]))"
| config: "g \<noteq> 0 \<Longrightarrow> replica L g k kv \<Longrightarrow> fetchConfig_begin kv = Some num \<Longrightarrow>
    csm_Query \<lparr>Configs = take j conf\<rparr> (num + 1) = Some (cfg, OK) \<Longrightarrow> cfg_Num cfg = num + 1 \<Longrightarrow>
    gstep conf server_gid L (L(g := L g @ [ConfigChange cfg]))"
| migrate: "replica L g k kv \<Longrightarrow> shardMigration_begin kv = Some jobs \<Longrightarrow> (servers, args) \<in> set jobs \<Longrightarrow>
    server \<in> set servers \<Longrightarrow> replica L (server_gid server) k' kv' \<Longrightarrow> GetShardsData kv' args = Some r \<Longrightarrow>
    sor_Err r = OK \<Longrightarrow> gstep conf server_gid L (L(g := L g @ [ShardMigration r]))"
| delete: "replica L g k kv \<Longrightarrow> shardGC_begin kv = Some jobs \<Longrightarrow> (servers, args) \<in> set jobs \<Longrightarrow>
    server \<in> set servers \<Longrightarrow> h = server_gid server \<Longrightarrow> replica L h k' kv' \<Longrightarrow>
    cfg_num kv' \<le> soa_ConfigNum args \<Longrightarrow> gstep conf server_gid L (L(h := L h @ [ShardGC args]))"
| confirm: "replica L g k kv \<Longrightarrow> shardGC_begin kv = Some jobs \<Longrightarrow> (servers, args) \<in> set jobs \<Longrightarrow>
    gstep conf server_gid L (L(g := L g @ [ShardGC args]))"

inductive reachable :: "Config list \<Rightarrow> (string \<Rightarrow> int) \<Rightarrow> logs \<Rightarrow> bool" for conf server_gid where
  start: "reachable conf server_gid (\<lambda>_. [])"
| step: "reachable conf server_gid L \<Longrightarrow> gstep conf server_gid L L' \<Longrightarrow> reachable conf server_gid L'"

text \<open>What is assumed of the controller's history: the first configuration is empty, configurations are
  numbered by their position, the servers of a group belong to it, no group has number 0, and a
  shard that had an owner always has one, that is, the groups never all leave.\<close>

definition history_ok :: "Config list \<Rightarrow> (string \<Rightarrow> int) \<Rightarrow> bool" where
  "history_ok conf server_gid \<longleftrightarrow> csm_ok \<lparr>Configs = conf\<rparr> \<and> conf ! 0 = DefaultConfig \<and>
     (\<forall>c \<in> set conf. \<forall>(gid, servers) \<in> set (cfg_Groups c). \<forall>s \<in> set servers. server_gid s = gid)"

definition never_orphaned :: "Config list \<Rightarrow> bool" where
  "never_orphaned conf \<longleftrightarrow> (\<forall>n i. Suc n < length conf \<longrightarrow> i < NShards \<longrightarrow>
     cfg_Shards (conf ! n) ! i \<noteq> 0 \<longrightarrow> cfg_Shards (conf ! Suc n) ! i \<noteq> 0)"

abbreviation owner_in :: "Config list \<Rightarrow> nat \<Rightarrow> nat \<Rightarrow> int" where
  "owner_in conf n i \<equiv> cfg_Shards (conf ! n) ! i"

text \<open>Group \<open>g\<close> serves shard \<open>i\<close>: a client operation on it, next in the log, takes effect.\<close>

definition serves :: "logs \<Rightarrow> int \<Rightarrow> nat \<Rightarrow> bool" where
  "serves L g i \<longleftrightarrow> (let kv = state_at L g (length (L g)) in
     shard_owner kv i = g \<and> (shard_status kv i = Normal \<or> shard_status kv i = GC))"

section \<open>States of a group\<close>

lemma init_shards_empty:
  "shards_ok (init_shards [])" "i < NShards \<Longrightarrow> map_of (init_shards []) (int i) = Some NewShardStateMachine"
proof -
  let ?f = "\<lambda>i m. case map_of m (int i) of None \<Rightarrow> AList.update (int i) NewShardStateMachine m | Some _ \<Rightarrow> m"
  have "gomap_ok (fold ?f [0..<n] []) \<and> fst ` set (fold ?f [0..<n] []) = int ` {..<n} \<and>
     (\<forall>i<n. map_of (fold ?f [0..<n] []) (int i) = Some NewShardStateMachine)" for n
  proof (induction n)
    case (Suc n)
    let ?m = "fold ?f [0..<n] []"
    from Suc have "map_of ?m (int n) = None" by (auto simp: map_of_eq_None_iff)
    then have "fold ?f [0..<Suc n] [] = AList.update (int n) NewShardStateMachine ?m" by simp
    with Suc show ?case by (auto simp: AList.update_conv' lessThan_Suc less_Suc_eq)
  qed simp
  then show "shards_ok (init_shards [])" "i < NShards \<Longrightarrow> map_of (init_shards []) (int i) = Some NewShardStateMachine"
    by (auto simp: shards_ok_def init_shards_def)
qed

lemma group_init_ok: "sk_ok (group_init g)" "sk_gid (group_init g) = g" "cfg_num (group_init g) = 0"
  "i < NShards \<Longrightarrow> shard_at (group_init g) i = NewShardStateMachine"
  using init_shards_empty by (simp_all add: sk_ok_def group_init_def DefaultConfig_def shard_at_def)

lemma sk_replay_ok:
  assumes "\<forall>c \<in> set cs. cmd_ok c" "sk_ok kv"
  shows "\<exists>kv'. sk_replay kv cs = Some kv' \<and> sk_ok kv' \<and> sk_gid kv' = sk_gid kv"
  using assms
proof (induction cs arbitrary: kv)
  case (Cons c cs)
  from execute_step[OF Cons.prems(2), of c] Cons.prems(1) obtain kv1 r where
    "sk_execute kv c = Some (kv1, r)" "sk_ok kv1" "sk_gid kv1 = sk_gid kv" by auto
  with Cons.IH[of kv1] Cons.prems(1) show ?case by auto
qed simp

lemma state_at_0 [simp]: "state_at L g 0 = group_init g"
  by (simp add: state_at_def)

lemma state_at_extend: "k \<le> length (L g) \<Longrightarrow> state_at (L(h := L h @ cs)) g k = state_at L g k"
  by (auto simp: state_at_def)

definition logs_ok :: "logs \<Rightarrow> bool" where
  "logs_ok L \<longleftrightarrow> (\<forall>g. \<forall>c \<in> set (L g). cmd_ok c)"

lemma state_at_ok:
  assumes "logs_ok L"
  shows "sk_ok (state_at L g k)" "sk_gid (state_at L g k) = g"
    "sk_replay (group_init g) (take k (L g)) = Some (state_at L g k)"
proof -
  have "\<forall>c \<in> set (take k (L g)). cmd_ok c" using assms set_take_subset unfolding logs_ok_def by fastforce
  from sk_replay_ok[OF this group_init_ok(1)] obtain kv where
    "sk_replay (group_init g) (take k (L g)) = Some kv" "sk_ok kv" "sk_gid kv = g"
    using group_init_ok(2) by metis
  then show "sk_ok (state_at L g k)" "sk_gid (state_at L g k) = g"
    "sk_replay (group_init g) (take k (L g)) = Some (state_at L g k)" by (simp_all add: state_at_def)
qed

lemma state_at_Suc:
  assumes "logs_ok L" "k < length (L g)"
  shows "\<exists>r. sk_execute (state_at L g k) (L g ! k) = Some (state_at L g (Suc k), r)"
    and "installs (state_at L g k) (L g ! k) (state_at L g (Suc k)) \<or>
      keeps_config (state_at L g k) (L g ! k) (state_at L g (Suc k))"
proof -
  have "cmd_ok (L g ! k)" using assms nth_mem unfolding logs_ok_def by blast
  from execute_step[OF state_at_ok(1)[OF assms(1)] this] obtain kv' r where
    ex: "sk_execute (state_at L g k) (L g ! k) = Some (kv', r)"
      "installs (state_at L g k) (L g ! k) kv' \<or> keeps_config (state_at L g k) (L g ! k) kv'" by blast
  have "sk_replay (group_init g) (take (Suc k) (L g)) = Some kv'"
    using state_at_ok(3)[OF assms(1), where g = g and k = k] ex(1) assms(2)
    by (simp add: take_Suc_conv_app_nth sk_replay_append)
  then have "state_at L g (Suc k) = kv'" by (simp add: state_at_def)
  with ex show "\<exists>r. sk_execute (state_at L g k) (L g ! k) = Some (state_at L g (Suc k), r)"
    "installs (state_at L g k) (L g ! k) (state_at L g (Suc k)) \<or>
      keeps_config (state_at L g k) (L g ! k) (state_at L g (Suc k))" by auto
qed

section \<open>What a leader asks for\<close>

lemma shardByStatus_loop_spec:
  assumes "shardByStatus_loop prev st shards m = Some m'" "gomap_ok m" "gomap_ok shards"
  shows "gomap_ok m' \<and> (\<forall>gid. mget [] m' gid = mget [] m gid @
    map fst (filter (\<lambda>(i, s). sm_Status s = st \<and> gid \<noteq> 0 \<and> go_nth (cfg_Shards prev) i = Some gid) shards)) \<and>
    (\<forall>gid \<in> fst ` set m'. gid \<in> fst ` set m \<or> gid \<noteq> 0)"
  using assms
proof (induction shards arbitrary: m)
  case Nil
  then show ?case by simp
next
  case (Cons p shards)
  obtain i s where is': "p = (i, s)" by fastforce
  have gs: "gomap_ok shards" using Cons.prems(3) is' by (simp add: gomap_ok_Cons)
  show ?case
  proof (cases "sm_Status s = st")
    case False
    then show ?thesis using Cons.IH[of m] Cons.prems(1,2) gs is' by simp
  next
    case True
    then obtain gid where gid: "go_nth (cfg_Shards prev) i = Some gid"
      using Cons.prems(1) is' by (cases "go_nth (cfg_Shards prev) i") auto
    show ?thesis
    proof (cases "gid = 0")
      case zero: True
      then show ?thesis using Cons.IH[of m] Cons.prems(1,2) gs is' True gid by auto
    next
      case nz: False
      let ?m = "AList.update gid (mget [] m gid @ [i]) m"
      have "shardByStatus_loop prev st shards ?m = Some m'" using Cons.prems(1) is' True gid nz by simp
      from Cons.IH[OF this gomap_ok_update[OF Cons.prems(2)] gs] is' True gid nz show ?thesis by auto
    qed
  qed
qed

lemma replica_shard:
  assumes "logs_ok L" "replica L g k kv"
  shows "fst ` set (sk_shards kv) = int ` {..<NShards}" "gomap_ok (sk_shards kv)"
    "(int i, s) \<in> set (sk_shards kv) \<longleftrightarrow> i < NShards \<and> s = shard_at (state_at L g k) i"
proof -
  have st: "shards_ok (sk_shards (state_at L g k))" using state_at_ok(1)[OF assms(1)] by (simp add: sk_ok_def)
  have r: "map_of (sk_shards kv) = map_of (sk_shards (state_at L g k))" "gomap_ok (sk_shards kv)"
    using assms(2) by (simp_all add: replica_def)
  then show "fst ` set (sk_shards kv) = int ` {..<NShards}" "gomap_ok (sk_shards kv)"
    using st by (metis shards_ok_def dom_map_of_conv_image_fst)+
  note keys = this(1)
  have "(int i, s) \<in> set (sk_shards kv) \<longleftrightarrow> map_of (sk_shards kv) (int i) = Some s"
    using r(2) by (simp add: gomap_ok_def)
  moreover have "map_of (sk_shards kv) (int i) = (if i < NShards then Some (shard_at (state_at L g k) i) else None)"
  proof (cases "i < NShards")
    case True
    then show ?thesis using r(1) shard_lookup[OF state_at_ok(1)[OF assms(1)]] by simp
  next
    case False
    then have "int i \<notin> fst ` set (sk_shards kv)" using keys by auto
    then show ?thesis using False by (simp add: map_of_eq_None_iff)
  qed
  ultimately show "(int i, s) \<in> set (sk_shards kv) \<longleftrightarrow> i < NShards \<and> s = shard_at (state_at L g k) i" by auto
qed

text \<open>A job of a leader: all shards of one previous owner that have the status.\<close>

lemma task_jobs_spec:
  assumes ok: "logs_ok L" and rep: "replica L g k kv" and jobs: "task_jobs kv st = Some jobs" "(servers, args) \<in> set jobs"
  shows "\<exists>gid. gid \<noteq> 0 \<and> servers = mget [] (cfg_Groups (sk_prevConfig (state_at L g k))) gid \<and>
    soa_ConfigNum args = cfg_num (state_at L g k) \<and> distinct (soa_ShardIds args) \<and>
    set (soa_ShardIds args) = int ` {i. i < NShards \<and> shard_status (state_at L g k) i = st \<and>
      cfg_Shards (sk_prevConfig (state_at L g k)) ! i = gid}"
proof -
  let ?S = "state_at L g k"
  note sh = replica_shard[OF ok rep]
  from jobs obtain m gid ids where m: "getShardByStatus kv st = Some m" "(gid, ids) \<in> set m"
      "servers = mget [] (cfg_Groups (sk_prevConfig kv)) gid"
      "args = \<lparr>soa_ConfigNum = cfg_num kv, soa_ShardIds = ids\<rparr>"
    by (auto simp: task_jobs_def bind_eq_Some_conv)
  from shardByStatus_loop_spec[OF m(1)[unfolded getShardByStatus_def] gomap_ok_Nil sh(2)]
  have sp: "gomap_ok m" "\<And>gid. mget [] m gid = map fst (filter (\<lambda>(i, s). sm_Status s = st \<and> gid \<noteq> 0 \<and>
      go_nth (cfg_Shards (sk_prevConfig kv)) i = Some gid) (sk_shards kv))" "\<And>gid. gid \<in> fst ` set m \<Longrightarrow> gid \<noteq> 0" by auto
  have cfgs: "sk_prevConfig kv = sk_prevConfig ?S" "sk_currentConfig kv = sk_currentConfig ?S"
    using rep by (simp_all add: replica_def)
  have gid: "gid \<noteq> 0" using sp(3)[of gid] m(2) by force
  have ids: "ids = map fst (filter (\<lambda>(i, s). sm_Status s = st \<and> gid \<noteq> 0 \<and>
      go_nth (cfg_Shards (sk_prevConfig kv)) i = Some gid) (sk_shards kv))"
    using sp(2)[of gid] mget_in[OF sp(1) m(2), of "[]"] by simp
  have len: "length (cfg_Shards (sk_prevConfig ?S)) = NShards" using state_at_ok(1)[OF ok] by (simp add: sk_ok_def)
  have "distinct ids" unfolding ids using sh(2) by (simp add: gomap_ok_def distinct_map_filter)
  moreover have "set ids = int ` {i. i < NShards \<and> shard_status ?S i = st \<and> cfg_Shards (sk_prevConfig ?S) ! i = gid}"
  proof (rule set_eqI)
    fix x
    have "x \<in> set ids \<longleftrightarrow> (\<exists>s. (x, s) \<in> set (sk_shards kv) \<and> sm_Status s = st \<and>
        go_nth (cfg_Shards (sk_prevConfig ?S)) x = Some gid)"
      unfolding ids using gid cfgs(1) by (force simp: image_iff)
    also have "\<dots> \<longleftrightarrow> (\<exists>i. x = int i \<and> i < NShards \<and> shard_status ?S i = st \<and> cfg_Shards (sk_prevConfig ?S) ! i = gid)"
    proof
      assume "\<exists>s. (x, s) \<in> set (sk_shards kv) \<and> sm_Status s = st \<and> go_nth (cfg_Shards (sk_prevConfig ?S)) x = Some gid"
      then obtain s where s: "(x, s) \<in> set (sk_shards kv)" "sm_Status s = st"
        "go_nth (cfg_Shards (sk_prevConfig ?S)) x = Some gid" by blast
      from s(1) have "x \<in> fst ` set (sk_shards kv)" by force
      then obtain i where i: "x = int i" "i < NShards" using sh(1) by auto
      with s sh(3)[of i s] go_nth_config[OF len i(2)]
      show "\<exists>i. x = int i \<and> i < NShards \<and> shard_status ?S i = st \<and> cfg_Shards (sk_prevConfig ?S) ! i = gid" by auto
    next
      assume "\<exists>i. x = int i \<and> i < NShards \<and> shard_status ?S i = st \<and> cfg_Shards (sk_prevConfig ?S) ! i = gid"
      then obtain i where i: "x = int i" "i < NShards" "shard_status ?S i = st" "cfg_Shards (sk_prevConfig ?S) ! i = gid"
        by blast
      then show "\<exists>s. (x, s) \<in> set (sk_shards kv) \<and> sm_Status s = st \<and>
          go_nth (cfg_Shards (sk_prevConfig ?S)) x = Some gid"
        using sh(3)[of i "shard_at ?S i"] go_nth_config[OF len i(2)] by auto
    qed
    finally show "x \<in> set ids \<longleftrightarrow> x \<in> int ` {i. i < NShards \<and> shard_status ?S i = st \<and>
      cfg_Shards (sk_prevConfig ?S) ! i = gid}" by auto
  qed
  ultimately show ?thesis using gid m(3,4) cfgs by (intro exI[of _ gid]) simp
qed

text \<open>The data a group hands out.\<close>

lemma copyShards_spec:
  assumes "copyShards shards ids d0 = Some d" "gomap_ok d0"
  shows "gomap_ok d \<and> fst ` set d = fst ` set d0 \<union> set ids \<and>
    (\<forall>x. map_of d x = (if x \<in> set ids then map_option sm_KV (map_of shards x) else map_of d0 x))"
  using assms
proof (induction ids arbitrary: d0)
  case Nil
  then show ?case by simp
next
  case (Cons x ids)
  from Cons.prems obtain s where s: "map_of shards x = Some s"
    "copyShards shards ids (AList.update x (shard_copyData s) d0) = Some d" by (auto simp: bind_eq_Some_conv)
  from Cons.IH[OF s(2)] Cons.prems(2) s(1) show ?case
    by (auto simp: AList.update_conv' shard_copyData_def)
qed

lemma GetShardsData_OK:
  assumes "GetShardsData kv args = Some r" "sor_Err r = OK"
  shows "soa_ConfigNum args \<le> cfg_num kv \<and> sor_ConfigNum r = soa_ConfigNum args \<and> gomap_ok (sor_ShardData r) \<and>
    fst ` set (sor_ShardData r) = set (soa_ShardIds args) \<and>
    (\<forall>x \<in> set (soa_ShardIds args). map_of (sor_ShardData r) x = map_option sm_KV (map_of (sk_shards kv) x)) \<and>
    sor_DuplicateTable r = sk_duplicateTable kv"
proof -
  have "copyInfo = id" by (auto simp: copyInfo_def fun_eq_iff)
  then have copy: "(\<lambda>c. map_option copyInfo (sk_duplicateTable kv c)) = sk_duplicateTable kv"
    by (simp add: option.map_id)
  from assms obtain d where d: "copyShards (sk_shards kv) (soa_ShardIds args) [] = Some d"
      "\<not> cfg_num kv < soa_ConfigNum args" "sor_ShardData r = d" "sor_ConfigNum r = soa_ConfigNum args"
      "sor_DuplicateTable r = sk_duplicateTable kv"
    by (auto simp: GetShardsData_def Let_def bind_eq_Some_conv copy split: if_splits)
  from copyShards_spec[OF d(1)] d(2-) show ?thesis by auto
qed

end
