(* ===== verification/Shard_Safety.thy ===== *)
theory Shard_Safety
  imports Shard_Groups
begin

text \<open>
  Safety of the sharded service: the configurations of the groups follow the controller's history and
  change only when no shard is moving, a shard is served by at most one group at a time, and a group
  takes over exactly the data the previous owner had when it stopped serving.
\<close>

section \<open>Why a command is in a log\<close>

definition settled :: "'b ShardKV \<Rightarrow> bool" where
  "settled kv \<longleftrightarrow> (\<forall>i<NShards. shard_status kv i = Normal)"

definition from_owner :: "'b ShardKV \<Rightarrow> ShardStatus \<Rightarrow> int \<Rightarrow> nat set" where
  "from_owner kv st h = {i. i < NShards \<and> shard_status kv i = st \<and> cfg_Shards (sk_prevConfig kv) ! i = h}"

text \<open>The reply \<open>r\<close> is the answer of a replica of \<open>h\<close> that has reached the configuration.\<close>

definition data_from :: "logs \<Rightarrow> int \<Rightarrow> ShardOperationReply \<Rightarrow> bool" where
  "data_from L h r \<longleftrightarrow> (\<exists>k\<le>length (L h). sor_ConfigNum r \<le> cfg_num (state_at L h k) \<and>
     sor_DuplicateTable r = sk_duplicateTable (state_at L h k) \<and>
     (\<forall>i<NShards. int i \<in> fst ` set (sor_ShardData r) \<longrightarrow>
        map_of (sor_ShardData r) (int i) = Some (shard_data (state_at L h k) i)))"

lemma data_from_extend: "data_from L h r \<Longrightarrow> data_from (L(g := L g @ cs)) h r"
  unfolding data_from_def
proof (elim exE conjE)
  fix k
  assume k: "k \<le> length (L h)" "sor_ConfigNum r \<le> cfg_num (state_at L h k)"
    "sor_DuplicateTable r = sk_duplicateTable (state_at L h k)"
    "\<forall>i<NShards. int i \<in> fst ` set (sor_ShardData r) \<longrightarrow> map_of (sor_ShardData r) (int i) = Some (shard_data (state_at L h k) i)"
  have "k \<le> length ((L(g := L g @ cs)) h)" using k(1) by auto
  with k show "\<exists>k\<le>length ((L(g := L g @ cs)) h). sor_ConfigNum r \<le> cfg_num (state_at (L(g := L g @ cs)) h k) \<and>
     sor_DuplicateTable r = sk_duplicateTable (state_at (L(g := L g @ cs)) h k) \<and>
     (\<forall>i<NShards. int i \<in> fst ` set (sor_ShardData r) \<longrightarrow>
        map_of (sor_ShardData r) (int i) = Some (shard_data (state_at (L(g := L g @ cs)) h k) i))"
    by (intro exI[of _ k]) (simp only: state_at_extend simp_thms)
qed

primrec just :: "Config list \<Rightarrow> logs \<Rightarrow> int \<Rightarrow> nat \<Rightarrow> RaftCommand \<Rightarrow> bool" where
  "just conf L g j (ClientOpeartion oper) \<longleftrightarrow> True"
| "just conf L g j (ConfigChange cfg) \<longleftrightarrow> cfg \<in> set conf \<and>
     (\<exists>k\<le>j. settled (state_at L g k) \<and> cfg_Num cfg = cfg_num (state_at L g k) + 1)"
| "just conf L g j (ShardMigration r) \<longleftrightarrow> gomap_ok (sor_ShardData r) \<and>
     (\<exists>k\<le>j. \<exists>h. h \<noteq> 0 \<and> sor_ConfigNum r = cfg_num (state_at L g k) \<and>
        fst ` set (sor_ShardData r) = int ` from_owner (state_at L g k) MoveIn h \<and>
        data_from L h r)"
| "just conf L g j (ShardGC args) \<longleftrightarrow> distinct (soa_ShardIds args) \<and>
     (\<exists>g0 k h. k \<le> length (L g0) \<and> (g = g0 \<and> k \<le> j \<or> g = h) \<and> h \<noteq> 0 \<and>
        soa_ConfigNum args = cfg_num (state_at L g0 k) \<and>
        set (soa_ShardIds args) = int ` from_owner (state_at L g0 k) GC h)"

definition all_just :: "Config list \<Rightarrow> logs \<Rightarrow> bool" where
  "all_just conf L \<longleftrightarrow> (\<forall>g j. j < length (L g) \<longrightarrow> just conf L g j (L g ! j))"

lemma all_justD: "all_just conf L \<Longrightarrow> j < length (L g) \<Longrightarrow> just conf L g j (L g ! j)"
  by (simp add: all_just_def)

lemma just_extend:
  assumes "just conf L g j c" "j \<le> length (L g)"
  shows "just conf (L(h := L h @ cs)) g j c"
proof (cases c)
  case (ClientOpeartion oper)
  then show ?thesis by simp
next
  case (ConfigChange cfg)
  with assms obtain k where "k \<le> j" "settled (state_at L g k)" "cfg_Num cfg = cfg_num (state_at L g k) + 1" "cfg \<in> set conf"
    by auto
  with ConfigChange assms(2) show ?thesis by (auto simp: state_at_extend intro!: exI[of _ k])
next
  case (ShardMigration r)
  with assms(1) obtain k h' where k: "k \<le> j" "h' \<noteq> 0" "sor_ConfigNum r = cfg_num (state_at L g k)"
    "fst ` set (sor_ShardData r) = int ` from_owner (state_at L g k) MoveIn h'" "data_from L h' r" "gomap_ok (sor_ShardData r)"
    by auto
  have "state_at (L(h := L h @ cs)) g k = state_at L g k" using k(1) assms(2) by (simp add: state_at_extend)
  with k data_from_extend[OF k(5)] ShardMigration show ?thesis by (simp only: just.simps) metis
next
  case (ShardGC args)
  with assms(1) obtain g0 k h' where k: "k \<le> length (L g0)" "g = g0 \<and> k \<le> j \<or> g = h'" "h' \<noteq> 0"
    "soa_ConfigNum args = cfg_num (state_at L g0 k)"
    "set (soa_ShardIds args) = int ` from_owner (state_at L g0 k) GC h'" "distinct (soa_ShardIds args)" by auto
  have st: "state_at (L(h := L h @ cs)) g0 k = state_at L g0 k" using k(1) by (simp add: state_at_extend)
  have "k \<le> length ((L(h := L h @ cs)) g0)" using k(1) by auto
  with k st ShardGC show ?thesis by (simp only: just.simps) metis
qed

section \<open>The configurations of a group\<close>

lemma history_nth:
  assumes "history_ok conf sg" "n < length conf"
  shows "cfg_Num (conf ! n) = int n" "length (cfg_Shards (conf ! n)) = NShards" "gomap_ok (cfg_Groups (conf ! n))"
  using assms by (auto simp: history_ok_def csm_ok_def config_ok_def)

lemma history_mem:
  assumes "history_ok conf sg" "cfg \<in> set conf"
  shows "\<exists>n<length conf. cfg = conf ! n \<and> cfg_Num cfg = int n"
  using assms history_nth(1)[OF assms(1)] by (metis in_set_conv_nth)

lemma just_cmd_ok:
  assumes "history_ok conf sg" "just conf L g j c"
  shows "cmd_ok c"
proof (cases c)
  case (ConfigChange cfg)
  with assms(2) history_mem[OF assms(1)] history_nth(2)[OF assms(1)] show ?thesis by auto
qed (use assms(2) in \<open>auto simp: from_owner_def\<close>)

lemma all_just_logs_ok: "history_ok conf sg \<Longrightarrow> all_just conf L \<Longrightarrow> logs_ok L"
  unfolding logs_ok_def by (metis all_justD in_set_conv_nth just_cmd_ok)

lemma num_Suc:
  assumes "logs_ok L" "k < length (L g)"
  shows "cfg_num (state_at L g (Suc k)) = cfg_num (state_at L g k) \<or>
    cfg_num (state_at L g (Suc k)) = cfg_num (state_at L g k) + 1"
  using state_at_Suc(2)[OF assms] by (auto simp: installs_def keeps_config_def)

lemma num_mono:
  assumes "logs_ok L" "k \<le> k'" "k' \<le> length (L g)"
  shows "cfg_num (state_at L g k) \<le> cfg_num (state_at L g k')"
  using assms(2,3)
proof (induction rule: dec_induct)
  case (step n)
  then show ?case using num_Suc[OF assms(1), of n g] by auto
qed simp

lemma moves_settled:
  assumes "shard_moves kv c kv' i" "shard_status kv i = Normal"
  shows "shard_status kv' i = Normal"
  using assms by (cases rule: shard_moves_cases) auto

lemma settled_stays:
  assumes "logs_ok L" "settled (state_at L g k)" "k \<le> k'" "k' \<le> length (L g)"
    and "cfg_num (state_at L g k') = cfg_num (state_at L g k)"
  shows "settled (state_at L g k')"
  using assms(3-5)
proof (induction rule: dec_induct)
  case base
  then show ?case using assms(2) by simp
next
  case (step n)
  have "cfg_num (state_at L g k) \<le> cfg_num (state_at L g n)" "cfg_num (state_at L g n) \<le> cfg_num (state_at L g (Suc n))"
    using step num_mono[OF assms(1), of k n g] num_mono[OF assms(1), of n "Suc n" g] by simp_all
  then have eq: "cfg_num (state_at L g n) = cfg_num (state_at L g k)" using step.prems(2) by simp
  then have "\<not> installs (state_at L g n) (L g ! n) (state_at L g (Suc n))"
    using step.prems(2) by (auto simp: installs_def)
  then have "keeps_config (state_at L g n) (L g ! n) (state_at L g (Suc n))"
    using state_at_Suc(2)[OF assms(1), where g = g and k = n] step.prems(1) by simp
  with step.IH eq step.prems(1) show ?case
    by (auto simp: settled_def keeps_config_def intro: moves_settled)
qed

text \<open>A configuration is installed only when no shard is moving.\<close>

lemma install_settled:
  assumes "history_ok conf sg" "all_just conf L" "k < length (L g)"
    and inst: "installs (state_at L g k) (L g ! k) (state_at L g (Suc k))"
  shows "settled (state_at L g k)"
proof -
  from inst obtain cfg where cfg: "L g ! k = ConfigChange cfg" "cfg_Num cfg = cfg_num (state_at L g k) + 1"
    by (auto simp: installs_def)
  with all_justD[OF assms(2,3)] obtain k0 where "k0 \<le> k" "settled (state_at L g k0)"
    "cfg_Num cfg = cfg_num (state_at L g k0) + 1" by auto
  with settled_stays[OF all_just_logs_ok[OF assms(1,2)], of g k0 k] cfg assms(3) show ?thesis by simp
qed

text \<open>The current and the previous configuration of a group are two neighbours of the history.\<close>

lemma config_state:
  assumes "history_ok conf sg" "all_just conf L" "k \<le> length (L g)"
  shows "\<exists>n<length conf. cfg_num (state_at L g k) = int n \<and> sk_currentConfig (state_at L g k) = conf ! n \<and>
    sk_prevConfig (state_at L g k) = conf ! (n - 1)"
  using assms(3)
proof (induction k)
  case 0
  have "0 < length conf" "conf ! 0 = DefaultConfig" using assms(1) by (auto simp: history_ok_def csm_ok_def)
  then show ?case by (intro exI[of _ 0]) (simp add: group_init_def DefaultConfig_def)
next
  case (Suc k)
  then obtain n where n: "n < length conf" "cfg_num (state_at L g k) = int n"
    "sk_currentConfig (state_at L g k) = conf ! n" "sk_prevConfig (state_at L g k) = conf ! (n - 1)" by auto
  from Suc.prems have k: "k < length (L g)" by simp
  from state_at_Suc(2)[OF all_just_logs_ok[OF assms(1,2)] k] show ?case
  proof
    assume inst: "installs (state_at L g k) (L g ! k) (state_at L g (Suc k))"
    then obtain cfg where cfg: "L g ! k = ConfigChange cfg" "cfg_Num cfg = int n + 1"
      "sk_currentConfig (state_at L g (Suc k)) = cfg" "sk_prevConfig (state_at L g (Suc k)) = conf ! n"
      using n by (auto simp: installs_def)
    with all_justD[OF assms(2) k] have "cfg \<in> set conf" by simp
    from history_mem[OF assms(1) this] obtain m where m: "m < length conf" "cfg = conf ! m" "cfg_Num cfg = int m" by blast
    then have "m = Suc n" using cfg(2) by simp
    with m cfg show ?thesis by (intro exI[of _ "Suc n"]) simp
  next
    assume "keeps_config (state_at L g k) (L g ! k) (state_at L g (Suc k))"
    then show ?thesis using n by (auto simp: keeps_config_def)
  qed
qed

lemma config_at:
  assumes "history_ok conf sg" "all_just conf L" "k \<le> length (L g)" "cfg_num (state_at L g k) = int n"
  shows "sk_currentConfig (state_at L g k) = conf ! n" "sk_prevConfig (state_at L g k) = conf ! (n - 1)" "n < length conf"
  using config_state[OF assms(1-3)] assms(4) by (metis of_nat_eq_iff)+

text \<open>A group that is past configuration \<open>n\<close> was once settled in it.\<close>

lemma passed:
  assumes "history_ok conf sg" "all_just conf L" "k \<le> length (L g)" "int n < cfg_num (state_at L g k)"
  shows "\<exists>k1<k. cfg_num (state_at L g k1) = int n \<and> settled (state_at L g k1)"
  using assms(3,4)
proof (induction k)
  case 0
  then show ?case by (simp add: group_init_ok)
next
  case (Suc k)
  show ?case
  proof (cases "int n < cfg_num (state_at L g k)")
    case True
    with Suc show ?thesis by (metis Suc_leD less_Suc_eq)
  next
    case False
    from Suc.prems have k: "k < length (L g)" by simp
    have inst: "installs (state_at L g k) (L g ! k) (state_at L g (Suc k))"
      using state_at_Suc(2)[OF all_just_logs_ok[OF assms(1,2)] k] False Suc.prems(2) by (auto simp: keeps_config_def)
    then have "cfg_num (state_at L g k) = int n" using False Suc.prems(2) by (auto simp: installs_def)
    with install_settled[OF assms(1,2) k inst] show ?thesis by blast
  qed
qed

text \<open>What the status of a shard says of the two configurations.\<close>

definition status_ok :: "'b ShardKV \<Rightarrow> nat \<Rightarrow> bool" where
  "status_ok kv i \<longleftrightarrow>
     (shard_status kv i = MoveIn \<or> shard_status kv i = GC \<longrightarrow> shard_owner kv i = sk_gid kv \<and>
        cfg_Shards (sk_prevConfig kv) ! i \<noteq> sk_gid kv \<and> cfg_Shards (sk_prevConfig kv) ! i \<noteq> 0) \<and>
     (shard_status kv i = MoveOut \<longrightarrow> cfg_Shards (sk_prevConfig kv) ! i = sk_gid kv \<and>
        shard_owner kv i \<noteq> sk_gid kv \<and> shard_owner kv i \<noteq> 0)"

lemma moves_status_ok:
  assumes "status_ok kv i" "shard_moves kv c kv' i" "sk_currentConfig kv' = sk_currentConfig kv"
    "sk_prevConfig kv' = sk_prevConfig kv" "sk_gid kv' = sk_gid kv"
  shows "status_ok kv' i"
  using assms(2)
proof (cases rule: shard_moves.cases)
  case same
  then show ?thesis using assms unfolding status_ok_def by simp
next
  case (serve oper)
  then show ?thesis using assms by (auto simp: status_ok_def)
qed (use assms in \<open>simp_all add: status_ok_def NewShardStateMachine_def\<close>)

lemma status_state:
  assumes "history_ok conf sg" "all_just conf L" "k \<le> length (L g)" "i < NShards"
  shows "status_ok (state_at L g k) i"
  using assms(3)
proof (induction k)
  case 0
  then show ?case using group_init_ok(4)[OF assms(4)] by (simp add: status_ok_def NewShardStateMachine_def)
next
  case (Suc k)
  then have k: "k < length (L g)" and IH: "status_ok (state_at L g k) i" by simp_all
  note lo = all_just_logs_ok[OF assms(1,2)]
  have gid: "sk_gid (state_at L g (Suc k)) = g" "sk_gid (state_at L g k) = g" using state_at_ok(2)[OF lo] by blast+
  from state_at_Suc(2)[OF lo k] show ?case
  proof
    assume inst: "installs (state_at L g k) (L g ! k) (state_at L g (Suc k))"
    from install_settled[OF assms(1,2) k inst] have "shard_status (state_at L g k) i = Normal"
      using assms(4) by (simp add: settled_def)
    with inst assms(4) gid show ?thesis by (auto simp: installs_def new_status_def status_ok_def)
  next
    assume "keeps_config (state_at L g k) (L g ! k) (state_at L g (Suc k))"
    then have "sk_currentConfig (state_at L g (Suc k)) = sk_currentConfig (state_at L g k)"
      "sk_prevConfig (state_at L g (Suc k)) = sk_prevConfig (state_at L g k)"
      "shard_moves (state_at L g k) (L g ! k) (state_at L g (Suc k)) i"
      using assms(4) by (auto simp: keeps_config_def)
    with moves_status_ok[OF IH] gid show ?thesis by simp
  qed
qed

section \<open>Every step is justified\<close>

lemma replica_view:
  assumes "replica L g k kv"
  shows "k \<le> length (L g)" "cfg_num kv = cfg_num (state_at L g k)" "sk_duplicateTable kv = sk_duplicateTable (state_at L g k)"
    "map_of (sk_shards kv) = map_of (sk_shards (state_at L g k))"
  using assms by (simp_all add: replica_def)

lemma job_group:
  assumes hist: "history_ok conf sg" and all: "all_just conf L" and rep: "replica L g k kv"
    and jobs: "task_jobs kv st = Some jobs" "(servers, args) \<in> set jobs"
  shows "\<exists>h. h \<noteq> 0 \<and> (\<forall>s \<in> set servers. sg s = h) \<and> soa_ConfigNum args = cfg_num (state_at L g k) \<and>
    distinct (soa_ShardIds args) \<and> set (soa_ShardIds args) = int ` from_owner (state_at L g k) st h"
proof -
  note lo = all_just_logs_ok[OF hist all]
  from task_jobs_spec[OF lo rep jobs] obtain h where h: "h \<noteq> 0"
    "servers = mget [] (cfg_Groups (sk_prevConfig (state_at L g k))) h"
    "soa_ConfigNum args = cfg_num (state_at L g k)" "distinct (soa_ShardIds args)"
    "set (soa_ShardIds args) = int ` from_owner (state_at L g k) st h" by (auto simp: from_owner_def)
  from config_state[OF hist all replica_view(1)[OF rep]] obtain n where
    n: "n < length conf" "sk_prevConfig (state_at L g k) = conf ! (n - 1)" by blast
  then have mem: "sk_prevConfig (state_at L g k) \<in> set conf" by simp
  have "\<forall>s \<in> set servers. sg s = h"
  proof (cases "map_of (cfg_Groups (sk_prevConfig (state_at L g k))) h")
    case None
    then show ?thesis using h(2) by (simp add: mget_def)
  next
    case (Some ss)
    then have "servers = ss" "(h, ss) \<in> set (cfg_Groups (sk_prevConfig (state_at L g k)))"
      using h(2) by (simp_all add: mget_def map_of_SomeD)
    with hist mem show ?thesis by (fastforce simp: history_ok_def)
  qed
  with h show ?thesis by blast
qed

lemma gstep_cases_just:
  assumes hist: "history_ok conf sg" and all: "all_just conf L" and step: "gstep conf sg L L'"
  obtains g c where "L' = L(g := L g @ [c])" "just conf L g (length (L g)) c"
  using step
proof cases
  case (client g oper)
  then show thesis using that[of g "ClientOpeartion oper"] by simp
next
  case (config g k kv num j cfg)
  note v = replica_view[OF config(3)]
  have "\<forall>(i, s) \<in> set (sk_shards kv). sm_Status s = Normal" "num = cfg_num kv"
    using config(4) by (auto simp: fetchConfig_begin_def list_all_iff split: if_splits)
  then have "settled (state_at L g k)"
    using replica_shard(3)[OF all_just_logs_ok[OF hist all] config(3)] by (fastforce simp: settled_def)
  moreover have "cfg \<in> set conf"
    using config(5) by (auto simp: csm_Query_def bind_eq_Some_conv split: if_splits dest!: go_nth_mem in_set_takeD)
  moreover have "cfg_Num cfg = cfg_num (state_at L g k) + 1" using config(6) v(2) \<open>num = cfg_num kv\<close> by simp
  ultimately have "just conf L g (length (L g)) (ConfigChange cfg)" using v(1) by auto
  with config(1) that show thesis by blast
next
  case (migrate g k kv jobs servers args server k' kv' r)
  have jobs: "task_jobs kv MoveIn = Some jobs"
    using migrate(3,4) by (auto simp: shardMigration_begin_def split: if_splits)
  from job_group[OF hist all migrate(2) jobs migrate(4)] migrate(5) obtain h where h: "h \<noteq> 0" "sg server = h"
    "soa_ConfigNum args = cfg_num (state_at L g k)" "set (soa_ShardIds args) = int ` from_owner (state_at L g k) MoveIn h"
    by blast
  note v = replica_view[OF migrate(2)] and v' = replica_view[OF migrate(6)]
  note d = GetShardsData_OK[OF migrate(7,8)]
  have ok': "sk_ok (state_at L h k')" using state_at_ok(1)[OF all_just_logs_ok[OF hist all]] .
  have "data_from L h r"
    unfolding data_from_def
  proof (intro exI[of _ k'] conjI allI impI)
    show "k' \<le> length (L h)" "sor_ConfigNum r \<le> cfg_num (state_at L h k')"
      "sor_DuplicateTable r = sk_duplicateTable (state_at L h k')" using v' d h(2) by auto
    fix i
    assume "i < NShards" "int i \<in> fst ` set (sor_ShardData r)"
    then show "map_of (sor_ShardData r) (int i) = Some (shard_data (state_at L h k') i)"
      using d v'(4) h(2) shard_lookup[OF ok'] by simp
  qed
  with v(1) h d have "just conf L g (length (L g)) (ShardMigration r)" by auto
  with migrate(1) that show thesis by blast
next
  case (delete g k kv jobs servers args server h k' kv')
  have jobs: "task_jobs kv GC = Some jobs" using delete(3,4) by (auto simp: shardGC_begin_def split: if_splits)
  from job_group[OF hist all delete(2) jobs delete(4)] delete(5,6) replica_view(1)[OF delete(2)]
  have "just conf L h (length (L h)) (ShardGC args)" by auto
  with delete(1) that show thesis by blast
next
  case (confirm g k kv jobs servers args)
  have jobs: "task_jobs kv GC = Some jobs" using confirm(3,4) by (auto simp: shardGC_begin_def split: if_splits)
  from job_group[OF hist all confirm(2) jobs confirm(4)] replica_view(1)[OF confirm(2)]
  have "just conf L g (length (L g)) (ShardGC args)" by auto
  with confirm(1) that show thesis by blast
qed

lemma all_just_append:
  assumes "all_just conf L" "just conf L g (length (L g)) c"
  shows "all_just conf (L(g := L g @ [c]))"
  unfolding all_just_def
proof (intro allI impI)
  fix h j
  let ?L = "L(g := L g @ [c])"
  assume j: "j < length (?L h)"
  show "just conf ?L h j (?L h ! j)"
  proof (cases "j < length (L h)")
    case True
    then have "?L h ! j = L h ! j" by (cases "h = g") (simp_all add: nth_append)
    with just_extend[OF all_justD[OF assms(1) True], of g "[c]"] True show ?thesis by simp
  next
    case False
    with j have "h = g" "j = length (L g)" by (auto split: if_splits)
    with just_extend[OF assms(2), of g "[c]"] show ?thesis by simp
  qed
qed

lemma reachable_just:
  assumes "reachable conf sg L" "history_ok conf sg"
  shows "all_just conf L"
  using assms(1)
proof induction
  case start
  then show ?case by (simp add: all_just_def)
next
  case (step L L')
  from gstep_cases_just[OF assms(2) step.IH step.hyps(2)] all_just_append[OF step.IH] show ?case by metis
qed

section \<open>One group at a time\<close>

text \<open>Group \<open>h\<close> has, or had, shard \<open>i\<close> with its data in configuration \<open>m\<close>.\<close>

definition held :: "logs \<Rightarrow> int \<Rightarrow> nat \<Rightarrow> nat \<Rightarrow> bool" where
  "held L h i m \<longleftrightarrow> (\<exists>k\<le>length (L h). cfg_num (state_at L h k) = int m \<and> shard_owner (state_at L h k) i = h \<and>
     shard_status (state_at L h k) i \<noteq> MoveIn)"

abbreviation final :: "logs \<Rightarrow> int \<Rightarrow> RaftCommand gob ShardKV" where
  "final L g \<equiv> state_at L g (length (L g))"

text \<open>When a group holds a shard, every earlier owner has left the configurations in which it owned it.\<close>

definition handed_over :: "Config list \<Rightarrow> logs \<Rightarrow> bool" where
  "handed_over conf L \<longleftrightarrow> (\<forall>h i m k. i < NShards \<longrightarrow> held L h i m \<longrightarrow> k < m \<longrightarrow> owner_in conf k i \<noteq> 0 \<longrightarrow>
     owner_in conf (Suc k) i \<noteq> owner_in conf k i \<longrightarrow> int (Suc k) \<le> cfg_num (final L (owner_in conf k i)))"

lemma owner_back:
  assumes "never_orphaned conf" "n < length conf" "i < NShards" "owner_in conf n i = 0" "k \<le> n"
  shows "owner_in conf k i = 0"
  using assms(5,2,4)
proof (induction rule: inc_induct)
  case (step j)
  then show ?case using assms(1,3) by (metis Suc_le_eq le_trans less_imp_le never_orphaned_def not_le)
qed simp

lemma passed_held:
  assumes "history_ok conf sg" "all_just conf L" "k \<le> length (L h)" "int n < cfg_num (state_at L h k)"
    and "owner_in conf n i = h" "i < NShards"
  shows "held L h i n"
proof -
  from passed[OF assms(1-4)] obtain k1 where k1: "k1 < k" "cfg_num (state_at L h k1) = int n" "settled (state_at L h k1)"
    by blast
  from config_state[OF assms(1,2), of k1 h] k1(1,2) assms(3) have "sk_currentConfig (state_at L h k1) = conf ! n" by auto
  with k1 assms(3,5,6) show ?thesis by (auto simp: held_def settled_def intro!: exI[of _ k1])
qed

lemma final_mono:
  assumes "history_ok conf sg" "all_just conf (L(g0 := L g0 @ [c]))"
  shows "cfg_num (final L g) \<le> cfg_num (final (L(g0 := L g0 @ [c])) g)"
proof -
  let ?L = "L(g0 := L g0 @ [c])"
  have "cfg_num (state_at ?L g (length (L g))) \<le> cfg_num (final ?L g)"
    using num_mono[OF all_just_logs_ok[OF assms], of "length (L g)" "length (?L g)" g] by simp
  then show ?thesis by (simp add: state_at_extend)
qed

lemma handed_over_held:
  assumes "handed_over conf L" "i < NShards" "held L h i m" "k < m" "owner_in conf k i \<noteq> 0"
    and "owner_in conf (Suc k) i \<noteq> owner_in conf k i"
  shows "int (Suc k) \<le> cfg_num (final L (owner_in conf k i))"
  using assms by (auto simp: handed_over_def)

text \<open>A group that takes over a shard in configuration \<open>m\<close> has its data from the owner in \<open>m - 1\<close>, which
  has reached \<open>m\<close>.\<close>

lemma take_over_source:
  assumes hist: "history_ok conf sg" and all: "all_just conf L" and k: "k \<le> length (L h)"
    and r: "just conf L h k (ShardMigration r)" "sor_ConfigNum r = int m" "int i \<in> fst ` set (sor_ShardData r)"
  shows "0 < m \<and> i < NShards \<and> owner_in conf (m - 1) i \<noteq> 0 \<and> owner_in conf (m - 1) i \<noteq> h \<and> owner_in conf m i = h \<and>
    data_from L (owner_in conf (m - 1) i) r"
proof -
  from r(1) obtain k0 h0 where j: "k0 \<le> k" "h0 \<noteq> 0" "sor_ConfigNum r = cfg_num (state_at L h k0)"
    "fst ` set (sor_ShardData r) = int ` from_owner (state_at L h k0) MoveIn h0" "data_from L h0 r" by auto
  from j(4) r(3) have i: "i < NShards" "shard_status (state_at L h k0) i = MoveIn"
    "cfg_Shards (sk_prevConfig (state_at L h k0)) ! i = h0" by (auto simp: from_owner_def)
  from config_state[OF hist all, of k0 h] j(1,3) k r(2) have
    c: "sk_currentConfig (state_at L h k0) = conf ! m" "sk_prevConfig (state_at L h k0) = conf ! (m - 1)" by auto
  have "status_ok (state_at L h k0) i" using status_state[OF hist all _ i(1), of k0 h] j(1) k by simp
  then have s: "owner_in conf m i = h" "h0 \<noteq> h"
    using i c state_at_ok(2)[OF all_just_logs_ok[OF hist all], where g = h and k = k0] by (auto simp: status_ok_def)
  then have "0 < m" using i(3) c(2) by (cases m) auto
  with i c(2) s j(2,5) show ?thesis by auto
qed

lemma held_step:
  assumes hist: "history_ok conf sg" and no: "never_orphaned conf" and all: "all_just conf L"
    and ho: "handed_over conf L" and c: "just conf L g (length (L g)) c" and i: "i < NShards"
    and held: "held (L(g := L g @ [c])) h i m" "\<not> held L h i m"
    and k: "k < m" "owner_in conf k i \<noteq> 0" "owner_in conf (Suc k) i \<noteq> owner_in conf k i"
  shows "int (Suc k) \<le> cfg_num (final L (owner_in conf k i))"
proof -
  let ?L = "L(g := L g @ [c])"
  let ?S = "final L h"
  have all': "all_just conf ?L" by (rule all_just_append[OF all c])
  note lo' = all_just_logs_ok[OF hist all']
  from held(1) obtain k1 where k1: "k1 \<le> length (?L h)" "cfg_num (state_at ?L h k1) = int m"
    "shard_owner (state_at ?L h k1) i = h" "shard_status (state_at ?L h k1) i \<noteq> MoveIn" by (auto simp: held_def)
  have "\<not> k1 \<le> length (L h)"
  proof
    assume "k1 \<le> length (L h)"
    with k1(2-) held(2) show False by (auto simp: held_def state_at_extend)
  qed
  with k1(1) have hg: "h = g" "k1 = Suc (length (L h))" by (auto split: if_splits)
  let ?S' = "state_at ?L h (Suc (length (L h)))"
  have nth: "?L h ! length (L h) = c" using hg(1) by simp
  have "length (L h) < length (?L h)" using hg(1) by simp
  with state_at_Suc(2)[OF lo', where g = h and k = "length (L h)"] nth state_at_extend[of "length (L h)" L h g "[c]"]
  have "installs ?S c ?S' \<or> keeps_config ?S c ?S'" by (simp only: order_refl)
  then show ?thesis
  proof
    assume inst: "installs ?S c ?S'"
    then have "cfg_num ?S' = cfg_num ?S + 1" by (auto simp: installs_def)
    moreover from config_state[OF hist all, of "length (L h)" h] obtain n where n0: "cfg_num ?S = int n" by auto
    ultimately have n: "cfg_num ?S = int n" "m = Suc n" using k1(2) hg(2) by simp_all
    have cS: "sk_currentConfig ?S = conf ! n" using config_state[OF hist all, of "length (L h)" h] n(1) by auto
    have cS': "sk_currentConfig ?S' = conf ! m" "m < length conf"
      using config_state[OF hist all', of k1 h] k1(1,2) hg(2) by auto
    have "installs (state_at ?L h (length (L h))) (?L h ! length (L h)) ?S'"
      using inst unfolding nth by (simp add: state_at_extend)
    from install_settled[OF hist all' _ this] have set: "settled ?S" using hg(1) by (simp add: state_at_extend)
    show ?thesis
    proof (cases "owner_in conf n i = h")
      case True
      then have "held L h i n" using n(1) cS set i by (auto simp: held_def settled_def intro!: exI[of _ "length (L h)"])
      moreover have "k \<noteq> n" using k(3) True k1(3) hg(2) cS'(1) n(2) by auto
      ultimately show ?thesis using handed_over_held[OF ho i _ _ k(2,3)] k(1) n(2) by auto
    next
      case False
      have "shard_status ?S' i = new_status h (owner_in conf n i) (owner_in conf m i) Normal"
        using inst set i cS cS'(1) state_at_ok(2)[OF all_just_logs_ok[OF hist all], where g = h and k = "length (L h)"]
        by (auto simp: installs_def settled_def)
      then have "owner_in conf n i = 0" using False k1(3,4) hg(2) cS'(1) by (auto simp: new_status_def split: if_splits)
      with owner_back[OF no _ i this, of k] cS'(2) n(2) k show ?thesis by simp
    qed
  next
    assume kc: "keeps_config ?S c ?S'"
    then have eq: "sk_currentConfig ?S' = sk_currentConfig ?S" "shard_moves ?S c ?S' i" using i by (auto simp: keeps_config_def)
    have "shard_status ?S i = MoveIn"
      using held(2) k1(2,3) hg(2) eq(1) by (auto simp: held_def)
    with eq(2) k1(4) hg(2) obtain r where r: "c = ShardMigration r" "sor_ConfigNum r = cfg_num ?S"
      "int i \<in> fst ` set (sor_ShardData r)" by (cases rule: shard_moves.cases) auto
    have m: "sor_ConfigNum r = int m" using r(2) k1(2) hg(2) eq(1) by simp
    have "just conf L h (length (L h)) (ShardMigration r)" using c r(1) hg(1) by simp
    from take_over_source[OF hist all order_refl this m r(3)] have src: "0 < m" "owner_in conf (m - 1) i \<noteq> 0"
      "data_from L (owner_in conf (m - 1) i) r" by auto
    from src(3) obtain k' where k': "k' \<le> length (L (owner_in conf (m - 1) i))"
      "int m \<le> cfg_num (state_at L (owner_in conf (m - 1) i) k')" using m by (auto simp: data_from_def)
    show ?thesis
    proof (cases "k = m - 1")
      case True
      have "cfg_num (state_at L (owner_in conf (m - 1) i) k') \<le> cfg_num (final L (owner_in conf (m - 1) i))"
        using num_mono[OF all_just_logs_ok[OF hist all] k'(1) order_refl] .
      with k'(2) True src(1) show ?thesis by simp
    next
      case False
      have "held L (owner_in conf (m - 1) i) i (m - 1)"
        using passed_held[OF hist all k'(1), of "m - 1" i] k'(2) src(1) i by simp
      from handed_over_held[OF ho i this _ k(2,3)] False k(1) show ?thesis by simp
    qed
  qed
qed

lemma reachable_handed_over:
  assumes "reachable conf sg L" "history_ok conf sg" "never_orphaned conf"
  shows "handed_over conf L"
  using assms(1)
proof induction
  case start
  show ?case by (auto simp: handed_over_def held_def group_init_def DefaultConfig_def)
next
  case (step L L')
  note all = reachable_just[OF step.hyps(1) assms(2)]
  from gstep_cases_just[OF assms(2) all step.hyps(2)] obtain g c where
    L': "L' = L(g := L g @ [c])" and c: "just conf L g (length (L g)) c" by blast
  show ?case
    unfolding handed_over_def
  proof (intro allI impI)
    fix h i m k
    assume i: "i < NShards" and held: "held L' h i m" and k: "k < m" "owner_in conf k i \<noteq> 0"
      "owner_in conf (Suc k) i \<noteq> owner_in conf k i"
    have "int (Suc k) \<le> cfg_num (final L (owner_in conf k i))"
    proof (cases "held L h i m")
      case True
      from handed_over_held[OF step.IH i True k] show ?thesis .
    next
      case False
      from held_step[OF assms(2,3) all step.IH c i held[unfolded L'] False k] show ?thesis .
    qed
    also have "\<dots> \<le> cfg_num (final L' (owner_in conf k i))"
      unfolding L' by (rule final_mono[OF assms(2) all_just_append[OF all c]])
    finally show "int (Suc k) \<le> cfg_num (final L' (owner_in conf k i))" .
  qed
qed

lemma no_two_serve:
  assumes "reachable conf sg L" "history_ok conf sg" "never_orphaned conf"
    and "i < NShards" "g \<noteq> 0" "h \<noteq> 0" "g \<noteq> h" "serves L g i"
  shows "\<not> serves L h i"
proof
  assume "serves L h i"
  note all = reachable_just[OF assms(1,2)] and ho = reachable_handed_over[OF assms(1-3)]
  have no_overlap: False if s: "serves L x i" "serves L y i" "x \<noteq> 0" "x \<noteq> y" "cfg_num (final L x) < cfg_num (final L y)" for x y
  proof -
    from config_state[OF assms(2) all, of "length (L x)" x] s(1) obtain n where
      n: "cfg_num (final L x) = int n" "owner_in conf n i = x" by (auto simp: serves_def Let_def)
    from config_state[OF assms(2) all, of "length (L y)" y] s(2) obtain m where
      m: "cfg_num (final L y) = int m" "owner_in conf m i = y" by (auto simp: serves_def Let_def)
    have "held L y i m" using s(2) m(1) by (auto simp: held_def serves_def Let_def intro!: exI[of _ "length (L y)"])
    moreover have "\<exists>k. n \<le> k \<and> k < m \<and> owner_in conf k i = x \<and> owner_in conf (Suc k) i \<noteq> x"
    proof (rule ccontr)
      assume no: "\<not> ?thesis"
      have "n \<le> m" using n(1) m(1) s(5) by simp
      then have "owner_in conf m i = x"
      proof (induction rule: dec_induct)
        case (step j)
        then show ?case using no by auto
      qed (simp add: n(2))
      with m(2) s(4) show False by simp
    qed
    ultimately obtain k where k: "n \<le> k" "int (Suc k) \<le> cfg_num (final L x)"
      using handed_over_held[OF ho assms(4)] s(3) by metis
    then show False using n(1) by simp
  qed
  show False
  proof (cases "cfg_num (final L g)" "cfg_num (final L h)" rule: linorder_cases)
    case equal
    from config_state[OF assms(2) all, of "length (L g)" g] config_state[OF assms(2) all, of "length (L h)" h] equal
    have "sk_currentConfig (final L g) = sk_currentConfig (final L h)" by auto
    with assms(7,8) \<open>serves L h i\<close> show False by (auto simp: serves_def Let_def)
  qed (use no_overlap assms(5-8) \<open>serves L h i\<close> in blast)+
qed

end
