(* ===== verification/Shard_Transfer.thy ===== *)
theory Shard_Transfer
  imports Shard_Safety
begin

text \<open>
  What a group takes over: exactly the data the previous owner had when it left the configuration in
  which it owned the shard, and with it the memory of the writes that are already done.
\<close>

section \<open>The duplicate table only grows\<close>

lemma requestDuplicated_upd:
  assumes "requestDuplicated t x s" "\<not> requestDuplicated t c n"
  shows "requestDuplicated (t(c \<mapsto> \<lparr>lo_SeqId = n, lo_Reply = r\<rparr>)) x s"
  using assms by (auto simp: requestDuplicated_def split: option.splits)

lemma merge_table_left: "requestDuplicated t x s \<Longrightarrow> requestDuplicated (merge_table t t') x s"
  by (auto simp: requestDuplicated_def merge_table_def split: option.splits if_splits)

lemma merge_table_right: "requestDuplicated t' x s \<Longrightarrow> requestDuplicated (merge_table t t') x s"
  by (auto simp: requestDuplicated_def merge_table_def split: option.splits if_splits)

lemma execute_table:
  assumes "sk_execute kv c = Some (kv', r)" "requestDuplicated (sk_duplicateTable kv) x s"
  shows "requestDuplicated (sk_duplicateTable kv') x s"
proof (cases c)
  case (ClientOpeartion oper)
  with assms show ?thesis
    by (auto simp: sk_execute_def applyClientOperation_def bind_eq_Some_conv Let_def requestDuplicated_upd split: if_splits)
next
  case (ShardMigration m)
  with assms show ?thesis
    by (auto simp: sk_execute_def handleConfigChangeMessage_def applyShardMigration_def bind_eq_Some_conv
        merge_table_left split: if_splits)
qed (use assms in \<open>auto simp: sk_execute_def handleConfigChangeMessage_def applyNewConfig_def applyShardGC_def
  bind_eq_Some_conv split: if_splits\<close>)

lemma migration_table:
  assumes "sk_execute kv (ShardMigration m) = Some (kv', r)" "sor_ConfigNum m = cfg_num kv"
  shows "sk_duplicateTable kv' = merge_table (sk_duplicateTable kv) (sor_DuplicateTable m)"
  using assms
  by (auto simp: sk_execute_def handleConfigChangeMessage_def applyShardMigration_def bind_eq_Some_conv)

lemma table_mono:
  assumes "logs_ok L" "k \<le> k'" "k' \<le> length (L g)" "requestDuplicated (sk_duplicateTable (state_at L g k)) x s"
  shows "requestDuplicated (sk_duplicateTable (state_at L g k')) x s"
  using assms(2,3)
proof (induction rule: dec_induct)
  case base
  then show ?case using assms(4) by simp
next
  case (step n)
  then obtain r where "sk_execute (state_at L g n) (L g ! n) = Some (state_at L g (Suc n), r)"
    using state_at_Suc(1)[OF assms(1), where g = g and k = n] by auto
  with step execute_table show ?case by fastforce
qed

section \<open>Within one configuration\<close>

text \<open>Facts about one shard that every move keeps hold as long as the configuration stays.\<close>

lemma same_config_induct:
  assumes "logs_ok L" "i < NShards" "k \<le> k'" "k' \<le> length (L g)" "cfg_num (state_at L g k') = cfg_num (state_at L g k)"
    and "P k (state_at L g k)"
    and step: "\<And>n. k \<le> n \<Longrightarrow> n < k' \<Longrightarrow> P n (state_at L g n) \<Longrightarrow> cfg_num (state_at L g n) = cfg_num (state_at L g k) \<Longrightarrow>
      shard_moves (state_at L g n) (L g ! n) (state_at L g (Suc n)) i \<Longrightarrow> P (Suc n) (state_at L g (Suc n))"
  shows "P k' (state_at L g k')"
  using assms(3-5) step
proof (induction rule: dec_induct)
  case base
  then show ?case using assms(6) by simp
next
  case (step n)
  have "cfg_num (state_at L g k) \<le> cfg_num (state_at L g n)" "cfg_num (state_at L g n) \<le> cfg_num (state_at L g (Suc n))"
    using step.hyps step.prems(1) num_mono[OF assms(1), of k n g] num_mono[OF assms(1), of n "Suc n" g] by simp_all
  then have eq: "cfg_num (state_at L g n) = cfg_num (state_at L g k)" using step.prems(2) by simp
  then have "\<not> installs (state_at L g n) (L g ! n) (state_at L g (Suc n))"
    using step.prems(2) by (auto simp: installs_def)
  then have "keeps_config (state_at L g n) (L g ! n) (state_at L g (Suc n))"
    using state_at_Suc(2)[OF assms(1), where g = g and k = n] step.prems(1) by simp
  then have "shard_moves (state_at L g n) (L g ! n) (state_at L g (Suc n)) i" using assms(2) by (simp add: keeps_config_def)
  moreover have "P n (state_at L g n)" using step.IH eq step.prems(1,3) by simp
  ultimately show ?case using step.prems(3)[of n] step.hyps eq by simp
qed

lemma not_moving_in_again:
  assumes "logs_ok L" "i < NShards" "k \<le> k'" "k' \<le> length (L g)" "cfg_num (state_at L g k') = cfg_num (state_at L g k)"
    and "shard_status (state_at L g k) i \<noteq> MoveIn"
  shows "shard_status (state_at L g k') i \<noteq> MoveIn"
  using assms(1-6)
proof (rule same_config_induct[where P = "\<lambda>_ kv. shard_status kv i \<noteq> MoveIn"])
  fix n
  assume "shard_moves (state_at L g n) (L g ! n) (state_at L g (Suc n)) i" "shard_status (state_at L g n) i \<noteq> MoveIn"
  then show "shard_status (state_at L g (Suc n)) i \<noteq> MoveIn"
    by (cases rule: shard_moves.cases) (auto simp: NewShardStateMachine_def)
qed

text \<open>A shard that is moving out keeps its data until the new owner has asked for its deletion.\<close>

lemma frozen:
  assumes "logs_ok L" "i < NShards" "k \<le> k'" "k' \<le> length (L g)" "cfg_num (state_at L g k') = cfg_num (state_at L g k)"
    and "shard_status (state_at L g k) i = MoveOut"
  shows "shard_at (state_at L g k') i = shard_at (state_at L g k) i \<or>
    (\<exists>j<k'. \<exists>args. L g ! j = ShardGC args \<and> soa_ConfigNum args = cfg_num (state_at L g k) \<and> int i \<in> set (soa_ShardIds args))"
  using assms(1-5)
proof (rule same_config_induct[where P = "\<lambda>k' kv. shard_at kv i = shard_at (state_at L g k) i \<or>
    (\<exists>j<k'. \<exists>args. L g ! j = ShardGC args \<and> soa_ConfigNum args = cfg_num (state_at L g k) \<and> int i \<in> set (soa_ShardIds args))"])
  fix n
  assume n: "shard_at (state_at L g n) i = shard_at (state_at L g k) i \<or>
    (\<exists>j<n. \<exists>args. L g ! j = ShardGC args \<and> soa_ConfigNum args = cfg_num (state_at L g k) \<and> int i \<in> set (soa_ShardIds args))"
    "cfg_num (state_at L g n) = cfg_num (state_at L g k)"
    and mv: "shard_moves (state_at L g n) (L g ! n) (state_at L g (Suc n)) i"
  from n(1) show "shard_at (state_at L g (Suc n)) i = shard_at (state_at L g k) i \<or>
    (\<exists>j<Suc n. \<exists>args. L g ! j = ShardGC args \<and> soa_ConfigNum args = cfg_num (state_at L g k) \<and> int i \<in> set (soa_ShardIds args))"
  proof
    assume at: "shard_at (state_at L g n) i = shard_at (state_at L g k) i"
    from mv show ?thesis
    proof (cases rule: shard_moves.cases)
      case same
      with at show ?thesis by simp
    next
      case (drop_data args)
      with n(2) show ?thesis by auto
    qed (use at assms(6) in auto)
  next
    assume "\<exists>j<n. \<exists>args. L g ! j = ShardGC args \<and> soa_ConfigNum args = cfg_num (state_at L g k) \<and> int i \<in> set (soa_ShardIds args)"
    then show ?thesis by (meson less_SucI)
  qed
qed simp

section \<open>Leaving a configuration\<close>

text \<open>Group \<open>g\<close> leaves configuration \<open>n\<close> with its command number \<open>p\<close>.\<close>

definition leaves :: "logs \<Rightarrow> int \<Rightarrow> nat \<Rightarrow> int \<Rightarrow> bool" where
  "leaves L g p n \<longleftrightarrow> p < length (L g) \<and> cfg_num (state_at L g p) = n \<and>
     installs (state_at L g p) (L g ! p) (state_at L g (Suc p))"

lemma leaves_extend: "leaves L g p n \<Longrightarrow> leaves (L(h := L h @ cs)) g p n"
  by (cases "g = h") (simp_all add: leaves_def state_at_extend nth_append del: fun_upd_apply, auto simp: nth_append)

lemma entered:
  assumes "logs_ok L" "k \<le> length (L g)" "int (Suc n) \<le> cfg_num (state_at L g k)"
  shows "\<exists>p<k. leaves L g p (int n)"
  using assms(2,3)
proof (induction k)
  case 0
  then show ?case by (simp add: group_init_ok)
next
  case (Suc k)
  then have k: "k < length (L g)" by simp
  show ?case
  proof (cases "int (Suc n) \<le> cfg_num (state_at L g k)")
    case True
    with Suc show ?thesis by (metis Suc_leD less_Suc_eq)
  next
    case False
    then have "installs (state_at L g k) (L g ! k) (state_at L g (Suc k))"
      using state_at_Suc(2)[OF assms(1) k] Suc.prems(2) by (auto simp: keeps_config_def)
    moreover from this have "cfg_num (state_at L g k) = int n" using False Suc.prems(2) by (auto simp: installs_def)
    ultimately show ?thesis using k by (auto simp: leaves_def)
  qed
qed

text \<open>The old owner of a shard has it in \<open>MoveOut\<close> afterwards, with the same data.\<close>

lemma leaves_status:
  assumes "history_ok conf sg" "all_just conf L" "leaves L g p (int n)" "i < NShards"
    and "owner_in conf n i = g" "owner_in conf (Suc n) i \<noteq> g" "owner_in conf (Suc n) i \<noteq> 0"
  shows "cfg_num (state_at L g (Suc p)) = int (Suc n)" "shard_status (state_at L g (Suc p)) i = MoveOut"
    "shard_data (state_at L g (Suc p)) i = shard_data (state_at L g p) i"
proof -
  have p: "p < length (L g)" "cfg_num (state_at L g p) = int n" "installs (state_at L g p) (L g ! p) (state_at L g (Suc p))"
    using assms(3) by (simp_all add: leaves_def)
  then show n: "cfg_num (state_at L g (Suc p)) = int (Suc n)" by (auto simp: installs_def)
  from config_state[OF assms(1,2), of p g] p have c: "sk_currentConfig (state_at L g p) = conf ! n" by auto
  have c': "sk_currentConfig (state_at L g (Suc p)) = conf ! Suc n"
    using config_at(1)[OF assms(1,2) _ n] p(1) by simp
  show "shard_status (state_at L g (Suc p)) i = MoveOut" "shard_data (state_at L g (Suc p)) i = shard_data (state_at L g p) i"
    using p(3) c c' assms(4-7) state_at_ok(2)[OF all_just_logs_ok[OF assms(1,2)], where g = g and k = p]
    by (auto simp: installs_def new_status_def)
qed

lemma deletion_means_taken:
  assumes hist: "history_ok conf sg" and all: "all_just conf L" and j: "j < length (L g)" "L g ! j = ShardGC args"
    and n: "soa_ConfigNum args = int n" "int i \<in> set (soa_ShardIds args)"
  shows "\<exists>k\<le>length (L (owner_in conf n i)). cfg_num (state_at L (owner_in conf n i) k) = int n \<and>
    shard_status (state_at L (owner_in conf n i) k) i = GC"
proof -
  from all_justD[OF all j(1)] j(2) obtain g0 k h where
    k: "k \<le> length (L g0)" "soa_ConfigNum args = cfg_num (state_at L g0 k)"
      "set (soa_ShardIds args) = int ` from_owner (state_at L g0 k) GC h" by auto
  then have i: "i < NShards" "shard_status (state_at L g0 k) i = GC" using n(2) by (auto simp: from_owner_def)
  have "shard_owner (state_at L g0 k) i = g0"
    using status_state[OF hist all k(1) i(1)] i(2) state_at_ok(2)[OF all_just_logs_ok[OF hist all], where g = g0 and k = k]
    by (auto simp: status_ok_def)
  moreover have "sk_currentConfig (state_at L g0 k) = conf ! n" using config_state[OF hist all k(1)] k(2) n(1) by auto
  ultimately have "owner_in conf n i = g0" by simp
  with k(1,2) n(1) i(2) show ?thesis by auto
qed

text \<open>As long as the new owner waits for a shard, the old owner still has what it had when it left.\<close>

lemma source_kept:
  assumes hist: "history_ok conf sg" and all: "all_just conf L" and i: "i < NShards"
    and k: "k \<le> length (L g)" "int (Suc n) \<le> cfg_num (state_at L g k)"
    and own: "owner_in conf n i = g" "owner_in conf (Suc n) i = h" "h \<noteq> g" "h \<noteq> 0"
    and wait: "cfg_num (final L h) = int (Suc n)" "shard_status (final L h) i = MoveIn"
  shows "\<exists>p<k. leaves L g p (int n) \<and> shard_data (state_at L g k) i = shard_data (state_at L g p) i"
proof -
  note lo = all_just_logs_ok[OF hist all]
  from entered[OF lo k] obtain p where p: "p < k" "leaves L g p (int n)" by blast
  have st: "cfg_num (state_at L g (Suc p)) = int (Suc n)" "shard_status (state_at L g (Suc p)) i = MoveOut"
    "shard_data (state_at L g (Suc p)) i = shard_data (state_at L g p) i"
    using leaves_status[OF hist all p(2) i own(1)] own by auto
  have no_deletion: "\<not> (L g ! j = ShardGC args \<and> soa_ConfigNum args = int (Suc n) \<and> int i \<in> set (soa_ShardIds args))"
    if "j < length (L g)" for j args
  proof
    assume "L g ! j = ShardGC args \<and> soa_ConfigNum args = int (Suc n) \<and> int i \<in> set (soa_ShardIds args)"
    with deletion_means_taken[OF hist all that, of args "Suc n" i] own(2) obtain k1 where
      "k1 \<le> length (L h)" "cfg_num (state_at L h k1) = int (Suc n)" "shard_status (state_at L h k1) i = GC" by auto
    with not_moving_in_again[OF lo i, of k1 "length (L h)" h] wait show False by simp
  qed
  have same: "shard_at (state_at L g k1) i = shard_at (state_at L g (Suc p)) i"
    if k1: "Suc p \<le> k1" "k1 \<le> length (L g)" "cfg_num (state_at L g k1) = int (Suc n)" for k1
  proof -
    have "cfg_num (state_at L g k1) = cfg_num (state_at L g (Suc p))" using k1(3) st(1) by simp
    from frozen[OF lo i k1(1,2) this st(2)] show ?thesis
    proof
      assume "\<exists>j<k1. \<exists>args. L g ! j = ShardGC args \<and> soa_ConfigNum args = cfg_num (state_at L g (Suc p)) \<and>
        int i \<in> set (soa_ShardIds args)"
      then obtain j args where "j < k1" "L g ! j = ShardGC args" "soa_ConfigNum args = int (Suc n)"
        "int i \<in> set (soa_ShardIds args)" using st(1) by auto
      with no_deletion[of j args] k1(2) show ?thesis by simp
    qed
  qed
  have "\<not> int (Suc n) < cfg_num (state_at L g k)"
  proof
    assume "int (Suc n) < cfg_num (state_at L g k)"
    from passed[OF hist all k(1) this] obtain k1 where
      k1: "k1 < k" "cfg_num (state_at L g k1) = int (Suc n)" "settled (state_at L g k1)" by blast
    have "\<not> k1 \<le> p" using num_mono[OF lo, of k1 p g] p k(1) k1(2) by (auto simp: leaves_def)
    with same[of k1] k1 k(1) st(2) i show False by (auto simp: settled_def)
  qed
  with k(2) have "cfg_num (state_at L g k) = int (Suc n)" by simp
  with same[of k] p(1) k(1) st(3) have "shard_data (state_at L g k) i = shard_data (state_at L g p) i" by simp
  with p show ?thesis by blast
qed

section \<open>Taking over\<close>

text \<open>Command number \<open>j\<close> of \<open>h\<close> takes over shard \<open>i\<close> with the message \<open>r\<close>.\<close>

definition takes :: "logs \<Rightarrow> int \<Rightarrow> nat \<Rightarrow> ShardOperationReply \<Rightarrow> nat \<Rightarrow> bool" where
  "takes L h j r i \<longleftrightarrow> h \<noteq> 0 \<and> j < length (L h) \<and> L h ! j = ShardMigration r \<and> i < NShards \<and>
     int i \<in> fst ` set (sor_ShardData r) \<and> sor_ConfigNum r = cfg_num (state_at L h j) \<and>
     shard_status (state_at L h j) i = MoveIn"

definition source_of :: "logs \<Rightarrow> int \<Rightarrow> nat \<Rightarrow> ShardOperationReply \<Rightarrow> nat \<Rightarrow> bool" where
  "source_of L h j r i \<longleftrightarrow> (let g = cfg_Shards (sk_prevConfig (state_at L h j)) ! i in
     \<exists>p. leaves L g p (cfg_num (state_at L h j) - 1) \<and>
       map_of (sor_ShardData r) (int i) = Some (shard_data (state_at L g p) i) \<and>
       (\<forall>x s. requestDuplicated (sk_duplicateTable (state_at L g p)) x s \<longrightarrow> requestDuplicated (sor_DuplicateTable r) x s))"

lemma source_of_extend:
  assumes "source_of L h j r i" "j \<le> length (L h)"
  shows "source_of (L(g0 := L g0 @ cs)) h j r i"
proof -
  let ?g = "cfg_Shards (sk_prevConfig (state_at L h j)) ! i"
  from assms(1) obtain p where p: "leaves L ?g p (cfg_num (state_at L h j) - 1)"
    "map_of (sor_ShardData r) (int i) = Some (shard_data (state_at L ?g p) i)"
    "\<forall>x s. requestDuplicated (sk_duplicateTable (state_at L ?g p)) x s \<longrightarrow> requestDuplicated (sor_DuplicateTable r) x s"
    by (auto simp: source_of_def Let_def)
  have "p \<le> length (L ?g)" using p(1) by (simp add: leaves_def)
  with p leaves_extend[OF p(1), of g0 cs] state_at_extend[of j L h g0 cs] assms(2) state_at_extend[of p L ?g g0 cs]
  show ?thesis unfolding source_of_def Let_def by (intro exI[of _ p]) simp
qed

lemma takes_restrict:
  assumes "takes (L(g := L g @ [c])) h j r i" "j < length (L h)"
  shows "takes L h j r i"
proof -
  have "(L(g := L g @ [c])) h ! j = L h ! j" using assms(2) by (cases "h = g") (simp_all add: nth_append)
  with assms state_at_extend[of j L h g "[c]"] show ?thesis by (simp add: takes_def del: fun_upd_apply)
qed

lemma takes_new_source:
  assumes hist: "history_ok conf sg" and all: "all_just conf L" and h: "just conf L h (length (L h)) (ShardMigration r)"
    and i: "i < NShards" "int i \<in> fst ` set (sor_ShardData r)" "sor_ConfigNum r = cfg_num (final L h)"
    and wait: "shard_status (final L h) i = MoveIn" and h0: "h \<noteq> 0"
  shows "source_of L h (length (L h)) r i"
proof -
  note lo = all_just_logs_ok[OF hist all]
  from config_state[OF hist all order_refl] obtain m where m: "cfg_num (final L h) = int m"
    "sk_prevConfig (final L h) = conf ! (m - 1)" by blast
  from take_over_source[OF hist all order_refl h _ i(2), of m] i(3) m(1) obtain n where
    n: "m = Suc n" "owner_in conf n i \<noteq> 0" "owner_in conf n i \<noteq> h" "owner_in conf (Suc n) i = h"
      "data_from L (owner_in conf n i) r" by (cases m) auto
  let ?g = "owner_in conf n i"
  from n(5) obtain k where k: "k \<le> length (L ?g)" "int (Suc n) \<le> cfg_num (state_at L ?g k)"
    "sor_DuplicateTable r = sk_duplicateTable (state_at L ?g k)"
    "map_of (sor_ShardData r) (int i) = Some (shard_data (state_at L ?g k) i)"
    using i m(1) n(1) by (auto simp: data_from_def)
  from source_kept[OF hist all i(1) k(1,2) refl n(4)] n(3) m(1) n(1) wait h0 obtain p where
    p: "p < k" "leaves L ?g p (int n)" "shard_data (state_at L ?g k) i = shard_data (state_at L ?g p) i" by auto
  have "\<forall>x s. requestDuplicated (sk_duplicateTable (state_at L ?g p)) x s \<longrightarrow> requestDuplicated (sor_DuplicateTable r) x s"
    using table_mono[OF lo less_imp_le[OF p(1)] k(1)] k(3) by simp
  with p k(4) m n(1) show ?thesis by (auto simp: source_of_def Let_def)
qed

lemma reachable_source:
  assumes "reachable conf sg L" "history_ok conf sg" "takes L h j r i"
  shows "source_of L h j r i"
  using assms(1,3)
proof (induction arbitrary: h j r i)
  case start
  then show ?case by (simp add: takes_def)
next
  case (step L L')
  note all = reachable_just[OF step.hyps(1) assms(2)]
  from gstep_cases_just[OF assms(2) all step.hyps(2)] obtain g c where
    L': "L' = L(g := L g @ [c])" and c: "just conf L g (length (L g)) c" by blast
  show ?case
  proof (cases "j < length (L h)")
    case True
    from step.IH[OF takes_restrict[OF step.prems[unfolded L'] True]] True show ?thesis
      unfolding L' by (intro source_of_extend) auto
  next
    case False
    have t: "h \<noteq> 0" "j < length (L' h)" "L' h ! j = ShardMigration r" "i < NShards" "int i \<in> fst ` set (sor_ShardData r)"
      "sor_ConfigNum r = cfg_num (state_at L' h j)" "shard_status (state_at L' h j) i = MoveIn"
      using step.prems by (simp_all add: takes_def)
    from t(2) False have hj: "h = g" "j = length (L h)" by (auto simp: L' split: if_splits)
    have "c = ShardMigration r" using t(3) hj by (simp add: L')
    moreover have "state_at L' h j = final L h" unfolding L' hj(2) by (simp add: state_at_extend)
    ultimately have "source_of L h (length (L h)) r i"
      using takes_new_source[OF assms(2) all _ t(4,5) _ _ t(1)] c hj(1) t(6,7) by simp
    then show ?thesis unfolding L' hj(2) by (rule source_of_extend) simp
  qed
qed

section \<open>No stale data\<close>

text \<open>A group has no data of a shard that it does not own and that is not leaving, nor of one it is
  still waiting for.\<close>

definition clean :: "'b ShardKV \<Rightarrow> nat \<Rightarrow> bool" where
  "clean kv i \<longleftrightarrow> (shard_status kv i = MoveIn \<or> shard_status kv i = Normal \<and> shard_owner kv i \<noteq> sk_gid kv \<longrightarrow>
     shard_data kv i = (\<lambda>_. None))"

lemma moves_clean:
  assumes "shard_moves kv c kv' i" "status_ok kv i" "clean kv i" "sk_currentConfig kv' = sk_currentConfig kv"
    "sk_gid kv' = sk_gid kv"
  shows "clean kv' i"
  using assms(1)
proof (cases rule: shard_moves.cases)
  case same
  then show ?thesis using assms unfolding clean_def by simp
next
  case (serve oper)
  then show ?thesis using assms by (auto simp: clean_def)
next
  case (settle args)
  then show ?thesis using assms by (simp add: clean_def status_ok_def)
qed (use assms in \<open>simp_all add: clean_def NewShardStateMachine_def\<close>)

lemma clean_state:
  assumes "history_ok conf sg" "all_just conf L" "never_orphaned conf" "i < NShards" "g \<noteq> 0" "k \<le> length (L g)"
  shows "clean (state_at L g k) i"
  using assms(6)
proof (induction k)
  case 0
  then show ?case using group_init_ok(4)[OF assms(4)] by (simp add: clean_def NewShardStateMachine_def)
next
  case (Suc k)
  then have k: "k < length (L g)" and IH: "clean (state_at L g k) i" by simp_all
  note lo = all_just_logs_ok[OF assms(1,2)]
  have gid: "sk_gid (state_at L g (Suc k)) = g" "sk_gid (state_at L g k) = g" using state_at_ok(2)[OF lo] by blast+
  from state_at_Suc(2)[OF lo k] show ?case
  proof
    assume inst: "installs (state_at L g k) (L g ! k) (state_at L g (Suc k))"
    from install_settled[OF assms(1,2) k inst] have normal: "shard_status (state_at L g k) i = Normal"
      using assms(4) by (simp add: settled_def)
    from config_state[OF assms(1,2), of k g] k obtain n where n: "cfg_num (state_at L g k) = int n" by auto
    have n': "cfg_num (state_at L g (Suc k)) = int (Suc n)" using inst n by (auto simp: installs_def)
    have c: "sk_currentConfig (state_at L g k) = conf ! n" "sk_currentConfig (state_at L g (Suc k)) = conf ! Suc n" "Suc n < length conf"
      using config_at[OF assms(1,2) _ n] config_at[OF assms(1,2) _ n'] k by simp_all
    have "owner_in conf n i = g \<Longrightarrow> owner_in conf (Suc n) i \<noteq> 0"
      using assms(3,4,5) c(3) by (auto simp: never_orphaned_def)
    with inst normal IH c(1,2) gid assms(4) show ?thesis by (auto simp: installs_def clean_def new_status_def)
  next
    assume "keeps_config (state_at L g k) (L g ! k) (state_at L g (Suc k))"
    then show ?thesis
      using moves_clean[OF _ _ IH] status_state[OF assms(1,2) _ assms(4), of k g] k gid assms(4)
      by (auto simp: keeps_config_def)
  qed
qed

end
