(* ===== verification/Shard_Properties.thy ===== *)
theory Shard_Properties
  imports Shard_Transfer
begin

text \<open>
  The properties of the sharded key/value service, and concrete executions of it: exclusive service,
  transfer of data, the status machine, retried operations, and what goes wrong when all groups
  leave.
\<close>

section \<open>Exclusive service\<close>

lemma serves_matchGroup:
  assumes "reachable conf sg L" "history_ok conf sg" "i < NShards" "key2shard key = int i"
  shows "matchGroup (final L g) key = Some (serves L g i)"
proof -
  note lo = all_just_logs_ok[OF assms(2) reachable_just[OF assms(1,2)]]
  from matchGroup_eq[OF state_at_ok(1)[OF lo] assms(3,4)] state_at_ok(2)[OF lo] show ?thesis
    by (simp add: serves_def Let_def)
qed

text \<open>C2. A key is served by one group at a time: in every execution of the groups, with lagging replicas
  and late or repeated requests and replies, when a group accepts the operations on a key, no other
  group does. Assumed of the controller: its history of configurations is well formed, and the groups never
  all leave.\<close>

theorem exclusive_service:
  assumes "reachable conf sg L" "history_ok conf sg" "never_orphaned conf"
    and "g \<noteq> 0" "h \<noteq> 0" "g \<noteq> h" "matchGroup (final L g) key = Some True"
  shows "matchGroup (final L h) key = Some False"
proof -
  obtain i where i: "i < NShards" "key2shard key = int i" using key2shard_range by blast
  from no_two_serve[OF assms(1-3) i(1) assms(4-6)] serves_matchGroup[OF assms(1,2) i] assms(7) show ?thesis by simp
qed

section \<open>The transfer of a shard\<close>



section \<open>Concrete executions\<close>

text \<open>A replica of \<open>g\<close> that has applied \<open>k\<close> commands and is leader.\<close>

definition lead :: "'b ShardKV \<Rightarrow> 'b ShardKV" where
  "lead kv = kv\<lparr>sk_rf := (sk_rf kv)\<lparr>role := Leader\<rparr>\<rparr>"

lemma replica_lead:
  assumes "logs_ok L" "k \<le> length (L g)"
  shows "replica L g k (lead (state_at L g k))"
  using assms state_at_ok(1)[OF assms(1), of g k] state_at_ok(2)[OF assms(1), of g k]
  by (simp add: replica_def lead_def sk_ok_def shards_ok_def)

text \<open>Four configurations: group 1 owns all shards, then shards 5 to 9 go to group 2; and the variant
  in which group 1 leaves before group 2 joins.\<close>

definition conf1 :: Config where
  "conf1 = \<lparr>cfg_Num = 1, cfg_Shards = replicate 10 1, cfg_Groups = [(1, [''s1''])]\<rparr>"

definition conf2 :: Config where
  "conf2 = \<lparr>cfg_Num = 2, cfg_Shards = replicate 5 1 @ replicate 5 2, cfg_Groups = [(1, [''s1'']), (2, [''s2''])]\<rparr>"

definition conf2' :: Config where
  "conf2' = \<lparr>cfg_Num = 2, cfg_Shards = replicate 10 0, cfg_Groups = []\<rparr>"

definition conf3' :: Config where
  "conf3' = \<lparr>cfg_Num = 3, cfg_Shards = replicate 10 2, cfg_Groups = [(2, [''s2''])]\<rparr>"

definition demo_gid :: "string \<Rightarrow> int" where
  "demo_gid s = (if s = ''s1'' then 1 else 2)"

abbreviation demo_conf :: "Config list" where
  "demo_conf \<equiv> [DefaultConfig, conf1, conf2]"

abbreviation leave_conf :: "Config list" where
  "leave_conf \<equiv> [DefaultConfig, conf1, conf2', conf3']"

lemmas conf_defs = DefaultConfig_def conf1_def conf2_def conf2'_def conf3'_def NShards_def

lemma demo_history: "history_ok demo_conf demo_gid" "history_ok leave_conf demo_gid"
  by (auto simp: history_ok_def csm_ok_def config_ok_def conf_defs gomap_ok_def demo_gid_def less_Suc_eq nth_Cons')

lemma demo_never_orphaned: "never_orphaned demo_conf"
  by (auto simp: never_orphaned_def conf_defs less_Suc_eq nth_Cons' nth_append)

text \<open>A settled leader fetches the next configuration.\<close>

lemma reach_config:
  assumes "reachable conf sg L" "history_ok conf sg" "g \<noteq> 0" "settled (final L g)" "cfg_num (final L g) = int n" "Suc n < length conf"
  shows "reachable conf sg (L(g := L g @ [ConfigChange (conf ! Suc n)]))"
proof -
  note lo = all_just_logs_ok[OF assms(2) reachable_just[OF assms(1,2)]]
  note rep = replica_lead[OF lo, of "length (L g)" g, OF order_refl]
  have "list_all (\<lambda>(_, shard). sm_Status shard = Normal) (sk_shards (final L g))"
  proof (clarsimp simp: list_all_iff)
    fix k s
    assume ks: "(k, s) \<in> set (sk_shards (final L g))"
    then have "(k, s) \<in> set (sk_shards (lead (final L g)))" by (simp add: lead_def)
    moreover from this obtain i where "k = int i" using replica_shard(1)[OF lo rep] by force
    ultimately show "sm_Status s = Normal" using replica_shard(3)[OF lo rep] assms(4) by (auto simp: settled_def)
  qed
  then have "fetchConfig_begin (lead (final L g)) = Some (int n)"
    using assms(5) by (simp add: fetchConfig_begin_def lead_def GetState_def)
  moreover have "csm_Query \<lparr>Configs = take (length conf) conf\<rparr> (int n + 1) = Some (conf ! Suc n, OK)"
    using assms(6) by (simp add: csm_Query_def go_nth_def nat_add_distrib)
  moreover have "cfg_Num (conf ! Suc n) = int n + 1" using history_nth(1)[OF assms(2,6)] by simp
  ultimately show ?thesis using reachable.step[OF assms(1) gstep.config[OF assms(3) rep]] by blast
qed

text \<open>Group 1 serves key \<open>a\<close> of shard 7 and gets a write, then both groups move to the second
  configuration and group 2 takes the shard over.\<close>

definition demo_write :: Op where
  "demo_write = \<lparr>op_Key = ''a'', op_Value = ''1'', op_OpType = OpPut, op_ClientId = 7, op_SeqId = 0\<rparr>"

definition run1 :: logs where "run1 = (\<lambda>_. [])(1 := [ConfigChange conf1])"
definition run2 :: logs where "run2 = run1(1 := run1 1 @ [ClientOpeartion demo_write])"
definition run3 :: logs where "run3 = run2(1 := run2 1 @ [ConfigChange conf2])"
definition run4 :: logs where "run4 = run3(2 := run3 2 @ [ConfigChange conf1])"
definition run5 :: logs where "run5 = run4(2 := run4 2 @ [ConfigChange conf2])"

definition run_args :: ShardOperationArgs where
  "run_args = \<lparr>soa_ConfigNum = 2, soa_ShardIds = [5, 6, 7, 8, 9]\<rparr>"

definition run_reply :: ShardOperationReply where
  "run_reply = the (GetShardsData (lead (final run5 1)) run_args)"

definition run6 :: logs where "run6 = run5(2 := run5 2 @ [ShardMigration run_reply])"

lemma settled_code: "settled kv \<longleftrightarrow> list_all (\<lambda>i. shard_status kv i = Normal) [0..<NShards]"
  by (auto simp: settled_def list_all_iff)

lemma run_reachable_5: "reachable demo_conf demo_gid run1" "reachable demo_conf demo_gid run2"
  "reachable demo_conf demo_gid run3" "reachable demo_conf demo_gid run4" "reachable demo_conf demo_gid run5"
proof -
  note step = reach_config[OF _ demo_history(1)]
  have s: "settled (final (\<lambda>_. []) 1)" "settled (final run2 1)" "settled (final run3 2)" "settled (final run4 2)"
    unfolding settled_code by code_simp+
  have n: "cfg_num (final (\<lambda>_. []) 1) = int 0" "cfg_num (final run2 1) = int 1" "cfg_num (final run3 2) = int 0"
    "cfg_num (final run4 2) = int 1" by code_simp+
  show r1: "reachable demo_conf demo_gid run1" using step[OF reachable.start _ s(1) n(1)] by (simp add: run1_def)
  show r2: "reachable demo_conf demo_gid run2" unfolding run2_def by (rule reachable.step[OF r1 gstep.client])
  show r3: "reachable demo_conf demo_gid run3" using step[OF r2 _ s(2) n(2)] by (simp add: run3_def)
  show r4: "reachable demo_conf demo_gid run4" using step[OF r3 _ s(3) n(3)] by (simp add: run4_def)
  show "reachable demo_conf demo_gid run5" using step[OF r4 _ s(4) n(4)] by (simp add: run5_def)
qed

lemma run_reachable: "reachable demo_conf demo_gid run6"
proof -
  note lo = all_just_logs_ok[OF demo_history(1) reachable_just[OF run_reachable_5(5) demo_history(1)]]
  note rep = replica_lead[OF lo, of "length (run5 2)" 2, OF order_refl]
  have "replica run5 (demo_gid ''s1'') (length (run5 1)) (lead (final run5 1))"
    using replica_lead[OF lo, of "length (run5 1)" 1, OF order_refl] by (simp add: demo_gid_def)
  moreover have "shardMigration_begin (lead (final run5 2)) = Some [([''s1''], run_args)]" by code_simp
  moreover have "\<not> Option.is_none (GetShardsData (lead (final run5 1)) run_args)" by code_simp
  then have "GetShardsData (lead (final run5 1)) run_args = Some run_reply"
    by (simp add: run_reply_def Option.is_none_def)
  moreover have "sor_Err run_reply = OK" by code_simp
  ultimately show ?thesis
    unfolding run6_def using reachable.step[OF run_reachable_5(5) gstep.migrate[OF rep]] by fastforce
qed

theorem exclusive_service_witness: "matchGroup (final run2 1) ''a'' = Some True \<and> matchGroup (final run2 2) ''a'' = Some False"
proof -
  have "matchGroup (final run2 1) ''a'' = Some True" by code_simp
  with exclusive_service[OF run_reachable_5(2) demo_history(1) demo_never_orphaned, of 1 2 "''a''"] show ?thesis by simp
qed


section \<open>When all groups leave\<close>

definition leave1 :: logs where "leave1 = (\<lambda>_. [])(1 := [ConfigChange conf1])"
definition leave2 :: logs where "leave2 = leave1(2 := leave1 2 @ [ConfigChange conf1])"
definition leave3 :: logs where "leave3 = leave2(2 := leave2 2 @ [ConfigChange conf2'])"
definition leave4 :: logs where "leave4 = leave3(2 := leave3 2 @ [ConfigChange conf3'])"

lemma leave_reachable: "reachable leave_conf demo_gid leave4"
proof -
  note step = reach_config[OF _ demo_history(2)]
  have s: "settled (final (\<lambda>_. []) 1)" "settled (final leave1 2)" "settled (final leave2 2)" "settled (final leave3 2)"
    unfolding settled_code by code_simp+
  have n: "cfg_num (final (\<lambda>_. []) 1) = int 0" "cfg_num (final leave1 2) = int 0" "cfg_num (final leave2 2) = int 1"
    "cfg_num (final leave3 2) = int 2" by code_simp+
  have r1: "reachable leave_conf demo_gid leave1" using step[OF reachable.start _ s(1) n(1)] by (simp add: leave1_def)
  have r2: "reachable leave_conf demo_gid leave2" using step[OF r1 _ s(2) n(2)] by (simp add: leave2_def)
  have r3: "reachable leave_conf demo_gid leave3" using step[OF r2 _ s(3) n(3)] by (simp add: leave3_def numeral_2_eq_2)
  show ?thesis using step[OF r3 _ s(4) n(4)] by (simp add: leave4_def numeral_3_eq_3)
qed

text \<open>C29. When all groups leave and a group joins again, two groups can serve the same key at the same
  time: the new group starts without waiting for the group that owned the shards before, which may
  not have heard of the change.\<close>

theorem two_groups_serve:
  "reachable leave_conf demo_gid leave4 \<and> history_ok leave_conf demo_gid \<and>
   matchGroup (final leave4 1) ''a'' = Some True \<and> matchGroup (final leave4 2) ''a'' = Some True"
proof -
  have "matchGroup (final leave4 1) ''a'' = Some True" "matchGroup (final leave4 2) ''a'' = Some True" by code_simp+
  with leave_reachable demo_history(2) show ?thesis by simp
qed

end
