(* ===== verification/Clerks.thy ===== *)
theory Clerks
  imports Ctrler_Server Shard_KV
begin

text \<open>
  The clients: \<open>kvraft/client.go\<close>, \<open>shardctrler/client.go\<close> and \<open>shardkv/client.go\<close>. The network and the
  servers are a world \<open>w\<close> and a function \<open>call\<close> that gives the next world and the reply of one RPC,
  \<^const>\<open>None\<close> for a failed call; \<open>call\<close> is an argument of everything below.

  The retry loops may run for ever, which is the value \<^const>\<open>None\<close>; \<open>Panic\<close> is a run-time panic and
  \<open>Returns\<close> a normal return.
\<close>

datatype 'a outcome = Panic | Returns 'a

section \<open>The retry loop\<close>

text \<open>The loop that \<open>Get\<close>, \<open>PutAppend\<close>, \<open>Query\<close>, \<open>Join\<close>, \<open>Leave\<close> and \<open>Move\<close> repeat: the next server after a
  failed call, \<open>ErrWrongLeader\<close> or \<open>ErrTimeout\<close>.\<close>

definition try_next :: "Err \<Rightarrow> bool" where
  "try_next e \<longleftrightarrow> e = ErrWrongLeader \<or> e = ErrTimeout"

partial_function (option) retry_loop ::
    "('w \<Rightarrow> int \<Rightarrow> 'w \<times> 'r option) \<Rightarrow> ('r \<Rightarrow> Err) \<Rightarrow> nat \<Rightarrow> 'w \<Rightarrow> int \<Rightarrow> ('w \<times> int \<times> 'r) outcome option" where
  "retry_loop call err n w leaderId =
     (if \<not> (0 \<le> leaderId \<and> leaderId < int n) then Some Panic
      else case call w leaderId of (w', answer) \<Rightarrow>
        (case answer of
           None \<Rightarrow> retry_loop call err n w' ((leaderId + 1) mod int n)
         | Some reply \<Rightarrow>
             if try_next (err reply) then retry_loop call err n w' ((leaderId + 1) mod int n)
             else Some (Returns (w', leaderId, reply))))"

declare retry_loop.simps [code]

section \<open>Key/value clerk\<close>

record Clerk =
  ck_servers :: nat
  ck_leaderId :: int
  ck_clientId :: int
  ck_seqId :: int

text \<open>\<open>nrand\<close> is the argument \<open>rnd\<close>.\<close>

definition MakeClerk :: "nat \<Rightarrow> int \<Rightarrow> Clerk" where
  "MakeClerk servers rnd = \<lparr>ck_servers = servers, ck_leaderId = 0, ck_clientId = rnd, ck_seqId = 0\<rparr>"

definition clerk_Get :: "('w \<Rightarrow> int \<Rightarrow> string \<Rightarrow> 'w \<times> OpReply option) \<Rightarrow> 'w \<Rightarrow> Clerk \<Rightarrow> string \<Rightarrow> ('w \<times> Clerk \<times> string) outcome option" where
  "clerk_Get call w ck key =
     map_option (map_outcome (\<lambda>(w', leaderId, reply). (w', ck\<lparr>ck_leaderId := leaderId\<rparr>, or_Value reply)))
       (retry_loop (\<lambda>w i. call w i key) or_Err (ck_servers ck) w (ck_leaderId ck))"

definition clerk_PutAppend ::
    "('w \<Rightarrow> int \<Rightarrow> PutAppendArgs \<Rightarrow> 'w \<times> Err option) \<Rightarrow> 'w \<Rightarrow> Clerk \<Rightarrow> string \<Rightarrow> string \<Rightarrow> string \<Rightarrow> ('w \<times> Clerk) outcome option" where
  "clerk_PutAppend call w ck key value oper =
     (let args = \<lparr>pa_Key = key, pa_Value = value, pa_Op = oper, pa_ClientId = ck_clientId ck, pa_SeqId = ck_seqId ck\<rparr> in
      map_option (map_outcome (\<lambda>(w', leaderId, reply). (w', ck\<lparr>ck_leaderId := leaderId, ck_seqId := ck_seqId ck + 1\<rparr>)))
        (retry_loop (\<lambda>w i. call w i args) id (ck_servers ck) w (ck_leaderId ck)))"

definition clerk_Put ::
    "('w \<Rightarrow> int \<Rightarrow> PutAppendArgs \<Rightarrow> 'w \<times> Err option) \<Rightarrow> 'w \<Rightarrow> Clerk \<Rightarrow> string \<Rightarrow> string \<Rightarrow> ('w \<times> Clerk) outcome option" where
  "clerk_Put call w ck key value = clerk_PutAppend call w ck key value ''Put''"

definition clerk_Append ::
    "('w \<Rightarrow> int \<Rightarrow> PutAppendArgs \<Rightarrow> 'w \<times> Err option) \<Rightarrow> 'w \<Rightarrow> Clerk \<Rightarrow> string \<Rightarrow> string \<Rightarrow> ('w \<times> Clerk) outcome option" where
  "clerk_Append call w ck key value = clerk_PutAppend call w ck key value ''Append''"

section \<open>Shard controller clerk\<close>

text \<open>The struct and \<open>MakeClerk\<close> are the ones of \<open>kvraft\<close>. The reply of a change is its error.\<close>

record ScClerk =
  scc_servers :: nat
  scc_leaderId :: int
  scc_clientId :: int
  scc_seqId :: int

definition sc_MakeClerk :: "nat \<Rightarrow> int \<Rightarrow> ScClerk" where
  "sc_MakeClerk servers rnd = \<lparr>scc_servers = servers, scc_leaderId = 0, scc_clientId = rnd, scc_seqId = 0\<rparr>"

definition scc_Query :: "('w \<Rightarrow> int \<Rightarrow> int \<Rightarrow> 'w \<times> ScOpReply option) \<Rightarrow> 'w \<Rightarrow> ScClerk \<Rightarrow> int \<Rightarrow> ('w \<times> ScClerk \<times> Config) outcome option" where
  "scc_Query call w ck num =
     map_option (map_outcome (\<lambda>(w', leaderId, reply). (w', ck\<lparr>scc_leaderId := leaderId\<rparr>, sr_Config reply)))
       (retry_loop (\<lambda>w i. call w i num) sr_Err (scc_servers ck) w (scc_leaderId ck))"

definition scc_Join ::
    "('w \<Rightarrow> int \<Rightarrow> JoinArgs \<Rightarrow> 'w \<times> Err option) \<Rightarrow> 'w \<Rightarrow> ScClerk \<Rightarrow> (int, string list) gomap \<Rightarrow> ('w \<times> ScClerk) outcome option" where
  "scc_Join call w ck servers =
     (let args = \<lparr>ja_Servers = servers, ja_ClientId = scc_clientId ck, ja_SeqId = scc_seqId ck\<rparr> in
      map_option (map_outcome (\<lambda>(w', leaderId, reply). (w', ck\<lparr>scc_leaderId := leaderId, scc_seqId := scc_seqId ck + 1\<rparr>)))
        (retry_loop (\<lambda>w i. call w i args) id (scc_servers ck) w (scc_leaderId ck)))"

definition scc_Leave ::
    "('w \<Rightarrow> int \<Rightarrow> LeaveArgs \<Rightarrow> 'w \<times> Err option) \<Rightarrow> 'w \<Rightarrow> ScClerk \<Rightarrow> int list \<Rightarrow> ('w \<times> ScClerk) outcome option" where
  "scc_Leave call w ck gids =
     (let args = \<lparr>la_GIDs = gids, la_ClientId = scc_clientId ck, la_SeqId = scc_seqId ck\<rparr> in
      map_option (map_outcome (\<lambda>(w', leaderId, reply). (w', ck\<lparr>scc_leaderId := leaderId, scc_seqId := scc_seqId ck + 1\<rparr>)))
        (retry_loop (\<lambda>w i. call w i args) id (scc_servers ck) w (scc_leaderId ck)))"

definition scc_Move ::
    "('w \<Rightarrow> int \<Rightarrow> MoveArgs \<Rightarrow> 'w \<times> Err option) \<Rightarrow> 'w \<Rightarrow> ScClerk \<Rightarrow> int \<Rightarrow> int \<Rightarrow> ('w \<times> ScClerk) outcome option" where
  "scc_Move call w ck shard gid =
     (let args = \<lparr>ma_Shard = shard, ma_GID = gid, ma_ClientId = scc_clientId ck, ma_SeqId = scc_seqId ck\<rparr> in
      map_option (map_outcome (\<lambda>(w', leaderId, reply). (w', ck\<lparr>scc_leaderId := leaderId, scc_seqId := scc_seqId ck + 1\<rparr>)))
        (retry_loop (\<lambda>w i. call w i args) id (scc_servers ck) w (scc_leaderId ck)))"

section \<open>Sharded key/value clerk\<close>

record ShardClerk =
  sck_sm :: ScClerk
  sck_config :: Config
  sck_leaderIds :: "int \<Rightarrow> int option"
  sck_clientId :: int
  sck_seqId :: int

definition sk_MakeClerk :: "nat \<Rightarrow> int \<Rightarrow> int \<Rightarrow> ShardClerk" where
  "sk_MakeClerk ctrlers rnd1 rnd2 = \<lparr>sck_sm = sc_MakeClerk ctrlers rnd1, sck_config = Config_zero,
     sck_leaderIds = (\<lambda>_. None), sck_clientId = rnd2, sck_seqId = 0\<rparr>"

text \<open>The inner loop, over the servers of one group: the reply if it is final, or \<^const>\<open>None\<close> when the
  clerk gives the group up, because it is the wrong one or every server was tried. Any other reply
  is retried on the same server.\<close>

datatype 'r turn = Final 'r | GiveUp | Advance | Again

definition group_turn :: "('r \<Rightarrow> Err) \<Rightarrow> (Err \<Rightarrow> bool) \<Rightarrow> 'r option \<Rightarrow> 'r turn" where
  "group_turn err final answer =
     (case answer of
        None \<Rightarrow> Advance
      | Some reply \<Rightarrow>
          if final (err reply) then Final reply
          else if err reply = ErrWrongGroup then GiveUp
          else if try_next (err reply) then Advance
          else Again)"

partial_function (option) group_loop ::
    "('w \<Rightarrow> string \<Rightarrow> 'w \<times> 'r option) \<Rightarrow> ('r \<Rightarrow> Err) \<Rightarrow> (Err \<Rightarrow> bool) \<Rightarrow> string list \<Rightarrow> int \<Rightarrow> 'w \<Rightarrow> int
      \<Rightarrow> ('w \<times> int \<times> 'r option) outcome option" where
  "group_loop call err final servers oldLeaderId w leaderId =
     (case go_nth servers leaderId of
        None \<Rightarrow> Some Panic
      | Some server \<Rightarrow>
          (case call w server of (w', answer) \<Rightarrow>
             (case group_turn err final answer of
                Final reply \<Rightarrow> Some (Returns (w', leaderId, Some reply))
              | GiveUp \<Rightarrow> Some (Returns (w', leaderId, None))
              | Advance \<Rightarrow>
                  if (leaderId + 1) mod int (length servers) = oldLeaderId
                  then Some (Returns (w', (leaderId + 1) mod int (length servers), None))
                  else group_loop call err final servers oldLeaderId w' ((leaderId + 1) mod int (length servers))
              | Again \<Rightarrow> group_loop call err final servers oldLeaderId w' leaderId)))"

declare group_loop.simps [code]

text \<open>The outer loop: the group of the key, then the latest configuration and again.\<close>

partial_function (option) shard_loop ::
    "('w \<Rightarrow> string \<Rightarrow> 'w \<times> 'r option) \<Rightarrow> ('w \<Rightarrow> int \<Rightarrow> int \<Rightarrow> 'w \<times> ScOpReply option) \<Rightarrow> ('r \<Rightarrow> Err) \<Rightarrow> (Err \<Rightarrow> bool)
      \<Rightarrow> string \<Rightarrow> 'w \<Rightarrow> ShardClerk \<Rightarrow> ('w \<times> ShardClerk \<times> 'r) outcome option" where
  "shard_loop call query err final key w ck =
     (case go_nth (cfg_Shards (sck_config ck)) (key2shard key) of
        None \<Rightarrow> Some Panic
      | Some gid \<Rightarrow> do {
          g \<leftarrow> (case map_of (cfg_Groups (sck_config ck)) gid of
                  Some servers \<Rightarrow>
                    let oldLeaderId = (case sck_leaderIds ck gid of Some l \<Rightarrow> l | None \<Rightarrow> 0)
                    in map_option (map_outcome (\<lambda>(w', l, r). (w', ck\<lparr>sck_leaderIds := (sck_leaderIds ck)(gid \<mapsto> l)\<rparr>, r)))
                         (group_loop call err final servers oldLeaderId w oldLeaderId)
                | None \<Rightarrow> Some (Returns (w, ck, None)));
          (case g of
             Panic \<Rightarrow> Some Panic
           | Returns p \<Rightarrow>
               (case p of (w1, ck1, r) \<Rightarrow>
                  (case r of
                     Some reply \<Rightarrow> Some (Returns (w1, ck1, reply))
                   | None \<Rightarrow> do {
                       q \<leftarrow> scc_Query query w1 (sck_sm ck1) (-1);
                       (case q of
                          Panic \<Rightarrow> Some Panic
                        | Returns p2 \<Rightarrow>
                            (case p2 of (w2, sm, cfg) \<Rightarrow>
                               shard_loop call query err final key w2 (ck1\<lparr>sck_sm := sm, sck_config := cfg\<rparr>))) }))) })"

declare shard_loop.simps [code]

definition sk_clerk_Get ::
    "('w \<Rightarrow> string \<Rightarrow> string \<Rightarrow> 'w \<times> OpReply option) \<Rightarrow> ('w \<Rightarrow> int \<Rightarrow> int \<Rightarrow> 'w \<times> ScOpReply option) \<Rightarrow> 'w \<Rightarrow> ShardClerk \<Rightarrow> string
      \<Rightarrow> ('w \<times> ShardClerk \<times> string) outcome option" where
  "sk_clerk_Get call query w ck key =
     map_option (map_outcome (\<lambda>(w', ck', reply). (w', ck', or_Value reply)))
       (shard_loop (\<lambda>w s. call w s key) query or_Err (\<lambda>e. e = OK \<or> e = ErrNoKey) key w ck)"

definition sk_clerk_PutAppend ::
    "('w \<Rightarrow> string \<Rightarrow> PutAppendArgs \<Rightarrow> 'w \<times> Err option) \<Rightarrow> ('w \<Rightarrow> int \<Rightarrow> int \<Rightarrow> 'w \<times> ScOpReply option) \<Rightarrow> 'w \<Rightarrow> ShardClerk
      \<Rightarrow> string \<Rightarrow> string \<Rightarrow> string \<Rightarrow> ('w \<times> ShardClerk) outcome option" where
  "sk_clerk_PutAppend call query w ck key value oper =
     (let args = \<lparr>pa_Key = key, pa_Value = value, pa_Op = oper, pa_ClientId = sck_clientId ck, pa_SeqId = sck_seqId ck\<rparr> in
      map_option (map_outcome (\<lambda>(w', ck', reply). (w', ck'\<lparr>sck_seqId := sck_seqId ck' + 1\<rparr>)))
        (shard_loop (\<lambda>w s. call w s args) query id (\<lambda>e. e = OK) key w ck))"

definition sk_clerk_Put ::
    "('w \<Rightarrow> string \<Rightarrow> PutAppendArgs \<Rightarrow> 'w \<times> Err option) \<Rightarrow> ('w \<Rightarrow> int \<Rightarrow> int \<Rightarrow> 'w \<times> ScOpReply option) \<Rightarrow> 'w \<Rightarrow> ShardClerk
      \<Rightarrow> string \<Rightarrow> string \<Rightarrow> ('w \<times> ShardClerk) outcome option" where
  "sk_clerk_Put call query w ck key value = sk_clerk_PutAppend call query w ck key value ''Put''"

definition sk_clerk_Append ::
    "('w \<Rightarrow> string \<Rightarrow> PutAppendArgs \<Rightarrow> 'w \<times> Err option) \<Rightarrow> ('w \<Rightarrow> int \<Rightarrow> int \<Rightarrow> 'w \<times> ScOpReply option) \<Rightarrow> 'w \<Rightarrow> ShardClerk
      \<Rightarrow> string \<Rightarrow> string \<Rightarrow> ('w \<times> ShardClerk) outcome option" where
  "sk_clerk_Append call query w ck key value = sk_clerk_PutAppend call query w ck key value ''Append''"

end
