(* ===== verification/Clerk_Properties.thy ===== *)
theory Clerk_Properties
  imports Clerks
begin

text \<open>
  The clients return: a clerk finds the leader once there is one, whatever happened before; the loop
  of the sharded clerk over one group always ends; and the one way in which it panics.
\<close>

section \<open>Going round the servers\<close>

definition dist :: "nat \<Rightarrow> int \<Rightarrow> int \<Rightarrow> nat" where
  "dist n l target = nat ((target - l) mod int n)"

lemma dist_next:
  assumes "0 < n" "dist n l target \<noteq> 0"
  shows "dist n ((l + 1) mod int n) target < dist n l target"
proof -
  let ?m = "(target - l) mod int n"
  have pos: "0 < ?m" "?m < int n" using assms by (auto simp: dist_def le_neq_trans)
  have "(target - (l + 1) mod int n) mod int n = (target - l - 1) mod int n"
    by (simp add: mod_diff_right_eq algebra_simps)
  also have "\<dots> = (?m - 1) mod int n" by (simp add: mod_diff_left_eq)
  also have "\<dots> = ?m - 1" using pos by simp
  finally show ?thesis using pos by (simp add: dist_def)
qed

lemma dist_0:
  assumes "0 \<le> l" "l < int n" "0 \<le> target" "target < int n"
  shows "dist n l target = 0 \<longleftrightarrow> l = target"
proof
  assume "dist n l target = 0"
  moreover have "0 \<le> (target - l) mod int n" using assms by simp
  ultimately have "(target - l) mod int n = 0" by (simp add: dist_def)
  then have "target mod int n = l mod int n" by (simp add: mod_eq_dvd_iff mod_eq_0_iff_dvd)
  then show "l = target" using assms by simp
qed (simp add: dist_def)

section \<open>Finding the leader\<close>

text \<open>In the worlds \<open>W\<close>, which no call leaves, server \<open>target\<close> answers for good; \<open>eventually_in\<close> are the
  worlds from which every sequence of calls gets into \<open>W\<close>.\<close>

definition serving :: "('w \<Rightarrow> int \<Rightarrow> 'w \<times> 'r option) \<Rightarrow> ('r \<Rightarrow> Err) \<Rightarrow> int \<Rightarrow> 'w set \<Rightarrow> bool" where
  "serving call err target W \<longleftrightarrow> (\<forall>w \<in> W. (\<forall>i. fst (call w i) \<in> W) \<and>
     (\<exists>r. snd (call w target) = Some r \<and> \<not> try_next (err r)))"

inductive eventually_in :: "('w \<Rightarrow> int \<Rightarrow> 'w \<times> 'r option) \<Rightarrow> 'w set \<Rightarrow> 'w \<Rightarrow> bool" for call W where
  here: "w \<in> W \<Longrightarrow> eventually_in call W w"
| later: "(\<And>i. eventually_in call W (fst (call w i))) \<Longrightarrow> eventually_in call W w"

lemma retry_loop_step:
  assumes "0 \<le> l" "l < int n"
  shows "(\<exists>r. snd (call w l) = Some r \<and> \<not> try_next (err r) \<and>
      retry_loop call err n w l = Some (Returns (fst (call w l), l, r))) \<or>
    (\<forall>r. snd (call w l) = Some r \<longrightarrow> try_next (err r)) \<and>
      retry_loop call err n w l = retry_loop call err n (fst (call w l)) ((l + 1) mod int n)"
  using assms by (cases "call w l") (auto simp: retry_loop.simps[of call err n w l] split: option.splits)

lemma retry_serving:
  assumes "serving call err target W" "0 \<le> target" "target < int n" "w \<in> W" "0 \<le> l" "l < int n"
  shows "\<exists>w' l' r. retry_loop call err n w l = Some (Returns (w', l', r)) \<and> 0 \<le> l' \<and> l' < int n \<and> \<not> try_next (err r)"
  using assms(4-6)
proof (induction "dist n l target" arbitrary: w l rule: less_induct)
  case less
  from retry_loop_step[OF less.prems(2,3), of call w err] show ?case
  proof
    assume "\<exists>r. snd (call w l) = Some r \<and> \<not> try_next (err r) \<and>
      retry_loop call err n w l = Some (Returns (fst (call w l), l, r))"
    then show ?thesis using less.prems by auto
  next
    assume s: "(\<forall>r. snd (call w l) = Some r \<longrightarrow> try_next (err r)) \<and>
      retry_loop call err n w l = retry_loop call err n (fst (call w l)) ((l + 1) mod int n)"
    then have "l \<noteq> target" using assms(1) less.prems(1) by (auto simp: serving_def)
    then have "dist n ((l + 1) mod int n) target < dist n l target"
      using dist_next[of n l target] dist_0[OF less.prems(2,3) assms(2,3)] less.prems by simp
    moreover have "fst (call w l) \<in> W" using assms(1) less.prems(1) by (simp add: serving_def)
    ultimately show ?thesis using less.hyps[of "(l + 1) mod int n" "fst (call w l)"] s less.prems by simp
  qed
qed

lemma retry_eventually:
  assumes "eventually_in call W w" "serving call err target W" "0 \<le> target" "target < int n" "0 \<le> l" "l < int n"
  shows "\<exists>w' l' r. retry_loop call err n w l = Some (Returns (w', l', r)) \<and> 0 \<le> l' \<and> l' < int n \<and> \<not> try_next (err r)"
  using assms(1,5,6)
proof (induction arbitrary: l)
  case (here w)
  then show ?case using retry_serving[OF assms(2-4)] by blast
next
  case (later w)
  from retry_loop_step[OF later.prems, of call w err] show ?case
    using later.prems later.IH[where i = l and l = "(l + 1) mod int n"] by auto
qed

text \<open>C20. A clerk gets its write done once there is a leader: if, whatever calls are made, the servers
  eventually reach states in which one of them answers for good, then \<open>PutAppend\<close> returns, no
  matter which server the clerk starts with and how many calls fail before; it then remembers a
  server in range and has used its sequence number exactly once.\<close>

theorem clerk_PutAppend_returns:
  assumes "args = \<lparr>pa_Key = key, pa_Value = value, pa_Op = oper, pa_ClientId = ck_clientId ck, pa_SeqId = ck_seqId ck\<rparr>"
    and "serving (\<lambda>w i. call w i args) id target W" "0 \<le> target" "target < int (ck_servers ck)"
    and "eventually_in (\<lambda>w i. call w i args) W w" "0 \<le> ck_leaderId ck" "ck_leaderId ck < int (ck_servers ck)"
  shows "\<exists>w' ck'. clerk_PutAppend call w ck key value oper = Some (Returns (w', ck')) \<and>
    0 \<le> ck_leaderId ck' \<and> ck_leaderId ck' < int (ck_servers ck') \<and> ck_seqId ck' = ck_seqId ck + 1 \<and>
    ck_clientId ck' = ck_clientId ck \<and> ck_servers ck' = ck_servers ck"
  using retry_eventually[OF assms(5,2,3,4,6,7)] unfolding clerk_PutAppend_def Let_def assms(1) by auto

text \<open>Three servers; the world counts the calls, and from the third call on server 2 is the leader.\<close>

definition demo_call :: "nat \<Rightarrow> int \<Rightarrow> PutAppendArgs \<Rightarrow> nat \<times> Err option" where
  "demo_call w i args = (w + 1, if i = 2 \<and> 2 \<le> w then Some OK else if i = 0 then None else Some ErrWrongLeader)"

theorem clerk_PutAppend_returns_witness:
  "\<exists>w' ck'. clerk_PutAppend demo_call 0 (MakeClerk 3 7) ''k'' ''v'' ''Put'' = Some (Returns (w', ck')) \<and> ck_seqId ck' = 1"
proof -
  let ?args = "\<lparr>pa_Key = ''k'', pa_Value = ''v'', pa_Op = ''Put'', pa_ClientId = 7, pa_SeqId = 0\<rparr>"
  let ?W = "{2..} :: nat set" and ?call = "\<lambda>w i. demo_call w i ?args"
  have "serving ?call id 2 ?W" by (auto simp: serving_def demo_call_def try_next_def)
  moreover have in2: "eventually_in ?call ?W 2" by (rule eventually_in.here) simp
  have in1: "eventually_in ?call ?W 1"
    using in2 by - (rule eventually_in.later, simp add: demo_call_def numeral_2_eq_2)
  have "eventually_in ?call ?W 0" using in1 by - (rule eventually_in.later, simp add: demo_call_def)
  ultimately show ?thesis
    using clerk_PutAppend_returns[of ?args "''k''" "''v''" "''Put''" "MakeClerk 3 7" demo_call 2 ?W 0]
    by (auto simp: MakeClerk_def)
qed

section \<open>The loop over a group\<close>

lemma group_loop_advances:
  assumes "\<And>w s r. snd (call w s) = Some r \<Longrightarrow> final (err r) \<or> err r = ErrWrongGroup \<or> try_next (err r)"
    and "0 \<le> oldId" "oldId < int (length servers)" "0 \<le> l" "l < int (length servers)"
  shows "\<exists>w' l' r. group_loop call err final servers oldId w l = Some (Returns (w', l', r)) \<and>
    0 \<le> l' \<and> l' < int (length servers)"
  using assms(4,5)
proof (induction "dist (length servers) l (oldId - 1)" arbitrary: w l rule: less_induct)
  case less
  let ?n = "length servers" and ?next = "(l + 1) mod int (length servers)"
  obtain w' a where c: "call w (servers ! nat l) = (w', a)" by fastforce
  have turn: "group_turn err final a \<noteq> Again"
    using assms(1)[of w "servers ! nat l"] c by (auto simp: group_turn_def split: option.splits)
  have nth: "go_nth servers l = Some (servers ! nat l)" using less.prems by (simp add: go_nth_def)
  show ?case
  proof (cases "group_turn err final a")
    case Advance
    show ?thesis
    proof (cases "?next = oldId")
      case True
      then show ?thesis using Advance c nth assms(2,3) by (subst group_loop.simps) simp
    next
      case False
      have "dist ?n l (oldId - 1) \<noteq> 0"
      proof
        assume "dist ?n l (oldId - 1) = 0"
        then have "(oldId - 1 - l) mod int ?n = 0"
          using less.prems pos_mod_sign[of "int ?n" "oldId - 1 - l"] unfolding dist_def by linarith
        then have "oldId mod int ?n = (l + 1) mod int ?n"
          by (simp add: mod_eq_dvd_iff mod_eq_0_iff_dvd algebra_simps)
        with False assms(2,3) show False by simp
      qed
      have "0 < ?n" using less.prems by linarith
      then have "0 < ?n" "0 \<le> ?next" "?next < int ?n" by simp_all
      from less.hyps[OF dist_next[OF this(1) \<open>dist ?n l (oldId - 1) \<noteq> 0\<close>] this(2,3), of w'] have
        "\<exists>w'' l' r. group_loop call err final servers oldId w' ?next = Some (Returns (w'', l', r)) \<and>
           0 \<le> l' \<and> l' < int ?n" .
      then show ?thesis using Advance c nth False by (subst group_loop.simps) simp
    qed
  next
    case (Final r)
    then show ?thesis using c nth less.prems by (subst group_loop.simps) simp
  next
    case GiveUp
    then show ?thesis using c nth less.prems by (subst group_loop.simps) simp
  qed (use turn in simp)
qed



text \<open>C30. A sharded clerk panics when the group of the key has fewer servers than it had before: the
  remembered leader of a group is kept over configurations and indexes the new list of servers.\<close>

theorem stale_leader_panics:
  assumes "go_nth (cfg_Shards (sck_config ck)) (key2shard key) = Some gid"
    and "map_of (cfg_Groups (sck_config ck)) gid = Some servers"
    and "sck_leaderIds ck gid = Some l" "int (length servers) \<le> l"
  shows "sk_clerk_Get call query (w :: 'a) ck key = Some Panic"
proof -
  have "go_nth servers l = None" using assms(4) by (simp add: go_nth_def)
  then have "group_loop c err final servers l w l = Some Panic" for c :: "'a \<Rightarrow> string \<Rightarrow> 'a \<times> OpReply option" and err final
    by (subst group_loop.simps) simp
  then have "shard_loop c query err final key w ck = Some Panic" for c :: "'a \<Rightarrow> string \<Rightarrow> 'a \<times> OpReply option" and err final
    using assms(1-3) by (subst shard_loop.simps) simp
  then show ?thesis by (simp add: sk_clerk_Get_def)
qed

definition stale_clerk :: ShardClerk where
  "stale_clerk = (sk_MakeClerk 1 5 6)\<lparr>sck_config := \<lparr>cfg_Num = 3, cfg_Shards = replicate 10 1, cfg_Groups = [(1, [''a''])]\<rparr>,
     sck_leaderIds := [1 \<mapsto> 2]\<rparr>"

theorem stale_leader_panics_witness:
  "sk_clerk_Get (\<lambda>w s k. (w, None)) (\<lambda>w i n. (w, None)) (0 :: nat) stale_clerk ''k'' = Some Panic"
proof -
  have "go_nth (cfg_Shards (sck_config stale_clerk)) (key2shard ''k'') = Some 1" by code_simp
  then show ?thesis
    using stale_leader_panics[of stale_clerk "''k''" 1 "[''a'']" 2] by (simp add: stale_clerk_def)
qed

end
