(* ===== verification/Vector_Format.thy ===== *)
theory Vector_Format
  imports Vector_Data
begin

text \<open>
  Properties of the byte format of vectors: the buffer \<open>Serialize\<close> fills is the concatenation of its
  fields, \<open>DeserializeVector\<close> inverts it up to the metadata, which the format does not hold, rejects every truncated
  input and never panics.
\<close>

unbundle bit_operations_syntax

section \<open>Words and bytes\<close>

lemma length_le [simp]: "length (le32 w) = 4" "length (le64 x) = 8"
  by (simp_all add: le32_def le64_def)

lemma bit_le_word:
  "bit (le_word bs :: 'w :: len word) n \<longleftrightarrow> n < LENGTH('w) \<and> n div 8 < length bs \<and> bit (bs ! (n div 8)) (n mod 8)"
proof (induction bs arbitrary: n)
  case (Cons b bs)
  have "bit b n \<Longrightarrow> n < 8" using bit_imp_le_length[of b n] by simp
  then show ?case
    by (cases "n < 8")
      (auto simp: le_word_def[of "b # bs"] le_word_def[symmetric] bit_simps Cons.IH not_less le_div_geq le_mod_geq)
qed (simp add: le_word_def)

lemma le_word_le32 [simp]: "le_word (le32 w) = w"
  by (rule bit_word_eqI) (simp add: bit_le_word le32_def bit_simps div_less_iff_less_mult nth_upt)

lemma le_word_le64 [simp]: "le_word (le64 w) = w"
  by (rule bit_word_eqI) (simp add: bit_le_word le64_def bit_simps div_less_iff_less_mult nth_upt)

lemma string_of_bytes_of [simp]: "string_of (bytes_of s) = s"
proof -
  have "unat (of_nat (of_char c) :: byte) = (of_char c :: nat)" for c
    by (simp add: unat_of_nat)
  then show ?thesis by (simp add: string_of_def bytes_of_def o_def)
qed

lemma length_bytes_of [simp]: "length (bytes_of s) = length s"
  by (simp add: bytes_of_def)

section \<open>Writing\<close>

text \<open>The fields of the format, one after the other.\<close>

definition encode :: "Vector \<Rightarrow> byte list" where
  "encode v = le32 (of_nat (length (v_ID v))) @ bytes_of (v_ID v) @ le32 (of_nat (length (v_Values v))) @
     concat (map le32 (v_Values v)) @ le32 0 @ le64 (word_of_int (v_Timestamp v)) @ [if v_Deleted v then 1 else 0]"

lemma fill_copy: "length src \<le> n \<Longrightarrow> length pre = off \<Longrightarrow>
    go_copy (pre @ replicate n z) off src = Some ((pre @ src) @ replicate (n - length src) z)"
  by (auto simp: go_copy_def)

lemma fill_word:
  "4 \<le> n \<Longrightarrow> length pre = off \<Longrightarrow> PutUint32 (pre @ replicate n 0) off w = Some ((pre @ le32 w) @ replicate (n - 4) 0)"
  "8 \<le> n \<Longrightarrow> length pre = off \<Longrightarrow> PutUint64 (pre @ replicate n 0) off x = Some ((pre @ le64 x) @ replicate (n - 8) 0)"
  by (simp_all add: PutUint32_def PutUint64_def fill_copy del: append_assoc)

lemma length_concat_le32 [simp]: "length (concat (map le32 xs)) = 4 * length xs"
  by (induction xs) simp_all

lemma fill_values: "4 * length xs \<le> n \<Longrightarrow> length pre = off \<Longrightarrow>
    put_values (pre @ replicate n 0) off xs =
      Some ((pre @ concat (map le32 xs)) @ replicate (n - 4 * length xs) 0, off + 4 * length xs)"
proof (induction xs arbitrary: n pre off)
  case (Cons x xs)
  then have "put_values (pre @ replicate n 0) off (x # xs) = put_values ((pre @ le32 x) @ replicate (n - 4) 0) (off + 4) xs"
    by (simp add: fill_word del: append_assoc)
  with Cons.IH[of "n - 4" "pre @ le32 x" "off + 4"] Cons.prems show ?case by (simp add: diff_diff_left)
qed simp

lemma fill_set: "length pre = off \<Longrightarrow> go_set (pre @ replicate 1 z) (int off) b = Some (pre @ [b])"
  by (auto simp: go_set_def)

lemma Serialize_eq: "Serialize v = Some (encode v)"
proof -
  let ?i = "bytes_of (v_ID v)" and ?xs = "v_Values v" and ?n = "length (v_ID v)" and ?k = "4 * length (v_Values v)"
  let ?p1 = "[] @ le32 (of_nat ?n)"
  let ?p2 = "?p1 @ ?i"
  let ?p3 = "?p2 @ le32 (of_nat (length ?xs))"
  let ?p4 = "?p3 @ concat (map le32 ?xs)"
  let ?p5 = "(?p4 @ le32 0) @ []"
  let ?p6 = "?p5 @ le64 (word_of_int (v_Timestamp v))"
  have "PutUint32 ([] @ replicate (?n + ?k + 21) 0) 0 (of_nat ?n) = Some (?p1 @ replicate (?n + ?k + 17) 0)"
    by (subst fill_word) simp_all
  moreover have "go_copy (?p1 @ replicate (?n + ?k + 17) 0) 4 ?i = Some (?p2 @ replicate (?k + 17) 0)"
    by (subst fill_copy) simp_all
  moreover have "PutUint32 (?p2 @ replicate (?k + 17) 0) (4 + ?n) (of_nat (length ?xs)) = Some (?p3 @ replicate (?k + 13) 0)"
    by (subst fill_word) simp_all
  moreover have "put_values (?p3 @ replicate (?k + 13) 0) (8 + ?n) ?xs = Some (?p4 @ replicate 13 0, 8 + ?n + ?k)"
    by (subst fill_values) simp_all
  moreover have "PutUint32 (?p4 @ replicate 13 0) (8 + ?n + ?k) 0 = Some ((?p4 @ le32 0) @ replicate 9 0)"
    by (subst fill_word) simp_all
  moreover have "go_copy ((?p4 @ le32 0) @ replicate 9 0) (8 + ?n + ?k + 4) [] = Some (?p5 @ replicate 9 0)"
    by (subst fill_copy) simp_all
  moreover have "PutUint64 (?p5 @ replicate 9 0) (8 + ?n + ?k + 4) (word_of_int (v_Timestamp v)) = Some (?p6 @ replicate 1 0)"
    by (subst fill_word) simp_all
  moreover have "go_set (?p6 @ replicate 1 0) (int (8 + ?n + ?k + 12)) b = Some (?p6 @ [b])" for b
    by (subst fill_set) simp_all
  ultimately show ?thesis
    by (simp add: Serialize_def serializeMetadata_def Let_def encode_def algebra_simps)
qed

section \<open>Reading\<close>

lemma read_word:
  "length pre = off \<Longrightarrow> go_Uint32 (pre @ le32 w @ post) off = Some w"
  "length pre = off \<Longrightarrow> go_Uint64 (pre @ le64 x @ post) off = Some x"
  by (auto simp: go_Uint32_def go_Uint64_def)

lemma read_sub: "length pre = off \<Longrightarrow> go_sub (pre @ xs @ post) off (off + length xs) = Some xs"
  by (auto simp: go_sub_def)

lemma read_nothing [simp]: "a \<le> length xs \<Longrightarrow> go_sub xs a a = Some []"
  by (simp add: go_sub_def)

lemma read_values: "length pre = off \<Longrightarrow> get_values (pre @ concat (map le32 xs) @ post) off (length xs) = Some xs"
proof (induction xs arbitrary: pre off)
  case (Cons x xs)
  from Cons.IH[of "pre @ le32 x" "off + 4"] Cons.prems show ?case
    using read_word(1)[OF Cons.prems, of x "concat (map le32 xs) @ post"] by simp
qed simp

text \<open>What the reads see of a truncated input.\<close>

lemma read_take:
  "n \<le> length data \<Longrightarrow> off + 4 \<le> n \<Longrightarrow> go_Uint32 (take n data) off = go_Uint32 data off"
  "n \<le> length data \<Longrightarrow> off + 8 \<le> n \<Longrightarrow> go_Uint64 (take n data) off = go_Uint64 data off"
  "n \<le> length data \<Longrightarrow> b \<le> n \<Longrightarrow> go_sub (take n data) a b = go_sub data a b"
  by (auto simp: go_Uint32_def go_Uint64_def go_sub_def drop_take min_def)

lemma get_values_take:
  "n \<le> length data \<Longrightarrow> off + 4 * k \<le> n \<Longrightarrow> get_values (take n data) off k = get_values data off k"
  by (induction k arbitrary: off) (simp_all add: read_take)

lemma get_values_total: "off + 4 * k \<le> length data \<Longrightarrow> \<exists>xs. get_values data off k = Some xs"
proof (induction k arbitrary: off)
  case (Suc k)
  from Suc.IH[of "off + 4"] Suc.prems show ?case by (auto simp: go_Uint32_def)
qed simp

lemma encode_fields:
  assumes "length (v_ID v) < 2 ^ 32" "length (v_Values v) < 2 ^ 32"
  defines "d \<equiv> encode v" and "n \<equiv> length (v_ID v)" and "k \<equiv> length (v_Values v)"
  shows "length d = n + 4 * k + 21"
    "go_Uint32 d 0 = Some (of_nat n)" "unat (of_nat n :: 32 word) = n" "go_sub d 4 (4 + n) = Some (bytes_of (v_ID v))"
    "go_Uint32 d (4 + n) = Some (of_nat k)" "unat (of_nat k :: 32 word) = k" "get_values d (8 + n) k = Some (v_Values v)"
    "go_Uint32 d (8 + n + 4 * k) = Some 0" "go_Uint64 d (12 + n + 4 * k) = Some (word_of_int (v_Timestamp v))"
    "go_nth d (int (20 + n + 4 * k)) = Some (if v_Deleted v then 1 else 0)"
proof -
  let ?i = "bytes_of (v_ID v)" and ?c = "concat (map le32 (v_Values v))" and ?w = "word_of_int (v_Timestamp v) :: 64 word"
  let ?b = "[if v_Deleted v then 1 else 0 :: byte]"
  have d: "d = le32 (of_nat n) @ ?i @ le32 (of_nat k) @ ?c @ le32 0 @ le64 ?w @ ?b"
    by (simp add: d_def encode_def n_def k_def)
  show "length d = n + 4 * k + 21" by (simp add: d n_def k_def)
  show "unat (of_nat n :: 32 word) = n" "unat (of_nat k :: 32 word) = k"
    using assms(1,2) by (simp_all add: n_def k_def unat_of_nat)
  show "go_Uint32 d 0 = Some (of_nat n)" using read_word(1)[of "[]" 0] by (simp add: d)
  show "go_sub d 4 (4 + n) = Some ?i" using read_sub[of "le32 (of_nat n)" 4 ?i] by (simp add: d n_def)
  show "go_Uint32 d (4 + n) = Some (of_nat k)"
    using read_word(1)[of "le32 (of_nat n) @ ?i" "4 + n"] by (simp add: d n_def)
  show "get_values d (8 + n) k = Some (v_Values v)"
    using read_values[of "le32 (of_nat n) @ ?i @ le32 (of_nat k)" "8 + n"] by (simp add: d n_def k_def)
  show "go_Uint32 d (8 + n + 4 * k) = Some 0"
    using read_word(1)[of "le32 (of_nat n) @ ?i @ le32 (of_nat k) @ ?c" "8 + n + 4 * k"] by (simp add: d n_def k_def)
  show "go_Uint64 d (12 + n + 4 * k) = Some ?w"
    using read_word(2)[of "le32 (of_nat n) @ ?i @ le32 (of_nat k) @ ?c @ le32 0" "12 + n + 4 * k"] by (simp add: d n_def k_def)
  have "go_nth (pre @ [b]) (int (length pre)) = Some b" for pre and b :: byte by (simp add: go_nth_def)
  from this[of "le32 (of_nat n) @ ?i @ le32 (of_nat k) @ ?c @ le32 0 @ le64 ?w"]
  show "go_nth d (int (20 + n + 4 * k)) = Some (if v_Deleted v then 1 else 0)" by (simp add: d n_def k_def add_ac)
qed

section \<open>The format\<close>

text \<open>C36. Writing and reading a vector gives it back: with lengths below \<open>2^32\<close> and a 64-bit time stamp
  \<open>Serialize\<close> does not panic, and \<open>DeserializeVector\<close> of its result is the vector with all
  its fields but the metadata, which come back empty: the format does not hold them.\<close>

theorem vector_roundtrip:
  assumes "length (v_ID v) < 2 ^ 32" "length (v_Values v) < 2 ^ 32" "- (2 ^ 63) \<le> v_Timestamp v" "v_Timestamp v < 2 ^ 63"
  shows "\<exists>data. Serialize v = Some data \<and> DeserializeVector data = Some (Inr (v\<lparr>v_Metadata := Some []\<rparr>))"
proof -
  have "sint (word_of_int (v_Timestamp v) :: 64 word) = v_Timestamp v"
    using assms(3,4) by (simp add: sint_sbintrunc' signed_take_bit_int_eq_self)
  then have "DeserializeVector (encode v) = Some (Inr (v\<lparr>v_Metadata := Some []\<rparr>))"
    using encode_fields[OF assms(1,2)]
    by (cases v) (simp add: DeserializeVector_def Let_def deserializeMetadata_def add_ac mult.commute)
  then show ?thesis by (simp add: Serialize_eq)
qed

definition demo_vector :: Vector where
  "demo_vector = \<lparr>v_ID = ''v1'', v_Values = [0x3f800000, 0xbf000000], v_Metadata = Some [(''k'', VInt 1)],
     v_Timestamp = -5, v_Deleted = True\<rparr>"

theorem vector_roundtrip_witness:
  "\<exists>data. Serialize demo_vector = Some data \<and> DeserializeVector data = Some (Inr (demo_vector\<lparr>v_Metadata := Some []\<rparr>))"
  by (rule vector_roundtrip) (simp_all add: demo_vector_def)

text \<open>A truncated vector is rejected: whatever number of bytes is missing at the end of the
  serialized form, \<open>DeserializeVector\<close> returns \<open>ErrInvalidFormat\<close>.\<close>

lemma truncated_rejected:
  assumes "length (v_ID v) < 2 ^ 32" "length (v_Values v) < 2 ^ 32" "Serialize v = Some data" "m < length data"
  shows "DeserializeVector (take m data) = Some (Inl ErrInvalidFormat)"
proof -
  have d: "data = encode v" using assms(3) by (simp add: Serialize_eq)
  note f = encode_fields[OF assms(1,2), folded d]
  let ?n = "length (v_ID v)" and ?k = "length (v_Values v)"
  have m: "m < ?n + 4 * ?k + 21" using assms(4) f(1) by simp
  note [simp] = read_take get_values_take
  have "4 \<le> m \<Longrightarrow> go_Uint32 (take m data) 0 = Some (of_nat ?n)" using assms(4) f(2) by simp
  moreover have "4 + ?n \<le> m \<Longrightarrow> go_sub (take m data) 4 (4 + ?n) = Some (bytes_of (v_ID v))" using assms(4) f(4) by simp
  moreover have "8 + ?n \<le> m \<Longrightarrow> go_Uint32 (take m data) (4 + ?n) = Some (of_nat ?k)" using assms(4) f(5) by simp
  moreover have "8 + ?n + 4 * ?k \<le> m \<Longrightarrow> get_values (take m data) (8 + ?n) ?k = Some (v_Values v)" using assms(4) f(7) by simp
  moreover have "12 + ?n + 4 * ?k \<le> m \<Longrightarrow> go_Uint32 (take m data) (8 + ?n + 4 * ?k) = Some 0" using assms(4) f(8) by simp
  moreover have "20 + ?n + 4 * ?k \<le> m \<Longrightarrow> go_Uint64 (take m data) (12 + ?n + 4 * ?k) = Some (word_of_int (v_Timestamp v))"
    using assms(4) f(9) by simp
  ultimately show ?thesis
    using m f(3,6) assms(4) by (simp add: DeserializeVector_def Let_def not_le not_less min_def mult.commute add_ac)
qed

text \<open>C37. Reading a vector never panics: on any bytes, well-formed or not, every index the decoder uses
  is in range, and it returns an error or a vector no larger than the bytes it was read from.\<close>

theorem DeserializeVector_total:
  "(\<exists>v. DeserializeVector data = Some (Inr v) \<and> length (v_ID v) + 4 * length (v_Values v) + 21 \<le> length data) \<or>
   DeserializeVector data = Some (Inl ErrInvalidFormat)"
proof -
  have len: "get_values data off k = Some xs \<Longrightarrow> length xs = k" for off k xs
    by (induction k arbitrary: off xs) (auto simp: bind_eq_Some_conv)
  have word: "\<exists>w. off + 4 \<le> length data \<longrightarrow> go_Uint32 data off = Some w" for off by (simp add: go_Uint32_def)
  obtain n where n: "4 \<le> length data \<longrightarrow> go_Uint32 data 0 = Some n" using word[of 0] by auto
  obtain k where k: "8 + unat n \<le> length data \<longrightarrow> go_Uint32 data (4 + unat n) = Some k"
    using word[of "4 + unat n"] by (auto simp: add_ac)
  obtain xs where xs: "8 + unat n + 4 * unat k \<le> length data \<longrightarrow>
      get_values data (8 + unat n) (unat k) = Some xs \<and> length xs = unat k"
    using get_values_total[of "8 + unat n" "unat k" data] len by blast
  obtain m where m: "12 + unat n + 4 * unat k \<le> length data \<longrightarrow> go_Uint32 data (8 + unat n + 4 * unat k) = Some m"
    using word[of "8 + unat n + 4 * unat k"] by (auto simp: add_ac)
  have go_nth_nat: "go_nth data (int i) = (if i < length data then Some (data ! i) else None)" for i by (simp add: go_nth_def)
  show ?thesis using n k xs m
    by (simp add: DeserializeVector_def Let_def go_Uint64_def go_sub_def go_nth_nat string_of_def mult.commute add_ac not_less del: of_nat_add of_nat_simps)
qed

end
