(* ===== verification/Metadata_Filter.thy ===== *)
theory Metadata_Filter
  imports Vector_Data "HOL-Library.Sublist" "HOL-Library.List_Lexorder" "HOL-Library.Char_ord"
begin

text \<open>
  \<open>src/src/models/metadata.go\<close>: schemas and filters over the metadata of vectors. Comparison of
  \<open>float64\<close> values and the conversion from \<open>int\<close> are the parameter \<open>float64_ops\<close>. Strings are ordered as
  in Go, by bytes.
\<close>

section \<open>Schemas\<close>

datatype FieldType = StringField | NumberField | BoolField | ArrayField | GeoField

type_synonym MetadataSchema = "(string, FieldType) gomap"

definition NewMetadataSchema :: MetadataSchema where
  "NewMetadataSchema = []"

definition AddField :: "MetadataSchema \<Rightarrow> string \<Rightarrow> FieldType \<Rightarrow> MetadataSchema" where
  "AddField s name fieldType = AList.update name fieldType s"

fun detectFieldType :: "GoVal \<Rightarrow> FieldType" where
  "detectFieldType VNil = StringField"
| "detectFieldType (VString _) = StringField"
| "detectFieldType (VFloat32 _) = NumberField"
| "detectFieldType (VFloat64 _) = NumberField"
| "detectFieldType (VInt _) = NumberField"
| "detectFieldType (VIntN _ _) = NumberField"
| "detectFieldType (VBool _) = BoolField"
| "detectFieldType (VArray _) = ArrayField"
| "detectFieldType (VStrings _) = ArrayField"
| "detectFieldType (VInts _) = ArrayField"
| "detectFieldType (VFloats _) = ArrayField"
| "detectFieldType (VMap m) =
     (if map_of m ''lat'' \<noteq> None \<and> map_of m ''lon'' \<noteq> None then GeoField else StringField)"
| "detectFieldType (VOther _) = StringField"

text \<open>The error names the field, the expected and the actual type.\<close>

fun ValidateMetadata :: "MetadataSchema \<Rightarrow> (string, GoVal) gomap \<Rightarrow> (string \<times> FieldType \<times> FieldType) option" where
  "ValidateMetadata [] metadata = None"
| "ValidateMetadata ((name, expectedType) # rest) metadata =
     (case map_of metadata name of
        None \<Rightarrow> ValidateMetadata rest metadata
      | Some v \<Rightarrow>
          if detectFieldType v \<noteq> expectedType then Some (name, expectedType, detectFieldType v)
          else ValidateMetadata rest metadata)"

section \<open>Values\<close>

record float64_ops =
  d_less :: "float64 \<Rightarrow> float64 \<Rightarrow> bool"
  d_eq :: "float64 \<Rightarrow> float64 \<Rightarrow> bool"
  d_of_int :: "int \<Rightarrow> float64"
  d_eq32 :: "float32 \<Rightarrow> float32 \<Rightarrow> bool"

text \<open>\<open>reflect.DeepEqual\<close> on these values, which share no slice or map.\<close>

fun DeepEqual :: "float64_ops \<Rightarrow> GoVal \<Rightarrow> GoVal \<Rightarrow> bool"
  and deep_list :: "float64_ops \<Rightarrow> GoVal list \<Rightarrow> GoVal list \<Rightarrow> bool"
  and deep_map :: "float64_ops \<Rightarrow> (string \<times> GoVal) list \<Rightarrow> (string \<times> GoVal) list \<Rightarrow> bool" where
  "DeepEqual d VNil w = (w = VNil)"
| "DeepEqual d (VString s) w = (w = VString s)"
| "DeepEqual d (VFloat64 x) w = (case w of VFloat64 y \<Rightarrow> d_eq d x y | _ \<Rightarrow> False)"
| "DeepEqual d (VFloat32 x) w = (case w of VFloat32 y \<Rightarrow> d_eq32 d x y | _ \<Rightarrow> False)"
| "DeepEqual d (VInt x) w = (w = VInt x)"
| "DeepEqual d (VIntN k x) w = (w = VIntN k x)"
| "DeepEqual d (VBool x) w = (w = VBool x)"
| "DeepEqual d (VArray xs) w = (case w of VArray ys \<Rightarrow> deep_list d xs ys | _ \<Rightarrow> False)"
| "DeepEqual d (VStrings xs) w = (w = VStrings xs)"
| "DeepEqual d (VInts xs) w = (w = VInts xs)"
| "DeepEqual d (VFloats xs) w = (case w of VFloats ys \<Rightarrow> list_all2 (d_eq d) xs ys | _ \<Rightarrow> False)"
| "DeepEqual d (VMap m) w = (case w of VMap n \<Rightarrow> length m = length n \<and> deep_map d m n | _ \<Rightarrow> False)"
| "DeepEqual d (VOther x) w = (w = VOther x)"
| "deep_list d [] ys = (ys = [])"
| "deep_list d (x # xs) ys = (case ys of [] \<Rightarrow> False | y # ys' \<Rightarrow> DeepEqual d x y \<and> deep_list d xs ys')"
| "deep_map d [] n = True"
| "deep_map d ((k, x) # m) n = ((case map_of n k of Some y \<Rightarrow> DeepEqual d x y | None \<Rightarrow> False) \<and> deep_map d m n)"

definition three_way :: "('a \<Rightarrow> 'a \<Rightarrow> bool) \<Rightarrow> 'a \<Rightarrow> 'a \<Rightarrow> int" where
  "three_way lt x y = (if lt x y then - 1 else if lt y x then 1 else 0)"

definition compareValues :: "float64_ops \<Rightarrow> GoVal \<Rightarrow> GoVal \<Rightarrow> int" where
  "compareValues d v1 v2 =
     (if v1 = VNil \<and> v2 = VNil then 0
      else if v1 = VNil then - 1
      else if v2 = VNil then 1
      else case v1 of
        VString x \<Rightarrow> (case v2 of VString y \<Rightarrow> three_way (<) x y | _ \<Rightarrow> 0)
      | VFloat64 x \<Rightarrow>
          (case v2 of VFloat64 y \<Rightarrow> three_way (d_less d) x y | VInt y \<Rightarrow> three_way (d_less d) x (d_of_int d y) | _ \<Rightarrow> 0)
      | VInt x \<Rightarrow>
          (case v2 of VInt y \<Rightarrow> three_way (<) x y | VFloat64 y \<Rightarrow> three_way (d_less d) (d_of_int d x) y | _ \<Rightarrow> 0)
      | _ \<Rightarrow> 0)"

fun getNestedValue :: "(string, GoVal) gomap \<Rightarrow> string list \<Rightarrow> GoVal" where
  "getNestedValue data [] = VNil"
| "getNestedValue data [p] = mget VNil data p"
| "getNestedValue data (p # q # path) =
     (case mget VNil data p of VMap nestedMap \<Rightarrow> getNestedValue nestedMap (q # path) | _ \<Rightarrow> VNil)"

text \<open>\<open>strings.Split(s, ".")\<close>.\<close>

fun split_dots :: "string \<Rightarrow> string list" where
  "split_dots [] = [[]]"
| "split_dots (c # cs) =
     (if c = CHR ''.'' then [] # split_dots cs
      else case split_dots cs of [] \<Rightarrow> [[c]] | part # parts \<Rightarrow> (c # part) # parts)"

section \<open>Filters\<close>

datatype FilterOperator = FilterAND | FilterOR

record FilterCondition =
  fc_Field :: string
  fc_Operator :: string
  fc_Value :: GoVal

record MetadataFilter =
  mf_Conditions :: "FilterCondition list"
  mf_Operator :: FilterOperator

definition NewEqualsCondition :: "string \<Rightarrow> GoVal \<Rightarrow> FilterCondition" where
  "NewEqualsCondition field v = \<lparr>fc_Field = field, fc_Operator = ''eq'', fc_Value = v\<rparr>"

definition NewRangeCondition :: "string \<Rightarrow> GoVal \<Rightarrow> GoVal \<Rightarrow> FilterCondition" where
  "NewRangeCondition field lo hi =
     \<lparr>fc_Field = field, fc_Operator = ''range'', fc_Value = VMap [(''gte'', lo), (''lte'', hi)]\<rparr>"

definition NewAndFilter :: "FilterCondition list \<Rightarrow> MetadataFilter" where
  "NewAndFilter conditions = \<lparr>mf_Conditions = conditions, mf_Operator = FilterAND\<rparr>"

definition NewOrFilter :: "FilterCondition list \<Rightarrow> MetadataFilter" where
  "NewOrFilter conditions = \<lparr>mf_Conditions = conditions, mf_Operator = FilterOR\<rparr>"

definition match_range :: "float64_ops \<Rightarrow> GoVal \<Rightarrow> GoVal \<Rightarrow> bool" where
  "match_range d v bounds =
     (case bounds of
        VMap rangeValues \<Rightarrow>
          (if (case map_of rangeValues ''gte'' of Some lo \<Rightarrow> compareValues d v lo < 0 | None \<Rightarrow> False) then False
           else if (case map_of rangeValues ''lte'' of Some hi \<Rightarrow> compareValues d v hi > 0 | None \<Rightarrow> False) then False
           else True)
      | _ \<Rightarrow> False)"

definition match_contains :: "float64_ops \<Rightarrow> GoVal \<Rightarrow> GoVal \<Rightarrow> bool" where
  "match_contains d v wanted =
     (case v of
        VString strVal \<Rightarrow> (case wanted of VString condStrVal \<Rightarrow> sublist condStrVal strVal | _ \<Rightarrow> False)
      | VArray arrVal \<Rightarrow> list_ex (\<lambda>item. DeepEqual d item wanted) arrVal
      | _ \<Rightarrow> False)"

definition matchCondition :: "float64_ops \<Rightarrow> (string, GoVal) gomap \<Rightarrow> FilterCondition \<Rightarrow> bool" where
  "matchCondition d metadata condition =
     (let v = getNestedValue metadata (split_dots (fc_Field condition));
          oper = fc_Operator condition;
          cv = fc_Value condition
      in if v = VNil then False
         else if oper = ''eq'' then DeepEqual d v cv
         else if oper = ''neq'' then \<not> DeepEqual d v cv
         else if oper = ''gt'' then compareValues d v cv > 0
         else if oper = ''gte'' then compareValues d v cv \<ge> 0
         else if oper = ''lt'' then compareValues d v cv < 0
         else if oper = ''lte'' then compareValues d v cv \<le> 0
         else if oper = ''range'' then match_range d v cv
         else if oper = ''contains'' then match_contains d v cv
         else False)"

fun match_all :: "float64_ops \<Rightarrow> (string, GoVal) gomap \<Rightarrow> FilterCondition list \<Rightarrow> bool" where
  "match_all d metadata [] = True"
| "match_all d metadata (c # cs) = (if \<not> matchCondition d metadata c then False else match_all d metadata cs)"

fun match_any :: "float64_ops \<Rightarrow> (string, GoVal) gomap \<Rightarrow> FilterCondition list \<Rightarrow> bool" where
  "match_any d metadata [] = False"
| "match_any d metadata (c # cs) = (if matchCondition d metadata c then True else match_any d metadata cs)"

definition MatchVector :: "float64_ops \<Rightarrow> MetadataFilter option \<Rightarrow> Vector \<Rightarrow> bool" where
  "MatchVector d f v =
     (case f of
        None \<Rightarrow> True
      | Some mf \<Rightarrow>
          if length (mf_Conditions mf) = 0 then True
          else case v_Metadata v of
            None \<Rightarrow> length (mf_Conditions mf) = 0
          | Some metadata \<Rightarrow>
              if mf_Operator mf = FilterAND then match_all d metadata (mf_Conditions mf)
              else match_any d metadata (mf_Conditions mf))"

end
