(* ===== verification/Vector_Distance.thy ===== *)
theory Vector_Distance
  imports Vector_Data
begin

text \<open>
  \<open>src/src/vector/distance.go\<close>: distances and similarities of vectors, over the arithmetic of the parameter
  \<open>float32_ops\<close>; constants are IEEE bit patterns. The SIMD variants of \<open>distance_simd.go\<close> are left out.
\<close>

section \<open>Metrics\<close>

text \<open>\<open>DistanceMetric\<close> is an \<open>int\<close> in Go: besides the four constants it can be any number.\<close>

datatype DistanceMetric = Cosine | DotProduct | Euclidean | Manhattan | OtherMetric int

fun metric_String :: "DistanceMetric \<Rightarrow> string" where
  "metric_String Cosine = ''Cosine''"
| "metric_String DotProduct = ''DotProduct''"
| "metric_String Euclidean = ''Euclidean''"
| "metric_String Manhattan = ''Manhattan''"
| "metric_String (OtherMetric _) = ''Unknown''"

abbreviation f32_one :: float32 where "f32_one \<equiv> 0x3f800000"
abbreviation f32_minus_one :: float32 where "f32_minus_one \<equiv> 0xbf800000"
abbreviation f32_two :: float32 where "f32_two \<equiv> 0x40000000"
abbreviation f32_half :: float32 where "f32_half \<equiv> 0x3f000000"
abbreviation f32_inf :: float32 where "f32_inf \<equiv> 0x7f800000"

section \<open>Distances\<close>

definition dot :: "float32_ops \<Rightarrow> float32 list \<Rightarrow> float32 list \<Rightarrow> float32" where
  "dot fo a b = fold (\<lambda>(x, y) s. f_add fo s (f_mul fo x y)) (zip a b) 0"

text \<open>The loop of \<open>CosineSimilarity\<close> with its three sums.\<close>

definition cosine_loop :: "float32_ops \<Rightarrow> float32 list \<Rightarrow> float32 list \<Rightarrow> float32 \<times> float32 \<times> float32" where
  "cosine_loop fo a b =
     fold (\<lambda>(x, y) (d, na, nb). (f_add fo d (f_mul fo x y), f_add fo na (f_mul fo x x), f_add fo nb (f_mul fo y y)))
       (zip a b) (0, 0, 0)"

definition CosineSimilarity :: "float32_ops \<Rightarrow> float32 list \<Rightarrow> float32 list \<Rightarrow> float32" where
  "CosineSimilarity fo a b =
     (if length a \<noteq> length b then f32_minus_one
      else let (d, normA, normB) = cosine_loop fo a b in
        if f_eq fo normA 0 \<or> f_eq fo normB 0 then 0
        else f_div fo d (f_mul fo (f_sqrt fo normA) (f_sqrt fo normB)))"

definition DotProductOf :: "float32_ops \<Rightarrow> float32 list \<Rightarrow> float32 list \<Rightarrow> float32" where
  "DotProductOf fo a b = (if length a \<noteq> length b then 0 else dot fo a b)"

definition EuclideanDistance :: "float32_ops \<Rightarrow> float32 list \<Rightarrow> float32 list \<Rightarrow> float32" where
  "EuclideanDistance fo a b =
     (if length a \<noteq> length b then f32_inf
      else f_sqrt fo (fold (\<lambda>(x, y) s. let diff = f_sub fo x y in f_add fo s (f_mul fo diff diff)) (zip a b) 0))"

definition ManhattanDistance :: "float32_ops \<Rightarrow> float32 list \<Rightarrow> float32 list \<Rightarrow> float32" where
  "ManhattanDistance fo a b =
     (if length a \<noteq> length b then f32_inf
      else fold (\<lambda>(x, y) s. f_add fo s (f_abs fo (f_sub fo x y))) (zip a b) 0)"

fun GetDistanceFunc :: "float32_ops \<Rightarrow> DistanceMetric \<Rightarrow> (float32 list \<Rightarrow> float32 list \<Rightarrow> float32) option" where
  "GetDistanceFunc fo Cosine = Some (CosineSimilarity fo)"
| "GetDistanceFunc fo DotProduct = Some (DotProductOf fo)"
| "GetDistanceFunc fo Euclidean = Some (EuclideanDistance fo)"
| "GetDistanceFunc fo Manhattan = Some (ManhattanDistance fo)"
| "GetDistanceFunc fo (OtherMetric _) = None"

definition NormalizeVector :: "float32_ops \<Rightarrow> float32 list \<Rightarrow> float32 list" where
  "NormalizeVector fo v =
     (let sumSquares = sum_of_squares fo v in
      if f_eq fo sumSquares 0 then v else map (\<lambda>x. f_div fo x (f_sqrt fo sumSquares)) v)"

definition PrecomputeNorms :: "float32_ops \<Rightarrow> float32 list list \<Rightarrow> float32 list" where
  "PrecomputeNorms fo vectors = map (\<lambda>vec. f_sqrt fo (sum_of_squares fo vec)) vectors"

definition CosineSimilarityWithNorms ::
    "float32_ops \<Rightarrow> float32 list \<Rightarrow> float32 list \<Rightarrow> float32 \<Rightarrow> float32 \<Rightarrow> float32" where
  "CosineSimilarityWithNorms fo a b normA normB =
     (if length a \<noteq> length b then f32_minus_one
      else if f_eq fo normA 0 \<or> f_eq fo normB 0 then 0
      else f_div fo (dot fo a b) (f_mul fo normA normB))"

definition CosineSimilarityNormalized :: "float32_ops \<Rightarrow> float32 list \<Rightarrow> float32 list \<Rightarrow> float32" where
  "CosineSimilarityNormalized fo a b = (if length a \<noteq> length b then f32_minus_one else dot fo a b)"

definition BatchDistance :: "float32_ops \<Rightarrow> float32 list \<Rightarrow> float32 list list \<Rightarrow> DistanceMetric \<Rightarrow> float32 list option" where
  "BatchDistance fo query vectors metric =
     do { distFunc \<leftarrow> GetDistanceFunc fo metric; Some (map (\<lambda>vec. distFunc query vec) vectors) }"

fun IsHigherBetter :: "DistanceMetric \<Rightarrow> bool" where
  "IsHigherBetter Cosine = True"
| "IsHigherBetter DotProduct = True"
| "IsHigherBetter Euclidean = False"
| "IsHigherBetter Manhattan = False"
| "IsHigherBetter (OtherMetric _) = True"

fun NormalizeScore :: "float32_ops \<Rightarrow> float32 \<Rightarrow> DistanceMetric \<Rightarrow> float32" where
  "NormalizeScore fo raw Cosine = f_div fo (f_add fo raw f32_one) f32_two"
| "NormalizeScore fo raw DotProduct =
     (if f_less fo raw 0 \<or> f_eq fo raw 0 then 0
      else if f_less fo f32_one raw \<or> f_eq fo f32_one raw then f32_one
      else raw)"
| "NormalizeScore fo raw Euclidean = f_exp_neg fo raw"
| "NormalizeScore fo raw Manhattan = f_exp_neg_half fo raw"
| "NormalizeScore fo raw (OtherMetric _) = f32_half"

section \<open>Properties\<close>

lemma cosine_loop_eq:
  assumes "length a = length b"
  shows "cosine_loop fo a b = (dot fo a b, sum_of_squares fo a, sum_of_squares fo b)"
proof -
  have "fold (\<lambda>(x, y) (d, na, nb). (f_add fo d (f_mul fo x y), f_add fo na (f_mul fo x x), f_add fo nb (f_mul fo y y)))
      (zip a b) (d, na, nb) =
    (fold (\<lambda>(x, y) s. f_add fo s (f_mul fo x y)) (zip a b) d, fold (\<lambda>x s. f_add fo s (f_mul fo x x)) a na,
     fold (\<lambda>x s. f_add fo s (f_mul fo x x)) b nb)" for d na nb
    using assms by (induction a b arbitrary: d na nb rule: list_induct2) simp_all
  from this[of 0 0 0] show ?thesis by (simp only: cosine_loop_def dot_def sum_of_squares_def)
qed

text \<open>C40. The cosine similarity with precomputed norms is the cosine similarity: with the norms that
  \<open>PrecomputeNorms\<close> gives, both return the same bits for all vectors, of equal or different
  lengths, zero vectors included, if the square root is zero just for zero.\<close>

theorem cosine_with_norms:
  assumes "\<forall>x. f_eq fo (f_sqrt fo x) 0 = f_eq fo x 0" "PrecomputeNorms fo vectors = norms"
    and "i < length vectors" "j < length vectors"
  shows "CosineSimilarityWithNorms fo (vectors ! i) (vectors ! j) (norms ! i) (norms ! j) =
    CosineSimilarity fo (vectors ! i) (vectors ! j)"
proof -
  have norm: "norms ! i = f_sqrt fo (sum_of_squares fo (vectors ! i))" if "i < length vectors" for i
    using assms(2) that by (auto simp: PrecomputeNorms_def)
  show ?thesis
    unfolding norm[OF assms(3)] norm[OF assms(4)] CosineSimilarityWithNorms_def CosineSimilarity_def
    using assms(1) by (simp add: cosine_loop_eq)
qed

text \<open>Fixed-point numbers with the square root left out: an arithmetic that satisfies the laws.\<close>

definition fixed_ops :: float32_ops where
  "fixed_ops = \<lparr>f_add = (+), f_sub = (-), f_mul = (*), f_div = (div), f_sqrt = id, f_abs = (\<lambda>x. min x (- x)),
     f_exp_neg = (\<lambda>x. - x), f_exp_neg_half = (\<lambda>x. - x), f_less = (\<lambda>x y. sint x < sint y), f_eq = (=)\<rparr>"

theorem cosine_with_norms_witness:
  "CosineSimilarityWithNorms fixed_ops [1, 2] [2, 2] 5 8 = CosineSimilarity fixed_ops [1, 2] [2, 2]"
  using cosine_with_norms[of fixed_ops "[[1, 2], [2, 2]]" "[5, 8]" 0 1]
  by (simp add: fixed_ops_def PrecomputeNorms_def sum_of_squares_def)

lemma fold_zip_swap:
  "(\<And>x y s. f (x, y) s = g (y, x) s) \<Longrightarrow> fold f (zip a b) s = fold g (zip b a) s"
  by (induction a b arbitrary: s rule: list_induct2') simp_all

text \<open>Every metric is symmetric: with an arithmetic in which multiplication is commutative and the sign of a
  difference is lost in squares and absolute values, swapping the vectors does not change a bit of the
  distance; so the order of query and stored vector does not matter.\<close>

lemma distance_symmetric:
  assumes "\<forall>x y. f_mul fo x y = f_mul fo y x" "\<forall>x y. f_abs fo (f_sub fo x y) = f_abs fo (f_sub fo y x)"
    and "\<forall>x y. f_mul fo (f_sub fo x y) (f_sub fo x y) = f_mul fo (f_sub fo y x) (f_sub fo y x)"
    and "GetDistanceFunc fo metric = Some dist"
  shows "dist a b = dist b a"
proof -
  have dot: "dot fo a b = dot fo b a" unfolding dot_def using assms(1) by (intro fold_zip_swap) auto
  have "f_mul fo (f_sqrt fo x) (f_sqrt fo y) = f_mul fo (f_sqrt fo y) (f_sqrt fo x)" for x y using assms(1) by blast
  then have "CosineSimilarity fo a b = CosineSimilarity fo b a"
    using dot by (simp add: CosineSimilarity_def cosine_loop_eq disj_commute)
  moreover have "DotProductOf fo a b = DotProductOf fo b a" using dot by (simp add: DotProductOf_def)
  moreover have "fold (\<lambda>(x, y) s. let diff = f_sub fo x y in f_add fo s (f_mul fo diff diff)) (zip a b) 0 =
      fold (\<lambda>(x, y) s. let diff = f_sub fo x y in f_add fo s (f_mul fo diff diff)) (zip b a) 0"
    by (rule fold_zip_swap) (unfold Let_def prod.case, subst assms(3)[rule_format], rule refl)
  then have "EuclideanDistance fo a b = EuclideanDistance fo b a" by (simp add: EuclideanDistance_def)
  moreover have "fold (\<lambda>(x, y) s. f_add fo s (f_abs fo (f_sub fo x y))) (zip a b) 0 =
      fold (\<lambda>(x, y) s. f_add fo s (f_abs fo (f_sub fo x y))) (zip b a) 0"
    by (rule fold_zip_swap) (unfold prod.case, subst assms(2)[rule_format], rule refl)
  then have "ManhattanDistance fo a b = ManhattanDistance fo b a" by (simp add: ManhattanDistance_def)
  ultimately show ?thesis using assms(4) by (cases metric) auto
qed

end
