(* ===== verification/Linear_Index.thy ===== *)
theory Linear_Index
  imports Metadata_Filter Vector_Distance
begin

text \<open>
  \<open>src/src/vector/index/linear.go\<close>: the brute-force index, and the search types of
  \<open>src/src/models/vector_collection.go\<close> it uses. The workers of a search deliver their results in any order: the
  order of arrival is the parameter \<open>arrival\<close>, and \<open>sort.Slice\<close>, which is not stable, the parameter
  \<open>srt\<close>. A result refers to the stored vector, it does not copy it: \<open>sr_Vector\<close> is the identifier
  under which the index holds the vector, or \<^const>\<open>None\<close> for \<open>nil\<close>.
\<close>

section \<open>Search types\<close>

record SearchResult =
  sr_ID :: string
  sr_Distance :: float32
  sr_Vector :: "string option"
  sr_Score :: float32

datatype SearchStrategy = DefaultSearch | ExactSearch | FastSearch | PreciseSearch | BatchSearch | OtherStrategy int

record SearchParams =
  sp_HnswEf :: int
  sp_Exact :: bool
  sp_IndexedOnly :: bool
  sp_UseQuantization :: bool
  sp_SearchStrategy :: SearchStrategy
  sp_ScoreThreshold :: float32

definition NewSearchParams :: SearchParams where
  "NewSearchParams = \<lparr>sp_HnswEf = 100, sp_Exact = False, sp_IndexedOnly = False, sp_UseQuantization = False,
     sp_SearchStrategy = DefaultSearch, sp_ScoreThreshold = 0\<rparr>"

definition NewFastSearchParams :: SearchParams where
  "NewFastSearchParams = \<lparr>sp_HnswEf = 40, sp_Exact = False, sp_IndexedOnly = False, sp_UseQuantization = False,
     sp_SearchStrategy = FastSearch, sp_ScoreThreshold = 0\<rparr>"

definition NewPreciseSearchParams :: SearchParams where
  "NewPreciseSearchParams = \<lparr>sp_HnswEf = 300, sp_Exact = False, sp_IndexedOnly = False, sp_UseQuantization = False,
     sp_SearchStrategy = PreciseSearch, sp_ScoreThreshold = 0\<rparr>"

text \<open>The errors of vectors, indexes and collections.\<close>

datatype vec_error =
    BadDimension int int
  | VectorNotFound string
  | BadMetadata string FieldType FieldType
  | InIndex string vec_error
  | InVector nat vec_error
  | NoIndexes string
  | UnsupportedQuery

section \<open>The index\<close>

record LinearIndex =
  li_dimension :: int
  li_distanceFunc :: "float32 list \<Rightarrow> float32 list \<Rightarrow> float32"
  li_metric :: DistanceMetric
  li_vectors :: "(string, Vector) gomap"
  li_keepNormalized :: bool

definition NewLinearIndex :: "float32_ops \<Rightarrow> int \<Rightarrow> DistanceMetric \<Rightarrow> LinearIndex option" where
  "NewLinearIndex fo dimension metric =
     do { distFunc \<leftarrow> GetDistanceFunc fo metric;
          Some \<lparr>li_dimension = dimension, li_distanceFunc = distFunc, li_metric = metric, li_vectors = [],
            li_keepNormalized = (metric = Cosine)\<rparr> }"

definition li_Insert :: "float32_ops \<Rightarrow> LinearIndex \<Rightarrow> Vector \<Rightarrow> vec_error + LinearIndex" where
  "li_Insert fo idx v =
     (if int (length (v_Values v)) \<noteq> li_dimension idx
      then Inl (BadDimension (int (length (v_Values v))) (li_dimension idx))
      else
        let vectorCopy = vec_Copy v;
            stored = (if li_keepNormalized idx then vec_Normalize fo vectorCopy else vectorCopy)
        in Inr (idx\<lparr>li_vectors := AList.update (v_ID v) stored (li_vectors idx)\<rparr>))"

record distanceResult =
  dr_id :: string
  dr_vector :: string
  dr_distance :: float32

text \<open>One turn of a worker.\<close>

definition li_worker :: "float64_ops \<Rightarrow> LinearIndex \<Rightarrow> float32 list \<Rightarrow> MetadataFilter option \<Rightarrow> string \<times> Vector \<Rightarrow> distanceResult option" where
  "li_worker d idx queryCopy flt = (\<lambda>(key, vec).
     (if v_Deleted vec then None
      else if flt \<noteq> None \<and> \<not> MatchVector d flt vec then None
      else Some \<lparr>dr_id = v_ID vec, dr_vector = key, dr_distance = li_distanceFunc idx queryCopy (v_Values vec)\<rparr>))"

text \<open>One turn of the collecting loop.\<close>

definition li_collect :: "float32_ops \<Rightarrow> LinearIndex \<Rightarrow> float32 \<Rightarrow> distanceResult \<Rightarrow> SearchResult option" where
  "li_collect fo idx scoreThreshold res =
     (let score = NormalizeScore fo (dr_distance res) (li_metric idx) in
      if f_less fo 0 scoreThreshold \<and> f_less fo score scoreThreshold then None
      else Some \<lparr>sr_ID = dr_id res, sr_Distance = dr_distance res, sr_Vector = Some (dr_vector res), sr_Score = score\<rparr>)"

definition closer :: "float32_ops \<Rightarrow> DistanceMetric \<Rightarrow> SearchResult \<Rightarrow> SearchResult \<Rightarrow> bool" where
  "closer fo metric a b =
     (if IsHigherBetter metric then f_less fo (sr_Distance b) (sr_Distance a) else f_less fo (sr_Distance a) (sr_Distance b))"

definition li_Search ::
    "float32_ops \<Rightarrow> float64_ops \<Rightarrow> (distanceResult list \<Rightarrow> distanceResult list)
      \<Rightarrow> ((SearchResult \<Rightarrow> SearchResult \<Rightarrow> bool) \<Rightarrow> SearchResult list \<Rightarrow> SearchResult list)
      \<Rightarrow> LinearIndex \<Rightarrow> float32 list \<Rightarrow> int \<Rightarrow> MetadataFilter option \<Rightarrow> SearchParams option \<Rightarrow> vec_error + SearchResult list" where
  "li_Search fo d arrival srt idx query k flt params =
     (if int (length query) \<noteq> li_dimension idx then Inl (BadDimension (int (length query)) (li_dimension idx))
      else
        let queryCopy = (if li_keepNormalized idx then NormalizeVector fo query else query);
            k1 = (if k \<le> 0 then 10 else k);
            k2 = (if k1 > int (length (li_vectors idx)) then int (length (li_vectors idx)) else k1);
            scoreThreshold = (case params of
                Some p \<Rightarrow> if f_less fo 0 (sp_ScoreThreshold p) then sp_ScoreThreshold p else f32_minus_one
              | None \<Rightarrow> f32_minus_one);
            found = arrival (List.map_filter (li_worker d idx queryCopy flt) (li_vectors idx));
            results = List.map_filter (li_collect fo idx scoreThreshold) found;
            sorted_results = srt (closer fo (li_metric idx)) results
        in Inr (if int (length sorted_results) > k2 then take (nat k2) sorted_results else sorted_results))"

definition li_Delete :: "int \<Rightarrow> LinearIndex \<Rightarrow> string \<Rightarrow> vec_error + LinearIndex" where
  "li_Delete now idx i =
     (case map_of (li_vectors idx) i of
        Some vec \<Rightarrow> Inr (idx\<lparr>li_vectors := AList.update i (MarkDeleted now vec) (li_vectors idx)\<rparr>)
      | None \<Rightarrow> Inl (VectorNotFound i))"

text \<open>\<open>BatchInsert\<close> stops at the first error and keeps what it has inserted.\<close>

fun li_BatchInsert :: "float32_ops \<Rightarrow> LinearIndex \<Rightarrow> Vector list \<Rightarrow> LinearIndex \<times> vec_error option" where
  "li_BatchInsert fo idx [] = (idx, None)"
| "li_BatchInsert fo idx (v # vs) =
     (case li_Insert fo idx v of Inl e \<Rightarrow> (idx, Some e) | Inr idx' \<Rightarrow> li_BatchInsert fo idx' vs)"

definition li_Size :: "LinearIndex \<Rightarrow> int" where
  "li_Size idx = fold (\<lambda>(key, vec) count. if \<not> v_Deleted vec then count + 1 else count) (li_vectors idx) 0"

section \<open>What the index holds\<close>

text \<open>The abstract view of an index: the vectors that are not deleted, by identifier.\<close>

definition live :: "LinearIndex \<Rightarrow> string \<Rightarrow> Vector option" where
  "live idx i = (case map_of (li_vectors idx) i of Some v \<Rightarrow> if v_Deleted v then None else Some v | None \<Rightarrow> None)"

definition index_ok :: "LinearIndex \<Rightarrow> bool" where
  "index_ok idx \<longleftrightarrow> gomap_ok (li_vectors idx) \<and>
     (\<forall>i v. map_of (li_vectors idx) i = Some v \<longrightarrow> v_ID v = i \<and> int (length (v_Values v)) = li_dimension idx)"

text \<open>What \<open>Insert\<close> stores of a vector.\<close>

definition stored_of :: "float32_ops \<Rightarrow> LinearIndex \<Rightarrow> Vector \<Rightarrow> Vector" where
  "stored_of fo idx v = (if li_keepNormalized idx then vec_Normalize fo (vec_Copy v) else vec_Copy v)"

lemma vec_Copy_fields [simp]:
  "v_ID (vec_Copy v) = v_ID v" "v_Values (vec_Copy v) = v_Values v" "v_Deleted (vec_Copy v) = v_Deleted v"
  by (simp_all add: vec_Copy_def)

lemma stored_of_fields [simp]:
  "v_ID (stored_of fo idx v) = v_ID v" "length (v_Values (stored_of fo idx v)) = length (v_Values v)"
  "v_Deleted (stored_of fo idx v) = v_Deleted v"
  by (simp_all add: stored_of_def vec_Normalize_def Let_def)

lemma index_ok_update:
  "index_ok idx \<Longrightarrow> v_ID v = i \<Longrightarrow> int (length (v_Values v)) = li_dimension idx \<Longrightarrow>
    index_ok (idx\<lparr>li_vectors := AList.update i v (li_vectors idx)\<rparr>)"
  by (simp add: index_ok_def update_conv')

lemma index_ok_lookup: "index_ok idx \<Longrightarrow> map_of (li_vectors idx) i = Some v \<Longrightarrow> v_ID v = i \<and> int (length (v_Values v)) = li_dimension idx"
  by (simp add: index_ok_def)

lemma size_live:
  assumes "index_ok idx"
  shows "li_Size idx = int (card (dom (live idx)))"
proof -
  have fold: "fold (\<lambda>(key, vec) count. if \<not> v_Deleted vec then count + 1 else count) m n =
      n + int (length (filter (\<lambda>(key, vec). \<not> v_Deleted vec) m))" for m :: "(string, Vector) gomap" and n :: int
    by (induction m arbitrary: n) auto
  let ?f = "filter (\<lambda>(key, vec). \<not> v_Deleted vec) (li_vectors idx)"
  have dist: "distinct (map fst (li_vectors idx))" using assms by (simp add: index_ok_def gomap_ok_def)
  have "live idx i = Some v \<longleftrightarrow> map_of (li_vectors idx) i = Some v \<and> \<not> v_Deleted v" for i v
    by (cases "map_of (li_vectors idx) i") (auto simp: live_def)
  then have "live idx i = Some v \<longleftrightarrow> (i, v) \<in> set ?f" for i v using dist by simp
  then have "dom (live idx) = fst ` set ?f" unfolding dom_def by force
  moreover have "card (fst ` set ?f) = length ?f"
    using distinct_card[OF distinct_map_filter[OF dist, of "\<lambda>(key, vec). \<not> v_Deleted vec"]] by simp
  ultimately show ?thesis by (simp add: li_Size_def fold)
qed

lemma Insert_ok:
  assumes "index_ok idx"
  shows "li_Insert fo idx v =
      (if int (length (v_Values v)) = li_dimension idx
       then Inr (idx\<lparr>li_vectors := AList.update (v_ID v) (stored_of fo idx v) (li_vectors idx)\<rparr>)
       else Inl (BadDimension (int (length (v_Values v))) (li_dimension idx)))"
    "li_Insert fo idx v = Inr idx' \<Longrightarrow> index_ok idx'"
    "li_Insert fo idx v = Inr idx' \<Longrightarrow>
      live idx' = (live idx)(v_ID v := if v_Deleted v then None else Some (stored_of fo idx v))"
proof -
  show eq: "li_Insert fo idx v =
      (if int (length (v_Values v)) = li_dimension idx
       then Inr (idx\<lparr>li_vectors := AList.update (v_ID v) (stored_of fo idx v) (li_vectors idx)\<rparr>)
       else Inl (BadDimension (int (length (v_Values v))) (li_dimension idx)))"
    by (simp add: li_Insert_def stored_of_def Let_def)
  show "index_ok idx'" if "li_Insert fo idx v = Inr idx'"
    using that eq index_ok_update[OF assms, of "stored_of fo idx v" "v_ID v"] by (auto split: if_splits)
  show "live idx' = (live idx)(v_ID v := if v_Deleted v then None else Some (stored_of fo idx v))"
    if "li_Insert fo idx v = Inr idx'"
    using that eq by (auto simp: live_def fun_eq_iff update_conv' split: if_splits)
qed

lemma Delete_ok:
  assumes "index_ok idx"
  shows "li_Delete now idx i = Inr idx' \<Longrightarrow> index_ok idx' \<and> live idx' = (live idx)(i := None)"
    "(\<exists>e. li_Delete now idx i = Inl e) \<longleftrightarrow> i \<notin> fst ` set (li_vectors idx)"
proof -
  show "index_ok idx' \<and> live idx' = (live idx)(i := None)" if del: "li_Delete now idx i = Inr idx'"
  proof -
    from del obtain vec where vec: "map_of (li_vectors idx) i = Some vec"
      and idx': "idx' = idx\<lparr>li_vectors := AList.update i (MarkDeleted now vec) (li_vectors idx)\<rparr>"
      by (auto simp: li_Delete_def split: option.splits)
    show ?thesis
      using index_ok_update[OF assms, of "MarkDeleted now vec" i] index_ok_lookup[OF assms vec]
      by (simp add: idx' live_def fun_eq_iff update_conv' MarkDeleted_def)
  qed
  show "(\<exists>e. li_Delete now idx i = Inl e) \<longleftrightarrow> i \<notin> fst ` set (li_vectors idx)"
    by (simp add: li_Delete_def map_of_eq_None_iff[symmetric] split: option.splits)
qed

end
