(* ===== verification/Vector_Collection.thy ===== *)
theory Vector_Collection
  imports Linear_Index
begin

text \<open>
  \<open>src/src/models/vector_collection.go\<close>: collections of vectors with several indexes. The interface
  \<open>VectorIndex\<close> is a record of methods over a type of indexes; the locale \<open>vector_index\<close> states what a collection
  relies on, and the linear index is shown to provide it.
\<close>

section \<open>Collections\<close>

record 'i VectorIndex =
  vi_Insert :: "'i \<Rightarrow> Vector \<Rightarrow> vec_error + 'i"
  vi_Search :: "'i \<Rightarrow> float32 list \<Rightarrow> int \<Rightarrow> MetadataFilter option \<Rightarrow> SearchParams option \<Rightarrow> vec_error + SearchResult list"
  vi_Delete :: "'i \<Rightarrow> string \<Rightarrow> vec_error + 'i"
  vi_BatchInsert :: "'i \<Rightarrow> Vector list \<Rightarrow> 'i \<times> vec_error option"
  vi_Size :: "'i \<Rightarrow> int"
  vi_Dimension :: "'i \<Rightarrow> int"

record 'i VectorCollection =
  vc_Name :: string
  vc_Dimension :: int
  vc_DistanceFunc :: DistanceMetric
  vc_Indexes :: "(string, 'i) gomap"
  vc_MetadataSchema :: "MetadataSchema option"
  vc_CreatedAt :: int
  vc_UpdatedAt :: int

definition NewVectorCollection :: "int \<Rightarrow> string \<Rightarrow> int \<Rightarrow> DistanceMetric \<Rightarrow> 'i VectorCollection" where
  "NewVectorCollection now name dimension metric =
     \<lparr>vc_Name = name, vc_Dimension = dimension, vc_DistanceFunc = metric, vc_Indexes = [],
      vc_MetadataSchema = Some NewMetadataSchema, vc_CreatedAt = now, vc_UpdatedAt = now\<rparr>"

definition AddIndex ::
    "'i VectorIndex \<Rightarrow> int \<Rightarrow> 'i VectorCollection \<Rightarrow> string \<Rightarrow> 'i \<Rightarrow> vec_error + 'i VectorCollection" where
  "AddIndex vi now c name index =
     (if vi_Dimension vi index \<noteq> vc_Dimension c then Inl (BadDimension (vi_Dimension vi index) (vc_Dimension c))
      else Inr (c\<lparr>vc_Indexes := AList.update name index (vc_Indexes c), vc_UpdatedAt := now\<rparr>))"

text \<open>The checks of \<open>Insert\<close> and \<open>BatchInsert\<close>; a \<open>nil\<close> map has no fields.\<close>

definition check_vector :: "'i VectorCollection \<Rightarrow> Vector \<Rightarrow> vec_error option" where
  "check_vector c v =
     (if int (length (v_Values v)) \<noteq> vc_Dimension c
      then Some (BadDimension (int (length (v_Values v))) (vc_Dimension c))
      else case vc_MetadataSchema c of
        None \<Rightarrow> None
      | Some schema \<Rightarrow>
          if length schema > 0
          then map_option (\<lambda>(name, t, t'). BadMetadata name t t')
            (ValidateMetadata schema (case v_Metadata v of Some m \<Rightarrow> m | None \<Rightarrow> []))
          else None)"

text \<open>Ranging over the indexes: the first error ends the loop, the indexes before it have changed.\<close>

fun each_index :: "('i \<Rightarrow> 'i \<times> vec_error option) \<Rightarrow> (string, 'i) gomap \<Rightarrow> (string, 'i) gomap \<times> vec_error option" where
  "each_index f [] = ([], None)"
| "each_index f ((name, index) # m) =
     (case f index of
        (index', Some e) \<Rightarrow> ((name, index') # m, Some (InIndex name e))
      | (index', None) \<Rightarrow> (case each_index f m of (m', err) \<Rightarrow> ((name, index') # m', err)))"

definition keep_on_error :: "'i \<Rightarrow> vec_error + 'i \<Rightarrow> 'i \<times> vec_error option" where
  "keep_on_error index r = (case r of Inl e \<Rightarrow> (index, Some e) | Inr index' \<Rightarrow> (index', None))"

definition finish :: "int \<Rightarrow> 'i VectorCollection \<Rightarrow> (string, 'i) gomap \<times> vec_error option \<Rightarrow> 'i VectorCollection \<times> vec_error option" where
  "finish now c r =
     (case r of
        (m, Some e) \<Rightarrow> (c\<lparr>vc_Indexes := m\<rparr>, Some e)
      | (m, None) \<Rightarrow> (c\<lparr>vc_Indexes := m, vc_UpdatedAt := now\<rparr>, None))"

definition vc_Insert ::
    "'i VectorIndex \<Rightarrow> int \<Rightarrow> 'i VectorCollection \<Rightarrow> Vector \<Rightarrow> 'i VectorCollection \<times> vec_error option" where
  "vc_Insert vi now c v =
     (case check_vector c v of
        Some e \<Rightarrow> (c, Some e)
      | None \<Rightarrow> finish now c (each_index (\<lambda>index. keep_on_error index (vi_Insert vi index v)) (vc_Indexes c)))"

fun check_vectors :: "'i VectorCollection \<Rightarrow> nat \<Rightarrow> Vector list \<Rightarrow> vec_error option" where
  "check_vectors c i [] = None"
| "check_vectors c i (v # vs) =
     (case check_vector c v of Some e \<Rightarrow> Some (InVector i e) | None \<Rightarrow> check_vectors c (Suc i) vs)"

definition vc_BatchInsert ::
    "'i VectorIndex \<Rightarrow> int \<Rightarrow> 'i VectorCollection \<Rightarrow> Vector list \<Rightarrow> 'i VectorCollection \<times> vec_error option" where
  "vc_BatchInsert vi now c vs =
     (case check_vectors c 0 vs of
        Some e \<Rightarrow> (c, Some e)
      | None \<Rightarrow> finish now c (each_index (\<lambda>index. vi_BatchInsert vi index vs) (vc_Indexes c)))"

definition vc_Delete ::
    "'i VectorIndex \<Rightarrow> int \<Rightarrow> 'i VectorCollection \<Rightarrow> string \<Rightarrow> 'i VectorCollection \<times> vec_error option" where
  "vc_Delete vi now c i =
     finish now c (each_index (\<lambda>index. keep_on_error index (vi_Delete vi index i)) (vc_Indexes c))"

definition vc_Search ::
    "'i VectorIndex \<Rightarrow> 'i VectorCollection \<Rightarrow> float32 list \<Rightarrow> int \<Rightarrow> MetadataFilter option \<Rightarrow> SearchParams option
      \<Rightarrow> vec_error + SearchResult list" where
  "vc_Search vi c query k flt params =
     (if int (length query) \<noteq> vc_Dimension c then Inl (BadDimension (int (length query)) (vc_Dimension c))
      else
        let params1 = (case params of None \<Rightarrow> Some NewSearchParams | Some p \<Rightarrow> Some p) in
        case vc_Indexes c of
          [] \<Rightarrow> Inl (NoIndexes (vc_Name c))
        | (name, index) # _ \<Rightarrow> vi_Search vi index query k flt params1)"

definition vc_Size :: "'i VectorIndex \<Rightarrow> 'i VectorCollection \<Rightarrow> int" where
  "vc_Size vi c = (case vc_Indexes c of [] \<Rightarrow> 0 | (name, index) # _ \<Rightarrow> vi_Size vi index)"

section \<open>The contract of an index\<close>

definition collection_ok :: "'i VectorIndex \<Rightarrow> ('i \<Rightarrow> bool) \<Rightarrow> 'i VectorCollection \<Rightarrow> bool" where
  "collection_ok vi ok c \<longleftrightarrow> gomap_ok (vc_Indexes c) \<and>
     (\<forall>(name, x) \<in> set (vc_Indexes c). ok x \<and> vi_Dimension vi x = vc_Dimension c)"

definition put :: "('i \<Rightarrow> Vector \<Rightarrow> Vector option) \<Rightarrow> 'i \<Rightarrow> Vector \<Rightarrow> (string \<Rightarrow> Vector option) \<Rightarrow> string \<Rightarrow> Vector option" where
  "put kp x v f = f(v_ID v := kp x v)"

text \<open>An index promises, as long as its invariant \<open>ok\<close> holds: it accepts exactly the vectors of its
  dimension, and \<open>lv\<close>, what it holds, changes at the identifier of the vector only.\<close>

locale vector_index =
  fixes vi :: "'i VectorIndex" and ok :: "'i \<Rightarrow> bool" and lv :: "'i \<Rightarrow> string \<Rightarrow> Vector option"
    and keep :: "'i \<Rightarrow> Vector \<Rightarrow> Vector option"
  assumes insert_accepts: "ok x \<Longrightarrow> int (length (v_Values v)) = vi_Dimension vi x \<Longrightarrow>
      \<exists>x'. vi_Insert vi x v = Inr x' \<and> ok x' \<and> vi_Dimension vi x' = vi_Dimension vi x \<and>
        lv x' = (lv x)(v_ID v := keep x v) \<and> keep x' = keep x"
    and batch_inserts: "vi_BatchInsert vi x [] = (x, None)"
      "vi_BatchInsert vi x (v # vs) =
        (case vi_Insert vi x v of Inl e \<Rightarrow> (x, Some e) | Inr x' \<Rightarrow> vi_BatchInsert vi x' vs)"
    and delete_removes: "ok x \<Longrightarrow> vi_Delete vi x i = Inr x' \<Longrightarrow>
      ok x' \<and> vi_Dimension vi x' = vi_Dimension vi x \<and> lv x' = (lv x)(i := None) \<and> keep x' = keep x"
    and size_counts: "ok x \<Longrightarrow> vi_Size vi x = int (card (dom (lv x)))"
begin

lemma batch_accepts:
  assumes "ok x" "\<forall>v \<in> set vs. int (length (v_Values v)) = vi_Dimension vi x"
  shows "\<exists>x'. vi_BatchInsert vi x vs = (x', None) \<and> ok x' \<and> vi_Dimension vi x' = vi_Dimension vi x \<and>
    lv x' = fold (put keep x) vs (lv x) \<and> keep x' = keep x"
  using assms
proof (induction vs arbitrary: x)
  case (Cons v vs)
  then obtain x1 where x1: "vi_Insert vi x v = Inr x1" "ok x1" "vi_Dimension vi x1 = vi_Dimension vi x"
      "lv x1 = (lv x)(v_ID v := keep x v)" "keep x1 = keep x"
    using insert_accepts[of x v] by auto
  moreover have "put keep x1 = put keep x" using x1(5) by (auto simp: put_def fun_eq_iff)
  ultimately show ?case using Cons.IH[of x1] Cons.prems by (auto simp: batch_inserts put_def)
qed (auto simp: batch_inserts)

lemma each_index_succeeds:
  assumes "\<And>name x. (name, x) \<in> set m \<Longrightarrow> \<exists>x'. f x = (x', None) \<and> P x x'"
  shows "\<exists>m'. each_index f m = (m', None) \<and> list_all2 (\<lambda>(n, x) (n', x'). n = n' \<and> P x x') m m'"
  using assms
proof (induction m)
  case (Cons p m)
  obtain name x where p: "p = (name, x)" by fastforce
  from Cons.prems[of name x] p obtain x' where "f x = (x', None)" "P x x'" by auto
  moreover obtain m' where "each_index f m = (m', None)" "list_all2 (\<lambda>(n, x) (n', x'). n = n' \<and> P x x') m m'"
    using Cons.IH Cons.prems by auto
  ultimately show ?case by (auto simp: p)
qed simp

lemma same_names: "list_all2 (\<lambda>(n, x) (n', x'). n = n' \<and> P x x') m m' \<Longrightarrow> map fst m = map fst m'"
  by (induction rule: list_all2_induct) auto

lemma list_all2_right: "list_all2 (\<lambda>(n, x) (n', x'). n = n' \<and> P x x') m m' \<Longrightarrow> (n, x') \<in> set m' \<Longrightarrow> \<exists>x. (n, x) \<in> set m \<and> P x x'"
  by (induction rule: list_all2_induct) auto

text \<open>A collection whose indexes keep the contract accepts a batch as a whole or not at all.\<close>

lemma batch_all_or_nothing:
  assumes "collection_ok vi ok c"
  shows "case check_vectors c 0 vs of
      Some e \<Rightarrow> vc_BatchInsert vi now c vs = (c, Some e)
    | None \<Rightarrow> \<exists>c'. vc_BatchInsert vi now c vs = (c', None) \<and> collection_ok vi ok c' \<and>
        list_all2 (\<lambda>(n, x) (n', x'). n = n' \<and> lv x' = fold (put keep x) vs (lv x)) (vc_Indexes c) (vc_Indexes c')"
proof (cases "check_vectors c 0 vs")
  case None
  have "check_vectors c i vs = None \<Longrightarrow> v \<in> set vs \<Longrightarrow> int (length (v_Values v)) = vc_Dimension c" for i v
    by (induction vs arbitrary: i) (auto simp: check_vector_def split: option.splits if_splits)
  with None have dims: "\<forall>v \<in> set vs. int (length (v_Values v)) = vc_Dimension c" by blast
  let ?P = "\<lambda>x x'. ok x' \<and> vi_Dimension vi x' = vi_Dimension vi x \<and> lv x' = fold (put keep x) vs (lv x)"
  have "\<exists>x'. vi_BatchInsert vi x vs = (x', None) \<and> ?P x x'" if "(name, x) \<in> set (vc_Indexes c)" for name x
  proof -
    from that assms have "ok x" "vi_Dimension vi x = vc_Dimension c" by (auto simp: collection_ok_def)
    with dims batch_accepts[of x vs] show ?thesis by auto
  qed
  then have "\<exists>m'. each_index (\<lambda>index. vi_BatchInsert vi index vs) (vc_Indexes c) = (m', None) \<and>
      list_all2 (\<lambda>(n, x) (n', x'). n = n' \<and> ?P x x') (vc_Indexes c) m'"
    by (rule each_index_succeeds)
  then obtain m' where m': "each_index (\<lambda>index. vi_BatchInsert vi index vs) (vc_Indexes c) = (m', None)"
    "list_all2 (\<lambda>(n, x) (n', x'). n = n' \<and> ?P x x') (vc_Indexes c) m'" by blast
  let ?c = "c\<lparr>vc_Indexes := m', vc_UpdatedAt := now\<rparr>"
  have "vc_BatchInsert vi now c vs = (?c, None)" using None m'(1) by (simp add: vc_BatchInsert_def finish_def)
  moreover have "collection_ok vi ok ?c"
    using assms same_names[OF m'(2)] list_all2_right[OF m'(2)] by (fastforce simp: collection_ok_def gomap_ok_def)
  moreover have "list_all2 (\<lambda>(n, x) (n', x'). n = n' \<and> lv x' = fold (put keep x) vs (lv x)) (vc_Indexes c) m'"
    using m'(2) by (rule list_all2_mono) auto
  ultimately show ?thesis using None by auto
qed (simp add: vc_BatchInsert_def)

end

section \<open>The linear index keeps the contract\<close>

definition linear_methods ::
    "float32_ops \<Rightarrow> float64_ops \<Rightarrow> (distanceResult list \<Rightarrow> distanceResult list)
      \<Rightarrow> ((SearchResult \<Rightarrow> SearchResult \<Rightarrow> bool) \<Rightarrow> SearchResult list \<Rightarrow> SearchResult list) \<Rightarrow> int \<Rightarrow> LinearIndex VectorIndex" where
  "linear_methods fo d arrival srt now =
     \<lparr>vi_Insert = li_Insert fo, vi_Search = li_Search fo d arrival srt, vi_Delete = li_Delete now,
      vi_BatchInsert = li_BatchInsert fo, vi_Size = li_Size, vi_Dimension = li_dimension\<rparr>"

definition kept :: "float32_ops \<Rightarrow> LinearIndex \<Rightarrow> Vector \<Rightarrow> Vector option" where
  "kept fo idx v = (if v_Deleted v then None else Some (stored_of fo idx v))"

interpretation linear: vector_index "linear_methods fo d arrival srt now" index_ok live "kept fo"
  for fo d arrival srt now
proof
  fix x x' :: LinearIndex and v :: Vector and i
  show "\<exists>x'. vi_Insert (linear_methods fo d arrival srt now) x v = Inr x' \<and> index_ok x' \<and>
      vi_Dimension (linear_methods fo d arrival srt now) x' = vi_Dimension (linear_methods fo d arrival srt now) x \<and>
      live x' = (live x)(v_ID v := kept fo x v) \<and> kept fo x' = kept fo x"
    if "index_ok x" "int (length (v_Values v)) = vi_Dimension (linear_methods fo d arrival srt now) x"
    using that Insert_ok[OF that(1), of fo v]
    by (auto simp: linear_methods_def kept_def stored_of_def fun_eq_iff)
  show "index_ok x' \<and> vi_Dimension (linear_methods fo d arrival srt now) x' = vi_Dimension (linear_methods fo d arrival srt now) x \<and>
      live x' = (live x)(i := None) \<and> kept fo x' = kept fo x"
    if "index_ok x" "vi_Delete (linear_methods fo d arrival srt now) x i = Inr x'"
    using that Delete_ok(1)[OF that(1), of now i x']
    by (auto simp: linear_methods_def kept_def stored_of_def fun_eq_iff li_Delete_def split: option.splits)
qed (simp_all add: linear_methods_def size_live cong: sum.case_cong)

end
