(* ===== verification/Query_Processor.thy ===== *)
theory Query_Processor
  imports Vector_Collection
begin

text \<open>
  \<open>src/src/vector/query/processor.go\<close> and the request types of \<open>vector_collection.go\<close>: queries to a collection of
  linear indexes. Post-processing writes through the references of the results into the index, so
  a query returns the collection as it leaves it.
\<close>

section \<open>Requests\<close>

record RecommendParams =
  rp_Positive :: "string list"
  rp_Negative :: "string list"
  rp_Strategy :: string

record ScrollParams =
  scp_Offset :: string
  scp_Limit :: int

record QueryRequest =
  rq_Vector :: "float32 list option"
  rq_PointID :: string
  rq_Recommend :: "RecommendParams option"
  rq_Scroll :: "ScrollParams option"
  rq_Sample :: string
  rq_Filter :: "MetadataFilter option"
  rq_Params :: "SearchParams option"
  rq_Limit :: int
  rq_Offset :: int
  rq_WithVectors :: bool
  rq_WithPayload :: GoVal
  rq_GroupBy :: string
  rq_GroupSize :: int
  rq_GroupLimit :: int
  rq_Using :: string

datatype query_error =
    NilRequest
  | NoQueryType
  | MultipleQueryTypes
  | QueryDimension int int
  | SearchFailed vec_error
  | NotImplemented string

text \<open>\<open>VectorCollection.Query\<close>.\<close>

definition vc_Query :: "'i VectorIndex \<Rightarrow> 'i VectorCollection \<Rightarrow> QueryRequest \<Rightarrow> vec_error + SearchResult list" where
  "vc_Query vi c rq =
     (case rq_Vector rq of
        Some query \<Rightarrow> vc_Search vi c query (rq_Limit rq) (rq_Filter rq) (rq_Params rq)
      | None \<Rightarrow> Inl UnsupportedQuery)"

section \<open>Processing\<close>

text \<open>\<open>validateRequest\<close>: the error and the request with its defaults filled in.\<close>

definition validateRequest :: "'i VectorCollection \<Rightarrow> QueryRequest option \<Rightarrow> query_error + QueryRequest" where
  "validateRequest c request =
     (case request of
        None \<Rightarrow> Inl NilRequest
      | Some rq0 \<Rightarrow>
          let rq = (if rq_Limit rq0 \<le> 0 then rq0\<lparr>rq_Limit := 10\<rparr> else rq0);
              queryTypes = (if rq_Vector rq \<noteq> None then 1 else 0) + (if rq_PointID rq \<noteq> '''' then 1 else 0) +
                (if rq_Recommend rq \<noteq> None then 1 else 0) + (if rq_Scroll rq \<noteq> None then 1 else 0) +
                (if rq_Sample rq \<noteq> '''' then 1 else (0 :: nat))
          in if queryTypes = 0 then Inl NoQueryType
             else if queryTypes > 1 then Inl MultipleQueryTypes
             else if (case rq_Vector rq of Some q \<Rightarrow> int (length q) \<noteq> vc_Dimension c | None \<Rightarrow> False)
             then Inl (QueryDimension (int (length (the (rq_Vector rq)))) (vc_Dimension c))
             else Inr (if rq_GroupBy rq \<noteq> '''' \<and> (rq_GroupSize rq \<le> 0 \<or> rq_GroupLimit rq \<le> 0)
                       then rq\<lparr>rq_GroupSize := 1, rq_GroupLimit := rq_Limit rq\<rparr> else rq))"

definition adjustSearchParams :: "SearchParams \<Rightarrow> SearchParams" where
  "adjustSearchParams params =
     (case sp_SearchStrategy params of
        ExactSearch \<Rightarrow> params\<lparr>sp_Exact := True, sp_HnswEf := 0\<rparr>
      | FastSearch \<Rightarrow>
          let p = params\<lparr>sp_Exact := False\<rparr> in if sp_HnswEf p = 0 then p\<lparr>sp_HnswEf := 40\<rparr> else p
      | PreciseSearch \<Rightarrow>
          let p = params\<lparr>sp_Exact := False\<rparr> in if sp_HnswEf p = 0 then p\<lparr>sp_HnswEf := 300\<rparr> else p
      | BatchSearch \<Rightarrow> params
      | _ \<Rightarrow>
          let p = params\<lparr>sp_Exact := False\<rparr> in if sp_HnswEf p = 0 then p\<lparr>sp_HnswEf := 100\<rparr> else p)"

fun isWithPayload :: "GoVal \<Rightarrow> bool" where
  "isWithPayload VNil = False"
| "isWithPayload (VBool b) = b"
| "isWithPayload (VString s) = True"
| "isWithPayload (VStrings ss) = (length ss > 0)"
| "isWithPayload (VMap m) = True"
| "isWithPayload _ = False"

text \<open>\<open>results[i].Vector.Metadata = nil\<close> for a result of the index.\<close>

definition erase_metadata :: "SearchResult \<Rightarrow> (string, Vector) gomap \<Rightarrow> (string, Vector) gomap" where
  "erase_metadata r vectors =
     (case sr_Vector r of
        None \<Rightarrow> vectors
      | Some key \<Rightarrow>
          (case map_of vectors key of
             Some vec \<Rightarrow> AList.update key (vec\<lparr>v_Metadata := None\<rparr>) vectors
           | None \<Rightarrow> vectors))"

definition postProcessResults ::
    "float32_ops \<Rightarrow> LinearIndex \<Rightarrow> SearchResult list \<Rightarrow> QueryRequest \<Rightarrow> LinearIndex \<times> SearchResult list" where
  "postProcessResults fo idx results rq =
     (let results1 = (if rq_Offset rq > 0 \<and> rq_Offset rq < int (length results)
                      then drop (nat (rq_Offset rq)) results else results);
          results2 = (case rq_Params rq of
              Some p \<Rightarrow>
                if f_less fo 0 (sp_ScoreThreshold p)
                then filter (\<lambda>r. f_less fo (sp_ScoreThreshold p) (sr_Score r) \<or> f_eq fo (sp_ScoreThreshold p) (sr_Score r)) results1
                else results1
            | None \<Rightarrow> results1);
          results3 = (if \<not> rq_WithVectors rq then map (\<lambda>r. r\<lparr>sr_Vector := None\<rparr>) results2 else results2);
          idx1 = (if \<not> isWithPayload (rq_WithPayload rq)
                  then idx\<lparr>li_vectors := fold erase_metadata results3 (li_vectors idx)\<rparr> else idx)
      in (idx1, results3))"

definition processVectorSearch ::
    "float32_ops \<Rightarrow> LinearIndex VectorIndex \<Rightarrow> LinearIndex VectorCollection \<Rightarrow> QueryRequest
      \<Rightarrow> LinearIndex VectorCollection \<times> (query_error + SearchResult list)" where
  "processVectorSearch fo vi c rq0 =
     (let rq = rq0\<lparr>rq_Params := map_option adjustSearchParams (rq_Params rq0)\<rparr> in
      case vc_Search vi c (the (rq_Vector rq)) (rq_Limit rq) (rq_Filter rq) (rq_Params rq) of
        Inl e \<Rightarrow> (c, Inl (SearchFailed e))
      | Inr results \<Rightarrow>
          if rq_GroupBy rq \<noteq> '''' then (c, Inl (NotImplemented ''grouping''))
          else case vc_Indexes c of
            [] \<Rightarrow> (c, Inr results)
          | (name, idx) # m \<Rightarrow>
              (case postProcessResults fo idx results rq of
                 (idx1, results1) \<Rightarrow> (c\<lparr>vc_Indexes := (name, idx1) # m\<rparr>, Inr results1)))"

definition ProcessQuery ::
    "float32_ops \<Rightarrow> LinearIndex VectorIndex \<Rightarrow> LinearIndex VectorCollection \<Rightarrow> QueryRequest option
      \<Rightarrow> LinearIndex VectorCollection \<times> (query_error + SearchResult list)" where
  "ProcessQuery fo vi c request =
     (case validateRequest c request of
        Inl e \<Rightarrow> (c, Inl e)
      | Inr rq0 \<Rightarrow>
          let rq = (if rq_Params rq0 = None
                    then rq0\<lparr>rq_Params := Some (NewSearchParams\<lparr>sp_SearchStrategy := DefaultSearch, sp_HnswEf := 100\<rparr>)\<rparr>
                    else rq0)
          in if rq_Vector rq \<noteq> None then processVectorSearch fo vi c rq
             else if rq_PointID rq \<noteq> '''' then (c, Inl (NotImplemented ''search by point ID''))
             else if rq_Recommend rq \<noteq> None then (c, Inl (NotImplemented ''recommendation search''))
             else if rq_Scroll rq \<noteq> None then (c, Inl (NotImplemented ''scroll''))
             else if rq_Sample rq \<noteq> '''' then (c, Inl (NotImplemented ''random sampling''))
             else (c, Inl NoQueryType))"

end
