(* ===== verification/Metadata_Properties.thy ===== *)
theory Metadata_Properties
  imports Metadata_Filter
begin

text \<open>
  Properties of schemas and filters: what validation accepts, how comparisons behave, how filters compose,
  and that values of different types count as equal in comparisons.
\<close>

section \<open>Validation\<close>

lemma ValidateMetadata_None_iff:
  "ValidateMetadata schema metadata = None \<longleftrightarrow>
    (\<forall>name t v. (name, t) \<in> set schema \<longrightarrow> map_of metadata name = Some v \<longrightarrow> detectFieldType v = t)"
  by (induction schema metadata rule: ValidateMetadata.induct) (auto split: option.splits, blast)

lemma ValidateMetadata_Some:
  "ValidateMetadata schema metadata = Some (name, t, t') \<Longrightarrow>
    (name, t) \<in> set schema \<and> (\<exists>v. map_of metadata name = Some v \<and> detectFieldType v = t') \<and> t \<noteq> t'"
  by (induction schema metadata rule: ValidateMetadata.induct) (auto split: option.splits if_splits)


definition demo_schema :: MetadataSchema where
  "demo_schema = AddField (AddField NewMetadataSchema ''age'' NumberField) ''name'' StringField"


section \<open>Comparison\<close>

lemma three_way_antisym: "(\<And>x y. lt x y \<Longrightarrow> \<not> lt y x) \<Longrightarrow> three_way lt x y = - three_way lt y x"
  by (simp add: three_way_def)

text \<open>Comparing values the other way round gives the opposite result, for all types and mixtures of
  types, if only no two floating-point numbers are less than each other.\<close>

lemma compareValues_antisym:
  assumes "\<forall>x y. d_less d x y \<longrightarrow> \<not> d_less d y x"
  shows "compareValues d v1 v2 = - compareValues d v2 v1"
proof -
  have d: "three_way (d_less d) x y = - three_way (d_less d) y x" for x y
    using three_way_antisym[of "d_less d"] assms by blast
  have i: "three_way (<) x y = - three_way (<) y x" for x y :: int by (rule three_way_antisym) simp
  have s: "three_way (<) x y = - three_way (<) y x" for x y :: string by (rule three_way_antisym) simp
  show ?thesis by (cases v1; cases v2; simp add: compareValues_def; rule d i s)
qed

text \<open>Floating-point numbers compared as the unsigned numbers of their bit patterns, right for
  non-negative numbers.\<close>

definition bits_ops :: float64_ops where
  "bits_ops = \<lparr>d_less = (<), d_eq = (=), d_of_int = word_of_int, d_eq32 = (=)\<rparr>"

section \<open>Filters\<close>

lemma match_all_iff: "match_all d metadata cs \<longleftrightarrow> (\<forall>c \<in> set cs. matchCondition d metadata c)"
  by (induction cs) auto

lemma match_any_iff: "match_any d metadata cs \<longleftrightarrow> (\<exists>c \<in> set cs. matchCondition d metadata c)"
  by (induction cs) auto

text \<open>A range condition is the conjunction of its bounds: it holds exactly when the conditions \<open>gte\<close> and
  \<open>lte\<close> with the bounds hold, on every metadata and for every field path.\<close>

lemma range_is_bounds:
  "matchCondition d metadata (NewRangeCondition field lo hi) \<longleftrightarrow>
    matchCondition d metadata \<lparr>fc_Field = field, fc_Operator = ''gte'', fc_Value = lo\<rparr> \<and>
    matchCondition d metadata \<lparr>fc_Field = field, fc_Operator = ''lte'', fc_Value = hi\<rparr>"
  by (auto simp: matchCondition_def NewRangeCondition_def match_range_def Let_def)


definition demo_tagged :: Vector where
  "demo_tagged = NewVector 0 ''v'' [] (Some [(''age'', VInt 20), (''tag'', VString ''red'')])"


text \<open>A value of another type passes every inclusive bound: a text in a numeric field, whatever it is,
  is found by a range condition on the field with any bounds, because values that cannot be compared count
  as equal.\<close>

lemma text_in_every_range:
  "MatchVector d (Some (NewAndFilter [NewRangeCondition ''age'' (VInt lo) (VInt hi)]))
     (NewVector now i values (Some [(''age'', VString s)]))"
  by (simp add: MatchVector_def NewAndFilter_def NewVector_def matchCondition_def NewRangeCondition_def
      match_range_def compareValues_def mget_def)

end
