(* ===== verification/Go_Sort.thy ===== *)
theory Go_Sort
  imports Go_Prelude
begin

text \<open>
  Go's \<open>sort\<close> package: its order of equal elements is not fixed, so a sorting function is a parameter of the definitions
  that sort. Here is its contract, and insertion sort as a function that fulfils it.
\<close>

section \<open>The contract\<close>

definition strict_weak_on :: "'a set \<Rightarrow> ('a \<Rightarrow> 'a \<Rightarrow> bool) \<Rightarrow> bool" where
  "strict_weak_on A lt \<longleftrightarrow> (\<forall>x \<in> A. \<not> lt x x) \<and> (\<forall>x \<in> A. \<forall>y \<in> A. \<forall>z \<in> A. lt x y \<longrightarrow> lt y z \<longrightarrow> lt x z) \<and>
     (\<forall>x \<in> A. \<forall>y \<in> A. \<forall>z \<in> A. \<not> lt x y \<longrightarrow> \<not> lt y z \<longrightarrow> \<not> lt x z)"

text \<open>What \<open>sort.Slice\<close> promises: with a strict weak order the result is a permutation in which no
  element comes before a smaller one.\<close>

definition sort_slice_ok :: "(('a \<Rightarrow> 'a \<Rightarrow> bool) \<Rightarrow> 'a list \<Rightarrow> 'a list) \<Rightarrow> bool" where
  "sort_slice_ok srt \<longleftrightarrow>
     (\<forall>lt xs. mset (srt lt xs) = mset xs \<and> (strict_weak_on (set xs) lt \<longrightarrow> sorted_wrt (\<lambda>x y. \<not> lt y x) (srt lt xs)))"

section \<open>Insertion sort\<close>

fun insert_by :: "('a \<Rightarrow> 'a \<Rightarrow> bool) \<Rightarrow> 'a \<Rightarrow> 'a list \<Rightarrow> 'a list" where
  "insert_by lt x [] = [x]"
| "insert_by lt x (y # ys) = (if lt y x then y # insert_by lt x ys else x # y # ys)"

definition sort_slice :: "('a \<Rightarrow> 'a \<Rightarrow> bool) \<Rightarrow> 'a list \<Rightarrow> 'a list" where
  "sort_slice lt xs = foldr (insert_by lt) xs []"

lemma mset_insert_by [simp]: "mset (insert_by lt x ys) = add_mset x (mset ys)"
  by (induction ys) auto

lemma set_insert_by [simp]: "set (insert_by lt x ys) = insert x (set ys)"
  by (induction ys) auto

lemma strict_weak_onD:
  assumes "strict_weak_on A lt"
  shows "x \<in> A \<Longrightarrow> y \<in> A \<Longrightarrow> lt x y \<Longrightarrow> \<not> lt y x"
    "x \<in> A \<Longrightarrow> y \<in> A \<Longrightarrow> z \<in> A \<Longrightarrow> \<not> lt x y \<Longrightarrow> \<not> lt y z \<Longrightarrow> \<not> lt x z"
    "B \<subseteq> A \<Longrightarrow> strict_weak_on B lt"
  using assms unfolding strict_weak_on_def by blast+

lemma sorted_insert_by:
  "strict_weak_on (insert x (set ys)) lt \<Longrightarrow> sorted_wrt (\<lambda>x y. \<not> lt y x) ys \<Longrightarrow> sorted_wrt (\<lambda>x y. \<not> lt y x) (insert_by lt x ys)"
proof (induction ys)
  case (Cons y ys)
  note weak = strict_weak_onD[OF Cons.prems(1)]
  have "strict_weak_on (insert x (set ys)) lt" by (rule weak(3)) auto
  then have IH: "sorted_wrt (\<lambda>x y. \<not> lt y x) (insert_by lt x ys)" using Cons by simp
  show ?case
  proof (cases "lt y x")
    case True
    then have "\<not> lt x y" by (intro weak(1)) auto
    then show ?thesis using True IH Cons.prems(2) by simp
  next
    case False
    have "\<not> lt z x" if "z \<in> set ys" for z
      using that False Cons.prems(2) by (intro weak(2)[of z y x]) auto
    then show ?thesis using False Cons.prems(2) by simp
  qed
qed simp

lemma sort_slice_sorts: "sort_slice_ok (sort_slice :: ('a \<Rightarrow> 'a \<Rightarrow> bool) \<Rightarrow> _)"
proof -
  have perm: "mset (sort_slice lt xs) = mset xs" for lt :: "'a \<Rightarrow> 'a \<Rightarrow> bool" and xs
    by (induction xs) (auto simp: sort_slice_def)
  have "strict_weak_on (set xs) lt \<Longrightarrow> sorted_wrt (\<lambda>x y. \<not> lt y x) (sort_slice lt xs)" for lt :: "'a \<Rightarrow> 'a \<Rightarrow> bool" and xs
  proof (induction xs)
    case (Cons x xs)
    have s: "set (sort_slice lt xs) = set xs" using perm by (rule mset_eq_setD)
    have "strict_weak_on (set xs) lt" by (rule strict_weak_onD(3)[OF Cons.prems]) auto
    from sorted_insert_by[of x "sort_slice lt xs" lt] Cons.IH[OF this] Cons.prems show ?case
      unfolding s by (simp add: sort_slice_def)
  qed (simp add: sort_slice_def)
  with perm show ?thesis by (simp add: sort_slice_ok_def)
qed

end
