(* ===== verification/Search_Properties.thy ===== *)
theory Search_Properties
  imports Query_Processor Metadata_Properties Go_Sort
begin

text \<open>
  Properties of the vector store: a linear search returns the nearest matching vectors, an index is
  a map from identifiers to vectors, a batch enters all indexes of a collection or none, and what
  a query does to the vectors it returns.
\<close>

section \<open>Nearest neighbours\<close>

text \<open>The results a search can return, in no particular order: for every vector that is not deleted, passes the filter and
  reaches the score threshold.\<close>

definition score_ok :: "float32_ops \<Rightarrow> SearchParams option \<Rightarrow> float32 \<Rightarrow> bool" where
  "score_ok fo params score \<longleftrightarrow>
     (case params of Some p \<Rightarrow> f_less fo 0 (sp_ScoreThreshold p) \<longrightarrow> \<not> f_less fo score (sp_ScoreThreshold p) | None \<Rightarrow> True)"

definition matching ::
    "float32_ops \<Rightarrow> float64_ops \<Rightarrow> LinearIndex \<Rightarrow> float32 list \<Rightarrow> MetadataFilter option \<Rightarrow> SearchParams option \<Rightarrow> SearchResult list" where
  "matching fo d idx query flt params =
     (let q = (if li_keepNormalized idx then NormalizeVector fo query else query);
          dist = (\<lambda>v. li_distanceFunc idx q (v_Values v));
          score = (\<lambda>v. NormalizeScore fo (dist v) (li_metric idx))
      in map (\<lambda>(key, v). \<lparr>sr_ID = v_ID v, sr_Distance = dist v, sr_Vector = Some key, sr_Score = score v\<rparr>)
           (filter (\<lambda>(key, v). \<not> v_Deleted v \<and> MatchVector d flt v \<and> score_ok fo params (score v)) (li_vectors idx)))"

lemma mset_map_filter: "mset (List.map_filter f xs) = image_mset (the \<circ> f) (filter_mset (\<lambda>x. f x \<noteq> None) (mset xs))"
  by (induction xs) (auto simp: map_filter_simps)

lemma map_filter_perm: "mset xs = mset ys \<Longrightarrow> mset (List.map_filter f xs) = mset (List.map_filter f ys)"
  by (simp add: mset_map_filter)

lemma map_filter_if: "(\<And>x. f x = (if P x then Some (g x) else None)) \<Longrightarrow> List.map_filter f xs = map g (filter P xs)"
  by (induction xs) (simp_all add: map_filter_simps)

definition threshold :: "float32_ops \<Rightarrow> SearchParams option \<Rightarrow> float32" where
  "threshold fo params = (case params of
       Some p \<Rightarrow> if f_less fo 0 (sp_ScoreThreshold p) then sp_ScoreThreshold p else f32_minus_one
     | None \<Rightarrow> f32_minus_one)"

lemma worker_eq: "li_worker d idx q flt x =
    (if \<not> v_Deleted (snd x) \<and> MatchVector d flt (snd x)
     then Some \<lparr>dr_id = v_ID (snd x), dr_vector = fst x, dr_distance = li_distanceFunc idx q (v_Values (snd x))\<rparr> else None)"
  by (cases x) (auto simp: li_worker_def MatchVector_def)

lemma collect_eq:
  assumes "\<not> f_less fo 0 f32_minus_one"
  shows "li_collect fo idx (threshold fo params) res =
    (if score_ok fo params (NormalizeScore fo (dr_distance res) (li_metric idx))
     then Some \<lparr>sr_ID = dr_id res, sr_Distance = dr_distance res, sr_Vector = Some (dr_vector res),
       sr_Score = NormalizeScore fo (dr_distance res) (li_metric idx)\<rparr> else None)"
  using assms by (auto simp: li_collect_def threshold_def score_ok_def Let_def split: option.splits)

lemma found_matching:
  assumes "\<not> f_less fo 0 f32_minus_one"
  shows "List.map_filter (li_collect fo idx (threshold fo params))
      (List.map_filter (li_worker d idx (if li_keepNormalized idx then NormalizeVector fo query else query) flt) (li_vectors idx)) =
    matching fo d idx query flt params"
  unfolding map_filter_if[OF worker_eq] map_filter_if[OF collect_eq[OF assms]] filter_map matching_def Let_def
  by (simp add: o_def case_prod_unfold conj_ac)

lemma sorted_take_drop:
  "sorted_wrt R xs \<Longrightarrow> x \<in> set (take n xs) \<Longrightarrow> y \<in> set (drop n xs) \<Longrightarrow> R x y"
  by (metis append_take_drop_id sorted_wrt_append)


text \<open>An index of two points in the plane, with the Manhattan distance.\<close>

definition near :: Vector where "near = NewVector 0 ''near'' [1, 2] (Some [(''tag'', VString ''a'')])"
definition far :: Vector where "far = NewVector 0 ''far'' [5, 9] (Some [(''tag'', VString ''a'')])"

definition demo_index :: LinearIndex where
  "demo_index = \<lparr>li_dimension = 2, li_distanceFunc = ManhattanDistance fixed_ops, li_metric = Manhattan,
     li_vectors = [(''far'', far), (''near'', near)], li_keepNormalized = False\<rparr>"

lemma fixed_ops_weak: "strict_weak_on A (closer fixed_ops metric)"
  by (auto simp: strict_weak_on_def closer_def fixed_ops_def)


section \<open>Indexes and collections\<close>


lemma demo_index_ok: "index_ok demo_index"
  by (auto simp: index_ok_def demo_index_def gomap_ok_def near_def far_def NewVector_def split: if_splits)


text \<open>C33. A batch enters a collection as a whole or not at all: if a vector of the batch has the wrong
  dimension or metadata, nothing changes and its error is returned; otherwise no index fails,
  every index holds the vectors of the batch as if inserted one by one, and the collection stays well formed. This
  rests on the contract of the indexes, which linear indexes keep.\<close>

theorem BatchInsert_all_or_nothing:
  assumes "vi = linear_methods fo d arrival srt now" "collection_ok vi index_ok c"
  shows "case check_vectors c 0 vs of
      Some e \<Rightarrow> vc_BatchInsert vi now c vs = (c, Some e)
    | None \<Rightarrow> \<exists>c'. vc_BatchInsert vi now c vs = (c', None) \<and> collection_ok vi index_ok c' \<and>
        list_all2 (\<lambda>(n, x) (n', x'). n = n' \<and> live x' = fold (put (kept fo) x) vs (live x)) (vc_Indexes c) (vc_Indexes c')"
  unfolding assms(1) by (rule linear.batch_all_or_nothing) (use assms in simp)

definition demo_collection :: "LinearIndex VectorCollection" where
  "demo_collection = (NewVectorCollection 0 ''points'' 2 Manhattan)\<lparr>vc_Indexes := [(''main'', demo_index)]\<rparr>"

theorem BatchInsert_all_or_nothing_witness:
  "\<exists>c'. vc_BatchInsert (linear_methods fixed_ops bits_ops rev sort_slice 9) 9 demo_collection [near] = (c', None)"
proof -
  let ?vi = "linear_methods fixed_ops bits_ops rev sort_slice 9"
  have "collection_ok ?vi index_ok demo_collection"
    using demo_index_ok by (simp add: collection_ok_def demo_collection_def gomap_ok_def linear_methods_def demo_index_def NewVectorCollection_def)
  moreover have "check_vectors demo_collection 0 [near] = None"
    by (simp add: check_vector_def demo_collection_def NewVectorCollection_def NewMetadataSchema_def near_def NewVector_def)
  ultimately show ?thesis using BatchInsert_all_or_nothing[OF refl, of fixed_ops bits_ops rev sort_slice 9 demo_collection "[near]"] by auto
qed

section \<open>Queries\<close>

lemma map_of_erase:
  "map_of (erase_metadata r vectors) i = (if sr_Vector r = Some i then map_option (\<lambda>v. v\<lparr>v_Metadata := None\<rparr>) (map_of vectors i) else map_of vectors i)"
  by (auto simp: erase_metadata_def update_conv' split: option.splits)

lemma map_of_erase_all:
  "map_of (fold erase_metadata rs vectors) i =
    (if Some i \<in> sr_Vector ` set rs then map_option (\<lambda>v. v\<lparr>v_Metadata := None\<rparr>) (map_of vectors i) else map_of vectors i)"
  by (induction rs arbitrary: vectors) (auto simp: map_of_erase option.map_comp o_def)

lemma ProcessQuery_post:
  assumes "ProcessQuery fo vi c (Some rq) = (c', Inr rs)" "vc_Indexes c = (name, idx) # m"
  shows "\<exists>results rq' idx'. postProcessResults fo idx results rq' = (idx', rs) \<and> c' = c\<lparr>vc_Indexes := (name, idx') # m\<rparr> \<and>
    rq_WithVectors rq' = rq_WithVectors rq \<and> rq_WithPayload rq' = rq_WithPayload rq"
proof -
  have valid: "validateRequest c (Some rq) = Inr rq0 \<Longrightarrow>
      rq_WithVectors rq0 = rq_WithVectors rq \<and> rq_WithPayload rq0 = rq_WithPayload rq" for rq0
    by (auto simp: validateRequest_def Let_def split: if_splits)
  have search: "processVectorSearch fo vi c rq1 = (c', Inr rs) \<Longrightarrow>
      \<exists>results rq' idx'. postProcessResults fo idx results rq' = (idx', rs) \<and> c' = c\<lparr>vc_Indexes := (name, idx') # m\<rparr> \<and>
        rq_WithVectors rq' = rq_WithVectors rq1 \<and> rq_WithPayload rq' = rq_WithPayload rq1" for rq1
    using assms(2)
    by (fastforce simp: processVectorSearch_def Let_def split: sum.splits if_splits prod.splits)
  from assms(1) obtain rq0 where rq0: "validateRequest c (Some rq) = Inr rq0"
    by (auto simp: ProcessQuery_def split: sum.splits)
  let ?rq1 = "if rq_Params rq0 = None
    then rq0\<lparr>rq_Params := Some (NewSearchParams\<lparr>sp_SearchStrategy := DefaultSearch, sp_HnswEf := 100\<rparr>)\<rparr> else rq0"
  have "processVectorSearch fo vi c ?rq1 = (c', Inr rs)"
    using assms(1) rq0 by (auto simp: ProcessQuery_def Let_def split: if_splits)
  from search[OF this] valid[OF rq0] show ?thesis by (auto split: if_splits)
qed

text \<open>C34. A query destroys the metadata it does not return: after a query with vectors but without payload every
  returned vector has lost its metadata in the index itself, so no later filter with
  conditions finds it.\<close>

theorem query_erases_metadata:
  assumes "ProcessQuery fo vi c (Some rq) = (c', Inr rs)" "rq_WithVectors rq" "\<not> isWithPayload (rq_WithPayload rq)"
    and "vc_Indexes c = (name, idx) # m" "r \<in> set rs" "sr_Vector r = Some i" "map_of (li_vectors idx) i = Some v"
    and "mf_Conditions f \<noteq> []"
  shows "\<exists>idx' v'. vc_Indexes c' = (name, idx') # m \<and> map_of (li_vectors idx') i = Some v' \<and> v_Metadata v' = None \<and>
    \<not> MatchVector d (Some f) v'"
proof -
  from ProcessQuery_post[OF assms(1,4)] obtain results rq' idx' where
    post: "postProcessResults fo idx results rq' = (idx', rs)" "c' = c\<lparr>vc_Indexes := (name, idx') # m\<rparr>"
    and rq': "rq_WithVectors rq' = rq_WithVectors rq" "rq_WithPayload rq' = rq_WithPayload rq" by blast
  have "li_vectors idx' = fold erase_metadata rs (li_vectors idx)"
    using post(1) rq' assms(2,3) by (auto simp: postProcessResults_def Let_def)
  moreover have "Some i \<in> sr_Vector ` set rs" using assms(5,6) by (metis image_eqI)
  ultimately have "map_of (li_vectors idx') i = Some (v\<lparr>v_Metadata := None\<rparr>)" by (simp add: map_of_erase_all assms(7))
  then show ?thesis using assms(8) by (simp add: post(2) MatchVector_def)
qed

definition demo_query :: QueryRequest where
  "demo_query = \<lparr>rq_Vector = Some [1, 1], rq_PointID = [], rq_Recommend = None, rq_Scroll = None, rq_Sample = [],
     rq_Filter = None, rq_Params = None, rq_Limit = 1, rq_Offset = 0, rq_WithVectors = True, rq_WithPayload = VNil,
     rq_GroupBy = [], rq_GroupSize = 0, rq_GroupLimit = 0, rq_Using = []\<rparr>"

text \<open>The demonstration query returns the near point, which the filter on its tag does not find afterwards.\<close>

theorem query_erases_metadata_witness:
  "\<exists>c' rs idx' v'. ProcessQuery fixed_ops (linear_methods fixed_ops bits_ops rev sort_slice 9) demo_collection (Some demo_query) = (c', Inr rs) \<and>
     vc_Indexes c' = [(''main'', idx')] \<and> map_of (li_vectors idx') ''near'' = Some v' \<and>
     \<not> MatchVector bits_ops (Some (NewAndFilter [NewEqualsCondition ''tag'' (VString ''a'')])) v'"
proof -
  let ?vi = "linear_methods fixed_ops bits_ops rev sort_slice 9"
  obtain c' r where q: "ProcessQuery fixed_ops ?vi demo_collection (Some demo_query) = (c', Inr [r])" and r: "sr_Vector r = Some ''near''"
    by (simp add: ProcessQuery_def validateRequest_def demo_query_def demo_collection_def NewVectorCollection_def Let_def
        processVectorSearch_def vc_Search_def linear_methods_def li_Search_def demo_index_def near_def far_def NewVector_def
        map_filter_simps li_worker_def li_collect_def fixed_ops_def ManhattanDistance_def MatchVector_def sort_slice_def closer_def
        NewSearchParams_def adjustSearchParams_def postProcessResults_def)
  have "vc_Indexes demo_collection = [(''main'', demo_index)]" by (simp add: demo_collection_def)
  moreover have "map_of (li_vectors demo_index) ''near'' = Some near" by (simp add: demo_index_def)
  ultimately show ?thesis
    using query_erases_metadata[OF q, of "''main''" demo_index "[]" r "''near''" near
        "NewAndFilter [NewEqualsCondition ''tag'' (VString ''a'')]" bits_ops] q r
    by (auto simp: demo_query_def NewAndFilter_def)
qed

text \<open>An offset at or beyond the number of results is ignored: the page after the last one is the first.\<close>

lemma offset_beyond_results:
  "int (length results) \<le> rq_Offset rq \<Longrightarrow>
    postProcessResults fo idx results rq = postProcessResults fo idx results (rq\<lparr>rq_Offset := 0\<rparr>)"
  by (simp add: postProcessResults_def Let_def)

end
