(* ===== verification/Porcupine_Bitset.thy ===== *)
theory Porcupine_Bitset
  imports Go_Prelude "HOL-Library.Word"
begin

text \<open>
  \<open>src/src/porcupine/bitset.go\<close>: sets of small numbers as slices of 64-bit words, proved to be sets: the
  operations of the file are insertion, removal, membership, size and equality.
\<close>

unbundle bit_operations_syntax

section \<open>Operations\<close>

type_synonym bitset = "64 word list"

definition newBitset :: "nat \<Rightarrow> bitset" where
  "newBitset bits = replicate (bits div 64 + (if bits mod 64 \<noteq> 0 then 1 else 0)) 0"

definition bs_clone :: "bitset \<Rightarrow> bitset" where
  "bs_clone b = map id b"

definition bitsetIndex :: "nat \<Rightarrow> nat \<times> nat" where
  "bitsetIndex pos = (pos div 64, pos mod 64)"

definition bs_set :: "bitset \<Rightarrow> nat \<Rightarrow> bitset option" where
  "bs_set b pos =
     (let (major, minor) = bitsetIndex pos in
      do { w \<leftarrow> go_nth b (int major); go_set b (int major) (w OR push_bit minor 1) })"

definition bs_clear :: "bitset \<Rightarrow> nat \<Rightarrow> bitset option" where
  "bs_clear b pos =
     (let (major, minor) = bitsetIndex pos in
      do { w \<leftarrow> go_nth b (int major); go_set b (int major) (w AND NOT (push_bit minor 1)) })"

definition bs_get :: "bitset \<Rightarrow> nat \<Rightarrow> bool option" where
  "bs_get b pos =
     (let (major, minor) = bitsetIndex pos in
      do { w \<leftarrow> go_nth b (int major); Some (w AND push_bit minor 1 \<noteq> 0) })"

definition OnesCount64 :: "64 word \<Rightarrow> nat" where
  "OnesCount64 w = length (filter (bit w) [0..<64])"

definition bs_popcnt :: "bitset \<Rightarrow> nat" where
  "bs_popcnt b = fold (\<lambda>v total. total + OnesCount64 v) b 0"

definition bs_hash :: "bitset \<Rightarrow> 64 word" where
  "bs_hash b = fold (\<lambda>v hash. hash XOR v) b (of_nat (bs_popcnt b))"

fun bs_equals_loop :: "bitset \<Rightarrow> bitset \<Rightarrow> bool" where
  "bs_equals_loop (v # b) (v2 # b2) = (if v \<noteq> v2 then False else bs_equals_loop b b2)"
| "bs_equals_loop _ _ = True"

definition bs_equals :: "bitset \<Rightarrow> bitset \<Rightarrow> bool" where
  "bs_equals b b2 = (if length b \<noteq> length b2 then False else bs_equals_loop b b2)"

section \<open>Bitsets are sets\<close>

definition elems :: "bitset \<Rightarrow> nat set" where
  "elems b = {pos. pos < 64 * length b \<and> bit (b ! (pos div 64)) (pos mod 64)}"

lemma div64_less: "pos < 64 * n \<longleftrightarrow> pos div 64 < (n :: nat)"
  by (simp add: div_less_iff_less_mult mult.commute)

lemma elems_new [simp]: "elems (newBitset n) = {}"
  by (auto simp: elems_def newBitset_def div64_less)

lemma new_capacity:
  assumes "pos < n"
  shows "pos < 64 * length (newBitset n)"
proof -
  have "n = 64 * (n div 64) + n mod 64" "n mod 64 < 64" by simp_all
  then have "n \<le> 64 * (n div 64 + (if n mod 64 \<noteq> 0 then 1 else 0))" unfolding distrib_left by (cases "n mod 64 = 0") auto
  with assms show ?thesis unfolding newBitset_def length_replicate by (rule less_le_trans)
qed

lemma elems_update:
  assumes "major < length b"
  shows "pos \<in> elems (b[major := w]) \<longleftrightarrow> (if pos div 64 = major then bit w (pos mod 64) else pos \<in> elems b)"
  using assms by (auto simp: elems_def div64_less nth_list_update)

lemma same_pos: "pos div 64 = q div 64 \<Longrightarrow> pos mod 64 = q mod 64 \<longleftrightarrow> pos = (q :: nat)"
  by (metis div_mod_decomp)

lemma bs_set_elems:
  assumes "pos < 64 * length b"
  shows "\<exists>b'. bs_set b pos = Some b' \<and> length b' = length b \<and> elems b' = insert pos (elems b)"
proof -
  have m: "pos div 64 < length b" using assms by (simp add: div64_less)
  let ?b = "b[pos div 64 := b ! (pos div 64) OR push_bit (pos mod 64) 1]"
  have "q \<in> elems ?b \<longleftrightarrow> q = pos \<or> q \<in> elems b" for q
    using m same_pos[of q pos] by (auto simp: elems_update bit_simps) (auto simp: elems_def div64_less)
  then show ?thesis using m by (auto simp: bs_set_def bitsetIndex_def go_nth_def go_set_def)
qed

lemma bs_clear_elems:
  assumes "pos < 64 * length b"
  shows "\<exists>b'. bs_clear b pos = Some b' \<and> length b' = length b \<and> elems b' = elems b - {pos}"
proof -
  have m: "pos div 64 < length b" using assms by (simp add: div64_less)
  let ?b = "b[pos div 64 := b ! (pos div 64) AND NOT (push_bit (pos mod 64) 1)]"
  have "q \<in> elems ?b \<longleftrightarrow> q \<noteq> pos \<and> q \<in> elems b" for q
    using m same_pos[of q pos] by (auto simp: elems_update bit_simps) (auto simp: elems_def div64_less)
  then show ?thesis using m by (auto simp: bs_clear_def bitsetIndex_def go_nth_def go_set_def)
qed

lemma bs_get_elems:
  assumes "pos < 64 * length b"
  shows "bs_get b pos = Some (pos \<in> elems b)"
proof -
  show ?thesis using assms
    by (simp add: bs_get_def bitsetIndex_def go_nth_def elems_def div64_less bit_iff_and_push_bit_not_eq_0)
qed

lemma bs_elems_inj:
  assumes "length b = length b2"
  shows "elems b = elems b2 \<longleftrightarrow> b = b2"
proof
  assume el: "elems b = elems b2"
  show "b = b2"
  proof (rule nth_equalityI)
    fix i assume i: "i < length b"
    show "b ! i = b2 ! i"
    proof (rule bit_word_eqI)
      fix n assume n: "n < LENGTH(64)"
      have "64 * i + n \<in> elems b \<longleftrightarrow> 64 * i + n \<in> elems b2" using el by simp
      with i n assms show "bit (b ! i) n = bit (b2 ! i) n" by (simp add: elems_def div64_less)
    qed
  qed (fact assms)
qed simp

lemma bs_equals_iff:
  assumes "length b = length b2"
  shows "bs_equals b b2 \<longleftrightarrow> elems b = elems b2"
proof -
  have "bs_equals_loop b b2 \<longleftrightarrow> b = b2" using assms by (induction b b2 rule: list_induct2) auto
  then show ?thesis using assms bs_elems_inj[OF assms] by (simp add: bs_equals_def)
qed

lemma elems_Cons: "elems (w # b) = {pos. pos < 64 \<and> bit w pos} \<union> (\<lambda>pos. pos + 64) ` elems b"
proof (intro set_eqI)
  fix pos
  have "pos \<in> elems (w # b) \<longleftrightarrow> pos - 64 \<in> elems b" if "64 \<le> pos"
    using that by (auto simp: elems_def le_div_geq le_mod_geq)
  moreover have "pos \<in> (\<lambda>pos. pos + 64) ` elems b \<longleftrightarrow> 64 \<le> pos \<and> pos - 64 \<in> elems b"
    by (auto intro!: image_eqI[of _ _ "pos - 64"])
  ultimately show "pos \<in> elems (w # b) \<longleftrightarrow> pos \<in> {pos. pos < 64 \<and> bit w pos} \<union> (\<lambda>pos. pos + 64) ` elems b"
    by (cases "pos < 64") (auto simp: elems_def)
qed

lemma finite_elems [simp]: "finite (elems b)"
  by (rule finite_subset[of _ "{..<64 * length b}"]) (auto simp: elems_def)

lemma bs_popcnt_card: "bs_popcnt b = card (elems b)"
proof -
  have "card (elems (w # b)) = OnesCount64 w + card (elems b)" for w b
  proof -
    have "OnesCount64 w = card {pos. pos < 64 \<and> bit w pos}"
      using distinct_card[of "filter (bit w) [0..<64]"] by (simp add: OnesCount64_def conj_commute)
    moreover have "card ((\<lambda>pos. pos + 64) ` elems b) = card (elems b)" by (rule card_image) (simp add: inj_on_def)
    moreover have "{pos. pos < 64 \<and> bit w pos} \<inter> (\<lambda>pos. pos + 64) ` elems b = {}" by auto
    ultimately show ?thesis by (simp add: elems_Cons card_Un_disjoint)
  qed
  then have "fold (\<lambda>v total. total + OnesCount64 v) b n = n + card (elems b)" for n
    by (induction b arbitrary: n) (simp_all add: elems_def[of "[]"])
  then show ?thesis by (simp add: bs_popcnt_def)
qed

text \<open>A bitset is a set: within the capacity that \<open>newBitset\<close> allots no operation panics, \<open>set\<close> inserts,
  \<open>clear\<close> removes, \<open>get\<close> tests membership, \<open>popcnt\<close> counts, a new bitset is empty, and two
  bitsets of the same capacity are equal, and then have the same hash, exactly if they hold the same numbers.\<close>

lemma bitset_is_set:
  "elems (newBitset n) = {} \<and> (\<forall>pos b. length b = length (newBitset n) \<longrightarrow> pos < n \<longrightarrow>
     (\<exists>b'. bs_set b pos = Some b' \<and> length b' = length b \<and> elems b' = insert pos (elems b)) \<and>
     (\<exists>b'. bs_clear b pos = Some b' \<and> length b' = length b \<and> elems b' = elems b - {pos}) \<and>
     bs_get b pos = Some (pos \<in> elems b) \<and> bs_popcnt b = card (elems b)) \<and>
   (\<forall>b b2. length b = length b2 \<longrightarrow> (bs_equals b b2 \<longleftrightarrow> elems b = elems b2) \<and> (bs_equals b b2 \<longrightarrow> bs_hash b = bs_hash b2))"
proof -
  have "bs_hash b = bs_hash b2" if "length b = length b2" "bs_equals b b2" for b b2
  proof -
    have "bs_equals_loop b b2 \<longleftrightarrow> b = b2" using that(1) by (induction b b2 rule: list_induct2) auto
    then show ?thesis using that by (simp add: bs_equals_def)
  qed
  moreover have "(\<exists>b'. bs_set b pos = Some b' \<and> length b' = length b \<and> elems b' = insert pos (elems b)) \<and>
     (\<exists>b'. bs_clear b pos = Some b' \<and> length b' = length b \<and> elems b' = elems b - {pos}) \<and>
     bs_get b pos = Some (pos \<in> elems b) \<and> bs_popcnt b = card (elems b)"
    if "length b = length (newBitset n)" "pos < n" for pos b
  proof -
    have "pos < 64 * length b" using new_capacity[OF that(2)] that(1) by simp
    from bs_set_elems[OF this] bs_clear_elems[OF this] bs_get_elems[OF this] bs_popcnt_card show ?thesis by blast
  qed
  ultimately show ?thesis using bs_equals_iff elems_new by blast
qed

end
