(* ===== verification/Porcupine_Checker.thy ===== *)
theory Porcupine_Checker
  imports Porcupine_Bitset
begin

text \<open>
  \<open>src/src/porcupine/model.go\<close> and \<open>checker.go\<close>: histories and the search for a linearization. The search removes
  and restores the nodes of a doubly linked list; the list is a heap of nodes whose addresses are
  positions, and a \<open>nil\<close> dereference is a panic. The value that the search reads from the flag
  \<open>kill\<close> in each round is a parameter. \<open>sort.Sort\<close> is a parameter too, as its order of equal elements is not fixed.
\<close>

section \<open>Histories\<close>

record ('i, 'o) Operation =
  op_ClientId :: int
  op_Input :: 'i
  op_Call :: int
  op_Output :: 'o
  op_Return :: int

text \<open>The kind of an event or entry and its value: a call has an input, a return an output.\<close>

datatype ('i, 'o) payload = CallOf 'i | ReturnOf 'o

fun is_call :: "('i, 'o) payload \<Rightarrow> bool" where
  "is_call (CallOf _) = True"
| "is_call (ReturnOf _) = False"

record ('i, 'o) Event =
  ev_ClientId :: int
  ev_Value :: "('i, 'o) payload"
  ev_Id :: int

record ('s, 'i, 'o) Model =
  m_Partition :: "('i, 'o) Operation list \<Rightarrow> ('i, 'o) Operation list list"
  m_PartitionEvent :: "('i, 'o) Event list \<Rightarrow> ('i, 'o) Event list list"
  m_Init :: 's
  m_Step :: "'s \<Rightarrow> 'i \<Rightarrow> 'o \<Rightarrow> bool \<times> 's"
  m_Equal :: "'s \<Rightarrow> 's \<Rightarrow> bool"

definition NoPartition :: "('i, 'o) Operation list \<Rightarrow> ('i, 'o) Operation list list" where
  "NoPartition history = [history]"

definition NoPartitionEvent :: "('i, 'o) Event list \<Rightarrow> ('i, 'o) Event list list" where
  "NoPartitionEvent history = [history]"

definition ShallowEqual :: "'s \<Rightarrow> 's \<Rightarrow> bool" where
  "ShallowEqual state1 state2 = (state1 = state2)"

datatype CheckResult = Unknown | Ok | Illegal

record ('i, 'o) entry =
  en_value :: "('i, 'o) payload"
  en_id :: int
  en_time :: int
  en_clientId :: int

definition byTime_Less :: "('i, 'o) entry \<Rightarrow> ('i, 'o) entry \<Rightarrow> bool" where
  "byTime_Less a b =
     (if en_time a \<noteq> en_time b then en_time a < en_time b else is_call (en_value a) \<and> \<not> is_call (en_value b))"

fun op_entries :: "int \<Rightarrow> ('i, 'o) Operation list \<Rightarrow> ('i, 'o) entry list" where
  "op_entries i [] = []"
| "op_entries i (elem # history) =
     \<lparr>en_value = CallOf (op_Input elem), en_id = i, en_time = op_Call elem, en_clientId = op_ClientId elem\<rparr> #
     \<lparr>en_value = ReturnOf (op_Output elem), en_id = i, en_time = op_Return elem, en_clientId = op_ClientId elem\<rparr> #
     op_entries (i + 1) history"

definition makeEntries ::
    "((('i, 'o) entry \<Rightarrow> ('i, 'o) entry \<Rightarrow> bool) \<Rightarrow> ('i, 'o) entry list \<Rightarrow> ('i, 'o) entry list)
      \<Rightarrow> ('i, 'o) Operation list \<Rightarrow> ('i, 'o) entry list" where
  "makeEntries srt history = srt byTime_Less (op_entries 0 history)"

fun renumber_loop :: "(int \<Rightarrow> int option) \<Rightarrow> int \<Rightarrow> ('i, 'o) Event list \<Rightarrow> ('i, 'o) Event list" where
  "renumber_loop m i [] = []"
| "renumber_loop m i (v # events) =
     (case m (ev_Id v) of
        Some r \<Rightarrow> v\<lparr>ev_Id := r\<rparr> # renumber_loop m i events
      | None \<Rightarrow> v\<lparr>ev_Id := i\<rparr> # renumber_loop (m(ev_Id v \<mapsto> i)) (i + 1) events)"

definition renumber :: "('i, 'o) Event list \<Rightarrow> ('i, 'o) Event list" where
  "renumber events = renumber_loop (\<lambda>_. None) 0 events"

fun convertEntries_loop :: "int \<Rightarrow> ('i, 'o) Event list \<Rightarrow> ('i, 'o) entry list" where
  "convertEntries_loop i [] = []"
| "convertEntries_loop i (elem # events) =
     \<lparr>en_value = ev_Value elem, en_id = ev_Id elem, en_time = i, en_clientId = ev_ClientId elem\<rparr> #
     convertEntries_loop (i + 1) events"

definition convertEntries :: "('i, 'o) Event list \<Rightarrow> ('i, 'o) entry list" where
  "convertEntries events = convertEntries_loop 0 events"

section \<open>The linked list\<close>

record ('i, 'o) node =
  nd_value :: "('i, 'o) payload option"
  nd_match :: "nat option"
  nd_id :: int
  nd_next :: "nat option"
  nd_prev :: "nat option"

type_synonym ('i, 'o) heap = "('i, 'o) node list"

definition deref :: "('i, 'o) heap \<Rightarrow> nat option \<Rightarrow> ('i, 'o) node option" where
  "deref h p = (case p of Some a \<Rightarrow> if a < length h then Some (h ! a) else None | None \<Rightarrow> None)"

definition store_next :: "('i, 'o) heap \<Rightarrow> nat option \<Rightarrow> nat option \<Rightarrow> ('i, 'o) heap option" where
  "store_next h p q = do { n \<leftarrow> deref h p; Some (h[the p := n\<lparr>nd_next := q\<rparr>]) }"

definition store_prev :: "('i, 'o) heap \<Rightarrow> nat option \<Rightarrow> nat option \<Rightarrow> ('i, 'o) heap option" where
  "store_prev h p q = do { n \<leftarrow> deref h p; Some (h[the p := n\<lparr>nd_prev := q\<rparr>]) }"

definition insertBefore :: "('i, 'o) heap \<Rightarrow> nat \<Rightarrow> nat option \<Rightarrow> ('i, 'o) heap option" where
  "insertBefore h n mark =
     (if mark \<noteq> None then
        do { mk \<leftarrow> deref h mark;
             (let beforeMark = nd_prev mk in
              do { h1 \<leftarrow> store_prev h mark (Some n);
                   h2 \<leftarrow> store_next h1 (Some n) mark;
                   (if beforeMark \<noteq> None
                    then do { h3 \<leftarrow> store_prev h2 (Some n) beforeMark; store_next h3 beforeMark (Some n) }
                    else Some h2) }) }
      else Some h)"

partial_function (option) list_length :: "('i, 'o) heap \<Rightarrow> nat option \<Rightarrow> nat option" where
  "list_length h n =
     (case n of
        None \<Rightarrow> Some 0
      | Some a \<Rightarrow> do { nd \<leftarrow> deref h (Some a); l \<leftarrow> list_length h (nd_next nd); Some (l + 1) })"

declare list_length.simps [code]

text \<open>The loop of \<open>makeLinkedEntries\<close> from the last entry to the first: the heap, the root and the
  returns seen, by identifier.\<close>

fun link_loop ::
    "('i, 'o) entry list \<Rightarrow> ('i, 'o) heap \<Rightarrow> nat option \<Rightarrow> (int \<Rightarrow> nat option) \<Rightarrow> (('i, 'o) heap \<times> nat option) option" where
  "link_loop [] h root match = Some (h, root)"
| "link_loop (elem # entries) h root match =
     (let a = length h in
      if \<not> is_call (en_value elem) then
        do { h1 \<leftarrow> insertBefore
               (h @ [\<lparr>nd_value = Some (en_value elem), nd_match = None, nd_id = en_id elem, nd_next = None, nd_prev = None\<rparr>]) a root;
             link_loop entries h1 (Some a) (match(en_id elem \<mapsto> a)) }
      else
        do { h1 \<leftarrow> insertBefore
               (h @ [\<lparr>nd_value = Some (en_value elem), nd_match = match (en_id elem), nd_id = en_id elem, nd_next = None, nd_prev = None\<rparr>]) a root;
             link_loop entries h1 (Some a) match })"

definition makeLinkedEntries :: "('i, 'o) entry list \<Rightarrow> (('i, 'o) heap \<times> nat option) option" where
  "makeLinkedEntries entries = link_loop (rev entries) [] None (\<lambda>_. None)"

definition lift :: "('i, 'o) heap \<Rightarrow> nat \<Rightarrow> ('i, 'o) heap option" where
  "lift h e =
     do { entry \<leftarrow> deref h (Some e);
          h1 \<leftarrow> store_next h (nd_prev entry) (nd_next entry);
          entry1 \<leftarrow> deref h1 (Some e);
          h2 \<leftarrow> store_prev h1 (nd_next entry1) (nd_prev entry1);
          entry2 \<leftarrow> deref h2 (Some e);
          match \<leftarrow> deref h2 (nd_match entry2);
          h3 \<leftarrow> store_next h2 (nd_prev match) (nd_next match);
          match1 \<leftarrow> deref h3 (nd_match entry2);
          (if nd_next match1 \<noteq> None then store_prev h3 (nd_next match1) (nd_prev match1) else Some h3) }"

definition unlift :: "('i, 'o) heap \<Rightarrow> nat \<Rightarrow> ('i, 'o) heap option" where
  "unlift h e =
     do { entry \<leftarrow> deref h (Some e);
          match \<leftarrow> deref h (nd_match entry);
          h1 \<leftarrow> store_next h (nd_prev match) (nd_match entry);
          match1 \<leftarrow> deref h1 (nd_match entry);
          h2 \<leftarrow> (if nd_next match1 \<noteq> None then store_prev h1 (nd_next match1) (nd_match entry) else Some h1);
          entry1 \<leftarrow> deref h2 (Some e);
          h3 \<leftarrow> store_next h2 (nd_prev entry1) (Some e);
          entry2 \<leftarrow> deref h3 (Some e);
          store_prev h3 (nd_next entry2) (Some e) }"

section \<open>The search\<close>

type_synonym 's cache = "64 word \<Rightarrow> (bitset \<times> 's) list"

definition cacheContains :: "('s, 'i, 'o) Model \<Rightarrow> 's cache \<Rightarrow> bitset \<times> 's \<Rightarrow> bool" where
  "cacheContains model cache entry =
     list_ex (\<lambda>elem. bs_equals (fst entry) (fst elem) \<and> m_Equal model (snd entry) (snd elem)) (cache (bs_hash (fst entry)))"

record ('s, 'i, 'o) search =
  se_heap :: "('i, 'o) heap"
  se_entry :: "nat option"
  se_linearized :: bitset
  se_cache :: "'s cache"
  se_calls :: "(nat \<times> 's) list"
  se_state :: 's
  se_longest :: "int list option list"
  se_round :: nat

text \<open>\<open>model.Step\<close> on the values of a call and its return, with the type assertions of the model.\<close>

fun step_values :: "('s, 'i, 'o) Model \<Rightarrow> 's \<Rightarrow> ('i, 'o) payload option \<Rightarrow> ('i, 'o) payload option \<Rightarrow> (bool \<times> 's) option" where
  "step_values model s (Some (CallOf i)) (Some (ReturnOf x)) = Some (m_Step model s i x)"
| "step_values model s _ _ = None"

definition as_uint :: "int \<Rightarrow> nat option" where
  "as_uint i = (if 0 \<le> i then Some (nat i) else None)"

fun ids_of :: "('i, 'o) heap \<Rightarrow> (nat \<times> 's) list \<Rightarrow> int list option" where
  "ids_of h [] = Some []"
| "ids_of h ((a, s) # calls) = do { n \<leftarrow> deref h (Some a); is \<leftarrow> ids_of h calls; Some (nd_id n # is) }"

text \<open>The update of \<open>longest\<close> before a step back.\<close>

fun longest_loop :: "int list \<Rightarrow> int list \<Rightarrow> int list option list \<Rightarrow> int list option list option" where
  "longest_loop seq [] longest = Some longest"
| "longest_loop seq (i # is) longest =
     do { l \<leftarrow> go_nth longest i;
          longest1 \<leftarrow> (if (case l of None \<Rightarrow> True | Some l' \<Rightarrow> length seq > length l') then go_set longest i (Some seq) else Some longest);
          longest_loop seq is longest1 }"

text \<open>One round of the loop of \<open>checkSingle\<close>: its result, or the variables after the round.\<close>

definition check_round ::
    "('s, 'i, 'o) Model \<Rightarrow> bool \<Rightarrow> (nat \<Rightarrow> bool) \<Rightarrow> nat \<Rightarrow> ('s, 'i, 'o) search
      \<Rightarrow> ((bool \<times> int list option list) + ('s, 'i, 'o) search) option" where
  "check_round model computePartial kill headEntry st =
     do { hd \<leftarrow> deref (se_heap st) (Some headEntry);
          (if nd_next hd = None then
             do { seq \<leftarrow> ids_of (se_heap st) (se_calls st); Some (Inl (True, map (\<lambda>_. Some seq) (se_longest st))) }
           else if kill (se_round st) then Some (Inl (False, se_longest st))
           else
             do { e \<leftarrow> se_entry st;
                  entry \<leftarrow> deref (se_heap st) (Some e);
                  (case nd_match entry of
                     Some m \<Rightarrow>
                       do { matching \<leftarrow> deref (se_heap st) (Some m);
                            (ok, newState) \<leftarrow> step_values model (se_state st) (nd_value entry) (nd_value matching);
                            (let skip = st\<lparr>se_entry := nd_next entry, se_round := se_round st + 1\<rparr> in
                             if ok then
                               do { pos \<leftarrow> as_uint (nd_id entry);
                                    newLinearized \<leftarrow> bs_set (bs_clone (se_linearized st)) pos;
                                    (if \<not> cacheContains model (se_cache st) (newLinearized, newState) then
                                       (let hash = bs_hash newLinearized in
                                        do { linearized \<leftarrow> bs_set (se_linearized st) pos;
                                             h \<leftarrow> lift (se_heap st) e;
                                             hd1 \<leftarrow> deref h (Some headEntry);
                                             Some (Inr (st\<lparr>se_heap := h, se_entry := nd_next hd1, se_linearized := linearized,
                                               se_cache := (se_cache st)(hash := se_cache st hash @ [(newLinearized, newState)]),
                                               se_calls := se_calls st @ [(e, se_state st)], se_state := newState,
                                               se_round := se_round st + 1\<rparr>)) })
                                     else Some (Inr skip)) }
                             else Some (Inr skip)) }
                   | None \<Rightarrow>
                       (if length (se_calls st) = 0 then Some (Inl (False, se_longest st))
                        else
                          do { seq \<leftarrow> ids_of (se_heap st) (se_calls st);
                               longest \<leftarrow> (if computePartial then longest_loop seq seq (se_longest st) else Some (se_longest st));
                               (let (top, s) = last (se_calls st) in
                                do { t \<leftarrow> deref (se_heap st) (Some top);
                                     pos \<leftarrow> as_uint (nd_id t);
                                     linearized \<leftarrow> bs_clear (se_linearized st) pos;
                                     h \<leftarrow> unlift (se_heap st) top;
                                     t1 \<leftarrow> deref h (Some top);
                                     Some (Inr (st\<lparr>se_heap := h, se_entry := nd_next t1, se_linearized := linearized,
                                       se_calls := butlast (se_calls st), se_state := s, se_longest := longest,
                                       se_round := se_round st + 1\<rparr>)) }) })) }) }"

text \<open>\<open>None\<close>: the loop never ends or panics; the rounds are proved not to panic.\<close>

partial_function (option) check_loop ::
    "('s, 'i, 'o) Model \<Rightarrow> bool \<Rightarrow> (nat \<Rightarrow> bool) \<Rightarrow> nat \<Rightarrow> ('s, 'i, 'o) search \<Rightarrow> (bool \<times> int list option list) option" where
  "check_loop model computePartial kill headEntry st =
     do { r \<leftarrow> check_round model computePartial kill headEntry st;
          (case r of Inl result \<Rightarrow> Some result | Inr st' \<Rightarrow> check_loop model computePartial kill headEntry st') }"

declare check_loop.simps [code]

definition checkSingle ::
    "('s, 'i, 'o) Model \<Rightarrow> ('i, 'o) entry list \<Rightarrow> bool \<Rightarrow> (nat \<Rightarrow> bool) \<Rightarrow> (bool \<times> int list option list) option" where
  "checkSingle model history computePartial kill =
     do { (h, root) \<leftarrow> makeLinkedEntries history;
          l \<leftarrow> list_length h root;
          (let n = l div 2; headEntry = length h in
           do { h1 \<leftarrow> insertBefore
                  (h @ [\<lparr>nd_value = None, nd_match = None, nd_id = -1, nd_next = None, nd_prev = None\<rparr>]) headEntry root;
                check_loop model computePartial kill headEntry
                  \<lparr>se_heap = h1, se_entry = root, se_linearized = newBitset n, se_cache = (\<lambda>_. []), se_calls = [],
                   se_state = m_Init model, se_longest = replicate n None, se_round = 0\<rparr> }) }"

section \<open>Partitions\<close>

text \<open>The functions of a model that are \<open>nil\<close> get their defaults.\<close>

record ('s, 'i, 'o) PartialModel =
  pm_Partition :: "(('i, 'o) Operation list \<Rightarrow> ('i, 'o) Operation list list) option"
  pm_PartitionEvent :: "(('i, 'o) Event list \<Rightarrow> ('i, 'o) Event list list) option"
  pm_Init :: 's
  pm_Step :: "'s \<Rightarrow> 'i \<Rightarrow> 'o \<Rightarrow> bool \<times> 's"
  pm_Equal :: "('s \<Rightarrow> 's \<Rightarrow> bool) option"

definition fillDefault :: "('s, 'i, 'o) PartialModel \<Rightarrow> ('s, 'i, 'o) Model" where
  "fillDefault model =
     \<lparr>m_Partition = (case pm_Partition model of None \<Rightarrow> NoPartition | Some f \<Rightarrow> f),
      m_PartitionEvent = (case pm_PartitionEvent model of None \<Rightarrow> NoPartitionEvent | Some f \<Rightarrow> f),
      m_Init = pm_Init model, m_Step = pm_Step model,
      m_Equal = (case pm_Equal model of None \<Rightarrow> ShallowEqual | Some f \<Rightarrow> f)\<rparr>"

text \<open>What a \<open>select\<close> of \<open>checkParallel\<close> receives: the result of a partition or the timeout. The
  list is what arrives, in order; when it is used up, \<open>checkParallel\<close> waits forever.\<close>

datatype selected = Result bool | TimeoutFired

fun collect :: "bool \<Rightarrow> nat \<Rightarrow> bool \<Rightarrow> nat \<Rightarrow> selected list \<Rightarrow> (bool \<times> bool) option" where
  "collect computeInfo n ok cnt [] = None"
| "collect computeInfo n ok cnt (Result result # arrivals) =
     (let ok1 = (ok \<and> result) in
      if \<not> ok1 \<and> \<not> computeInfo then Some (ok1, False)
      else if cnt + 1 \<ge> n then Some (ok1, False)
      else collect computeInfo n ok1 (cnt + 1) arrivals)"
| "collect computeInfo n ok cnt (TimeoutFired # arrivals) = Some (ok, True)"

definition parallel_result :: "bool \<times> bool \<Rightarrow> CheckResult" where
  "parallel_result r = (case r of (ok, timedOut) \<Rightarrow> if \<not> ok then Illegal else if timedOut then Unknown else Ok)"

definition checkParallel :: "bool \<Rightarrow> nat \<Rightarrow> selected list \<Rightarrow> CheckResult option" where
  "checkParallel computeInfo n arrivals = map_option parallel_result (collect computeInfo n True 0 arrivals)"

end
