(* ===== verification/Porcupine_List.thy ===== *)
theory Porcupine_List
  imports Porcupine_Checker
begin

text \<open>
  The linked list of the checker: \<open>lift\<close> takes a call and its return out of the list, \<open>unlift\<close> puts them back and
  restores the heap to the node, and \<open>makeLinkedEntries\<close> builds the list of the entries.
\<close>

section \<open>List segments\<close>

definition first :: "nat list \<Rightarrow> nat option \<Rightarrow> nat option" where
  "first xs q = (case xs of [] \<Rightarrow> q | x # _ \<Rightarrow> Some x)"

text \<open>\<open>seg h p xs q\<close>: the nodes \<open>xs\<close> are linked in both directions, between \<open>p\<close> and \<open>q\<close>.\<close>

primrec seg :: "('i, 'o) heap \<Rightarrow> nat option \<Rightarrow> nat list \<Rightarrow> nat option \<Rightarrow> bool" where
  "seg h p [] q = True"
| "seg h p (x # xs) q = (x < length h \<and> nd_prev (h ! x) = p \<and> nd_next (h ! x) = first xs q \<and> seg h (Some x) xs q)"

lemma first_simps [simp]: "first [] q = q" "first (x # xs) q = Some x"
  by (simp_all add: first_def)

lemma first_append [simp]: "first (xs @ ys) q = first xs (first ys q)"
  by (cases xs) simp_all

lemma seg_append: "seg h p (xs @ ys) q \<longleftrightarrow> seg h p xs (first ys q) \<and> seg h (if xs = [] then p else Some (last xs)) ys q"
  by (induction xs arbitrary: p) auto

lemma seg_other [simp]: "a \<notin> set xs \<Longrightarrow> seg (h[a := n]) p xs q = seg h p xs q"
  by (induction xs arbitrary: p) auto

text \<open>Taking one node out of a list and putting it back.\<close>

definition unlink :: "('i, 'o) heap \<Rightarrow> nat \<Rightarrow> ('i, 'o) heap" where
  "unlink h a =
     (let h1 = (case nd_prev (h ! a) of Some p \<Rightarrow> h[p := (h ! p)\<lparr>nd_next := nd_next (h ! a)\<rparr>] | None \<Rightarrow> h)
      in case nd_next (h1 ! a) of Some q \<Rightarrow> h1[q := (h1 ! q)\<lparr>nd_prev := nd_prev (h1 ! a)\<rparr>] | None \<Rightarrow> h1)"

definition relink :: "('i, 'o) heap \<Rightarrow> nat \<Rightarrow> ('i, 'o) heap" where
  "relink h a =
     (let h1 = (case nd_prev (h ! a) of Some p \<Rightarrow> h[p := (h ! p)\<lparr>nd_next := Some a\<rparr>] | None \<Rightarrow> h)
      in case nd_next (h1 ! a) of Some q \<Rightarrow> h1[q := (h1 ! q)\<lparr>nd_prev := Some a\<rparr>] | None \<Rightarrow> h1)"

lemma unlink_seg:
  assumes "seg h p0 (xs @ [p] @ a # ys) None" "distinct (xs @ [p] @ a # ys)"
  shows "seg (unlink h a) p0 (xs @ [p] @ ys) None"
proof (cases ys)
  case Nil
  then show ?thesis using assms by (auto simp: seg_append unlink_def Let_def)
next
  case (Cons q zs)
  then show ?thesis using assms by (auto simp: seg_append unlink_def Let_def)
qed

lemma unlink_self:
  assumes "seg h p0 (xs @ [p] @ a # ys) None" "distinct (xs @ [p] @ a # ys)"
  shows "unlink h a ! a = h ! a"
  using assms by (cases ys) (auto simp: seg_append unlink_def Let_def)

lemma node_same: "nd_prev n = p \<Longrightarrow> n\<lparr>nd_prev := p\<rparr> = n" "nd_next n = q \<Longrightarrow> n\<lparr>nd_next := q\<rparr> = n"
  for n :: "('i, 'o) node"
  by auto

lemma relink_unlink:
  assumes "seg h p0 (xs @ [p] @ a # ys) None" "distinct (xs @ [p] @ a # ys)"
  shows "relink (unlink h a) a = h"
proof (cases ys)
  case Nil
  then show ?thesis using assms by (auto simp: seg_append unlink_def relink_def Let_def list_update_same_conv)
next
  case (Cons q zs)
  then have "nd_prev (h ! a) = Some p" "nd_next (h ! a) = Some q" "nd_next (h ! p) = Some a" "nd_prev (h ! q) = Some a"
    "p < length h" "q < length h" "p \<noteq> a" "q \<noteq> a" "p \<noteq> q"
    using assms by (auto simp: seg_append)
  then show ?thesis by (simp add: unlink_def relink_def Let_def list_update_swap[of p q] node_same)
qed

text \<open>The fields of a node that the search never changes.\<close>

definition fixed :: "('i, 'o) node \<Rightarrow> ('i, 'o) payload option \<times> nat option \<times> int" where
  "fixed n = (nd_value n, nd_match n, nd_id n)"

definition same_nodes :: "('i, 'o) heap \<Rightarrow> ('i, 'o) heap \<Rightarrow> bool" where
  "same_nodes h h' \<longleftrightarrow> map fixed h = map fixed h'"

lemma fixed_update [simp]: "fixed (n\<lparr>nd_next := q\<rparr>) = fixed n" "fixed (n\<lparr>nd_prev := p\<rparr>) = fixed n"
  by (simp_all add: fixed_def)

lemma map_fixed_update: "fixed n = fixed (h ! a) \<Longrightarrow> map fixed (h[a := n]) = map fixed h"
  by (cases "a < length h") (simp_all add: map_update list_update_same_conv list_update_beyond)

lemma unlink_same: "same_nodes (unlink h a) h"
  by (auto simp: same_nodes_def unlink_def Let_def map_fixed_update split: option.split)

lemma same_nodesD:
  assumes "same_nodes h h'"
  shows "length h = length h'" "a < length h' \<Longrightarrow> nd_value (h ! a) = nd_value (h' ! a)"
    "a < length h' \<Longrightarrow> nd_match (h ! a) = nd_match (h' ! a)" "a < length h' \<Longrightarrow> nd_id (h ! a) = nd_id (h' ! a)"
proof -
  show l: "length h = length h'" using assms by (metis same_nodes_def length_map)
  have "fixed (h ! a) = fixed (h' ! a)" if "a < length h'"
    using assms that l unfolding same_nodes_def by (metis nth_map)
  then show "a < length h' \<Longrightarrow> nd_value (h ! a) = nd_value (h' ! a)"
    "a < length h' \<Longrightarrow> nd_match (h ! a) = nd_match (h' ! a)" "a < length h' \<Longrightarrow> nd_id (h ! a) = nd_id (h' ! a)"
    by (simp_all add: fixed_def)
qed

section \<open>Lifting\<close>

lemma seg_bounded: "seg h p xs q \<Longrightarrow> a \<in> set xs \<Longrightarrow> a < length h"
  by (induction xs arbitrary: p) auto

lemma seg_middle:
  assumes "seg h p0 (xs @ [p] @ a # ys) q0"
  shows "nd_prev (h ! a) = Some p" "nd_next (h ! a) = first ys q0" "a < length h" "p < length h"
  using assms by (auto simp: seg_append)

lemma store_simps:
  "a < length h \<Longrightarrow> deref h (Some a) = Some (h ! a)"
  "a < length h \<Longrightarrow> store_next h (Some a) q = Some (h[a := (h ! a)\<lparr>nd_next := q\<rparr>])"
  "a < length h \<Longrightarrow> store_prev h (Some a) q = Some (h[a := (h ! a)\<lparr>nd_prev := q\<rparr>])"
  by (simp_all add: deref_def store_next_def store_prev_def)

text \<open>The statements of \<open>lift\<close> and \<open>unlift\<close> for one node.\<close>

lemma unlink_code:
  assumes "seg h p0 (xs @ [p] @ a # ys) None" "distinct (xs @ [p] @ a # ys)"
  shows "do { h1 \<leftarrow> store_next h (nd_prev (h ! a)) (nd_next (h ! a)); n1 \<leftarrow> deref h1 (Some a); 
      (if nd_next n1 \<noteq> None then store_prev h1 (nd_next n1) (nd_prev n1) else Some h1) } = Some (unlink h a)"
  using assms by (cases ys) (auto simp: seg_append unlink_def Let_def store_simps)

lemma relink_code:
  assumes "seg h p0 (xs @ [p] @ a # ys) None" "distinct (xs @ [p] @ a # ys)"
  defines "h' \<equiv> unlink h a"
  shows "do { h1 \<leftarrow> store_next h' (nd_prev (h' ! a)) (Some a); n1 \<leftarrow> deref h1 (Some a);
      (if nd_next n1 \<noteq> None then store_prev h1 (nd_next n1) (Some a) else Some h1) } = Some h"
proof -
  have "relink h' a = h" unfolding h'_def by (rule relink_unlink[OF assms(1,2)])
  moreover have "do { h1 \<leftarrow> store_next h' (nd_prev (h' ! a)) (Some a); n1 \<leftarrow> deref h1 (Some a);
      (if nd_next n1 \<noteq> None then store_prev h1 (nd_next n1) (Some a) else Some h1) } = Some (relink h' a)"
  proof -
    have "h' ! a = h ! a" unfolding h'_def by (rule unlink_self[OF assms(1,2)])
    moreover have "length h' = length h" unfolding h'_def using unlink_same same_nodesD(1) by blast
    ultimately show ?thesis
      using assms(1,2) by (cases ys) (auto simp: seg_append relink_def Let_def store_simps)
  qed
  ultimately show ?thesis by simp
qed

lemma lift_eq:
  assumes "seg h p0 (xs @ [p] @ e # ys @ m # zs) None" "distinct (xs @ [p] @ e # ys @ m # zs)" "nd_match (h ! e) = Some m"
  shows "lift h e = Some (unlink (unlink h e) m)"
proof -
  have e: "seg (unlink h e) p0 (xs @ [p] @ ys @ m # zs) None" using unlink_seg[OF assms(1,2)] .
  let ?h = "unlink h e"
  have len: "length ?h = length h" using unlink_same same_nodesD(1) by blast
  have self: "?h ! e = h ! e" by (rule unlink_self[OF assms(1,2)])
  have bounds: "e < length h" "m < length h" using seg_bounded[OF assms(1)] by auto
  obtain xs' p' where p': "xs @ [p] @ ys = xs' @ [p']" by (metis append_is_Nil_conv not_Cons_self2 rev_exhaust)
  have eq: "xs' @ [p'] @ m # zs = xs @ [p] @ ys @ m # zs" using p' by simp
  have seg': "seg ?h p0 (xs' @ [p'] @ m # zs) None" unfolding eq by (rule e)
  have dist': "distinct (xs' @ [p'] @ m # zs)" unfolding eq using assms(2) by auto
  obtain q where q: "nd_next (h ! e) = Some q" using seg_middle(2)[OF assms(1)] by (cases ys) auto
  have prev: "nd_prev (h ! e) = Some p" "p < length h" "p \<noteq> e" using seg_middle[OF assms(1)] assms(2) by auto
  have "q < length h" using q seg_middle(2)[OF assms(1)] seg_bounded[OF assms(1), of q] by (cases ys) auto
  let ?h1 = "h[p := (h ! p)\<lparr>nd_next := Some q\<rparr>]"
  have h1: "store_next h (Some p) (Some q) = Some ?h1" "deref ?h1 (Some e) = Some (h ! e)" "store_prev ?h1 (Some q) (Some p) = Some ?h"
    using q prev bounds \<open>q < length h\<close> by (simp_all add: store_simps unlink_def Let_def)
  have "do { h3 \<leftarrow> store_next ?h (nd_prev (?h ! m)) (nd_next (?h ! m)); n1 \<leftarrow> deref h3 (Some m);
      (if nd_next n1 \<noteq> None then store_prev h3 (nd_next n1) (nd_prev n1) else Some h3) } = Some (unlink ?h m)"
    by (rule unlink_code[OF seg' dist'])
  then show ?thesis using h1 q prev bounds self assms(3) len by (simp add: lift_def store_simps(1))
qed

lemma split_last:
  assumes "seg h p0 (xs @ [p] @ ys @ m # zs) None" "distinct (xs @ [p] @ ys @ m # zs)"
  obtains xs' p' where "seg h p0 (xs' @ [p'] @ m # zs) None" "distinct (xs' @ [p'] @ m # zs)" "xs' @ [p'] = xs @ [p] @ ys"
proof -
  obtain xs' p' where p': "xs @ [p] @ ys = xs' @ [p']" by (metis append_is_Nil_conv not_Cons_self2 rev_exhaust)
  then have eq: "xs' @ [p'] @ m # zs = xs @ [p] @ ys @ m # zs" by simp
  with assms p' that[of xs' p'] show ?thesis by metis
qed

lemma lifted:
  assumes "seg h p0 (xs @ [p] @ e # ys @ m # zs) None" "distinct (xs @ [p] @ e # ys @ m # zs)" "nd_match (h ! e) = Some m"
  obtains h' where "lift h e = Some h'" "seg h' p0 (xs @ [p] @ ys @ zs) None" "same_nodes h' h" "unlift h' e = Some h"
proof -
  let ?h = "unlink h e"
  let ?h2 = "unlink ?h m"
  have e: "seg ?h p0 (xs @ [p] @ ys @ m # zs) None" using unlink_seg[OF assms(1,2)] .
  have "distinct (xs @ [p] @ ys @ m # zs)" using assms(2) by auto
  from split_last[OF e this] obtain xs' p' where s': "seg ?h p0 (xs' @ [p'] @ m # zs) None"
    and d': "distinct (xs' @ [p'] @ m # zs)" and x': "xs' @ [p'] = xs @ [p] @ ys" .
  have "seg ?h2 p0 (xs' @ [p'] @ zs) None" by (rule unlink_seg[OF s' d'])
  then have seg: "seg ?h2 p0 (xs @ [p] @ ys @ zs) None" using x' by (metis append.assoc)
  have same: "same_nodes ?h2 h" using unlink_same[of ?h m] unlink_same[of h e] by (simp add: same_nodes_def)
  have len: "length ?h = length h" "length ?h2 = length h" using unlink_same same_nodesD(1) by metis+
  have bounds: "e < length h" "m < length h" using seg_bounded[OF assms(1)] by auto
  have match: "nd_match (?h2 ! e) = Some m" "nd_match (?h ! e) = Some m"
    using same_nodesD(3)[OF same bounds(1)] same_nodesD(3)[OF unlink_same bounds(1)] assms(3) by auto
  have "unlift ?h2 e = do { h1 \<leftarrow> store_next ?h2 (nd_prev (?h2 ! m)) (Some m); n1 \<leftarrow> deref h1 (Some m);
      h2 \<leftarrow> (if nd_next n1 \<noteq> None then store_prev h1 (nd_next n1) (Some m) else Some h1);
      entry1 \<leftarrow> deref h2 (Some e); h3 \<leftarrow> store_next h2 (nd_prev entry1) (Some e);
      entry2 \<leftarrow> deref h3 (Some e); store_prev h3 (nd_next entry2) (Some e) }"
    using match bounds len by (simp add: unlift_def store_simps(1) cong: if_cong)
  also have "\<dots> = do { h2 \<leftarrow> do { h1 \<leftarrow> store_next ?h2 (nd_prev (?h2 ! m)) (Some m); n1 \<leftarrow> deref h1 (Some m);
        (if nd_next n1 \<noteq> None then store_prev h1 (nd_next n1) (Some m) else Some h1) };
      entry1 \<leftarrow> deref h2 (Some e); h3 \<leftarrow> store_next h2 (nd_prev entry1) (Some e);
      entry2 \<leftarrow> deref h3 (Some e); store_prev h3 (nd_next entry2) (Some e) }"
    by simp
  also have "\<dots> = do { h3 \<leftarrow> store_next ?h (nd_prev (?h ! e)) (Some e); entry2 \<leftarrow> deref h3 (Some e); store_prev h3 (nd_next entry2) (Some e) }"
    using relink_code[OF s' d'] bounds len by (simp add: store_simps(1))
  also have "\<dots> = Some h"
  proof -
    obtain q where q: "nd_next (h ! e) = Some q" using seg_middle(2)[OF assms(1)] by (cases ys) auto
    have p: "nd_prev (h ! e) = Some p" "p < length h" "p \<noteq> e" using seg_middle[OF assms(1)] assms(2) by auto
    have self: "?h ! e = h ! e" by (rule unlink_self[OF assms(1,2)])
    with relink_code[OF assms(1,2)] p q bounds len show ?thesis by (simp add: store_simps)
  qed
  finally have "unlift ?h2 e = Some h" .
  with that[of ?h2] lift_eq[OF assms] seg same show ?thesis by blast
qed

section \<open>Building the list\<close>

lemma insertBefore_seg:
  assumes "seg h None xs None" "nd_prev n = None" "nd_next n = None"
  obtains h' where "insertBefore (h @ [n]) (length h) (first xs None) = Some h'"
    "seg h' None (length h # xs) None" "same_nodes h' (h @ [n])"
proof (cases xs)
  case Nil
  then show ?thesis using that[of "h @ [n]"] assms by (simp add: insertBefore_def same_nodes_def)
next
  case (Cons x ys)
  have x: "x < length h" "nd_prev (h ! x) = None" "x \<noteq> length h" using assms(1) Cons by auto
  have dist: "x \<notin> set ys \<and> length h \<notin> set xs"
  proof
    have "seg h p ys None \<Longrightarrow> x \<in> set ys \<Longrightarrow> nd_prev (h ! x) \<noteq> None \<or> p = None" for p
      by (induction ys arbitrary: p) auto
    then show "x \<notin> set ys" using assms(1) Cons x(2) by fastforce
    show "length h \<notin> set xs" using seg_bounded[OF assms(1)] by blast
  qed
  let ?h' = "(h @ [n])[x := (h ! x)\<lparr>nd_prev := Some (length h)\<rparr>, length h := n\<lparr>nd_next := Some x\<rparr>]"
  have grow: "seg h p zs q \<Longrightarrow> seg (h @ [n]) p zs q" for p zs q
    by (induction zs arbitrary: p) (auto simp: nth_append)
  have "seg ?h' (Some x) ys None" using grow[of "Some x" ys None] assms(1) Cons dist by simp
  then have "seg ?h' None (length h # xs) None" using x assms Cons by (simp add: nth_append)
  moreover have "insertBefore (h @ [n]) (length h) (first xs None) = Some ?h'"
    using x Cons by (simp add: insertBefore_def store_simps nth_append)
  moreover have "same_nodes ?h' (h @ [n])"
    using x by (simp add: same_nodes_def map_fixed_update nth_append)
  ultimately show ?thesis using that by blast
qed

text \<open>The unchanging fields of the nodes, as \<open>link_loop\<close> makes them.\<close>

fun link_fixed :: "('i, 'o) entry list \<Rightarrow> nat \<Rightarrow> (int \<Rightarrow> nat option) \<Rightarrow> (('i, 'o) payload option \<times> nat option \<times> int) list" where
  "link_fixed [] a match = []"
| "link_fixed (e # es) a match =
     (Some (en_value e), if is_call (en_value e) then match (en_id e) else None, en_id e) #
     link_fixed es (Suc a) (if is_call (en_value e) then match else match(en_id e \<mapsto> a))"

lemma rev_upt_Suc: "rev [0..<Suc n] = n # rev [0..<n]"
  by simp

lemma link_loop_seg:
  assumes "seg h None (rev [0..<length h]) None"
  shows "\<exists>h'. link_loop es h (first (rev [0..<length h]) None) match = Some (h', first (rev [0..<length h']) None) \<and>
    length h' = length h + length es \<and> seg h' None (rev [0..<length h']) None \<and>
    map fixed h' = map fixed h @ link_fixed es (length h) match"
  using assms
proof (induction es arbitrary: h match)
  case (Cons e es)
  define n :: "('a, 'b) node" where "n = \<lparr>nd_value = Some (en_value e), nd_match = (if is_call (en_value e) then match (en_id e) else None),
    nd_id = en_id e, nd_next = None, nd_prev = None\<rparr>"
  have "nd_prev n = None" "nd_next n = None" by (simp_all add: n_def)
  from insertBefore_seg[OF Cons.prems this] obtain h1 where h1: "insertBefore (h @ [n]) (length h) (first (rev [0..<length h]) None) = Some h1"
    "seg h1 None (length h # rev [0..<length h]) None" "same_nodes h1 (h @ [n])" .
  have len: "length h1 = Suc (length h)" using same_nodesD(1)[OF h1(3)] by simp
  then have seg: "seg h1 None (rev [0..<length h1]) None" "first (rev [0..<length h1]) None = Some (length h)"
    using h1(2) by (simp_all only: rev_upt_Suc first_simps)
  let ?match = "if is_call (en_value e) then match else match(en_id e \<mapsto> length h)"
  have step: "link_loop (e # es) h (first (rev [0..<length h]) None) match = link_loop es h1 (first (rev [0..<length h1]) None) ?match"
    using h1(1) seg(2) by (cases "is_call (en_value e)") (simp_all add: n_def Let_def)
  have fn: "map fixed h1 = map fixed h @ [(Some (en_value e), if is_call (en_value e) then match (en_id e) else None, en_id e)]"
    using h1(3) by (simp add: same_nodes_def) (simp add: fixed_def n_def)
  from Cons.IH[OF seg(1), of ?match] obtain h' where
    "link_loop es h1 (first (rev [0..<length h1]) None) ?match = Some (h', first (rev [0..<length h']) None)"
    "length h' = length h1 + length es" "seg h' None (rev [0..<length h']) None"
    "map fixed h' = map fixed h1 @ link_fixed es (length h1) ?match" by blast
  then show ?case unfolding step fn using len by (intro exI[of _ h']) simp
qed simp

lemma list_length_seg: "seg h p xs None \<Longrightarrow> list_length h (first xs None) = Some (length xs)"
proof (induction xs arbitrary: p)
  case (Cons x xs)
  then have "list_length h (first xs None) = Some (length xs)" by auto
  then show ?case using Cons.prems by (subst list_length.simps) (simp add: store_simps(1))
qed (simp add: list_length.simps)

end
