(* ===== verification/Porcupine_Search.thy ===== *)
theory Porcupine_Search
  imports Main
begin

text \<open>
  The search for a linearization, without its data structures. A problem is a sequence of calls and returns of
  operations, and what each operation does to the state. The search extends a list of operations by an operation
  that no pending operation precedes, remembers the pairs of operations done and states it has tried, and steps back when all
  candidates are dead. Its invariant gives that it ends, and that it finds a linearization if there is one.
\<close>

section \<open>Problems\<close>

text \<open>A call is \<open>(True, i)\<close>, a return \<open>(False, i)\<close>.\<close>

record 's problem =
  toks :: "(bool \<times> nat) list"
  stp :: "nat \<Rightarrow> 's \<Rightarrow> bool \<times> 's"
  start :: 's

definition ops :: "'s problem \<Rightarrow> nat set" where
  "ops P = snd ` set (toks P)"

definition wf_problem :: "'s problem \<Rightarrow> bool" where
  "wf_problem P \<longleftrightarrow> distinct (toks P) \<and> (\<forall>i \<in> ops P. \<exists>xs ys zs. toks P = xs @ (True, i) # ys @ (False, i) # zs)"

definition before :: "'s problem \<Rightarrow> nat \<Rightarrow> nat \<Rightarrow> bool" where
  "before P j i \<longleftrightarrow> (\<exists>xs ys zs. toks P = xs @ (False, j) # ys @ (True, i) # zs)"

fun legal :: "'s problem \<Rightarrow> 's \<Rightarrow> nat list \<Rightarrow> bool" where
  "legal P s [] = True"
| "legal P s (i # is) = (fst (stp P i s) \<and> legal P (snd (stp P i s)) is)"

definition run :: "'s problem \<Rightarrow> nat list \<Rightarrow> 's" where
  "run P is = fold (\<lambda>i s. snd (stp P i s)) is (start P)"

definition ordered :: "'s problem \<Rightarrow> nat list \<Rightarrow> bool" where
  "ordered P is \<longleftrightarrow> sorted_wrt (\<lambda>a b. \<not> before P b a) is"

text \<open>The operations not in \<open>S\<close> can be done from \<open>s\<close>, in an order that respects which returned before which was called.\<close>

definition solvable :: "'s problem \<Rightarrow> nat set \<Rightarrow> 's \<Rightarrow> bool" where
  "solvable P S s \<longleftrightarrow> (\<exists>is. distinct is \<and> set is = ops P - S \<and> ordered P is \<and> legal P s is)"

definition cur :: "'s problem \<Rightarrow> nat set \<Rightarrow> (bool \<times> nat) list" where
  "cur P S = filter (\<lambda>t. snd t \<notin> S) (toks P)"

definition cands :: "'s problem \<Rightarrow> nat set \<Rightarrow> nat set" where
  "cands P S = snd ` set (takeWhile fst (cur P S))"

lemma wf_problemD:
  assumes "wf_problem P" "i \<in> ops P"
  shows "(True, i) \<in> set (toks P)" "(False, i) \<in> set (toks P)"
proof -
  from assms obtain xs ys zs where "toks P = xs @ (True, i) # ys @ (False, i) # zs" unfolding wf_problem_def by blast
  then show "(True, i) \<in> set (toks P)" "(False, i) \<in> set (toks P)" by auto
qed

lemma set_cur: "set (cur P S) = {t \<in> set (toks P). snd t \<notin> S}"
  by (simp add: cur_def)

lemma filter_split:
  "filter Q xs = p @ x # q \<Longrightarrow> \<exists>us vs. xs = us @ x # vs \<and> filter Q us = p \<and> filter Q vs = q"
proof (induction xs arbitrary: p)
  case (Cons y ys)
  show ?case
  proof (cases "Q y")
    case True
    show ?thesis
    proof (cases p)
      case Nil
      then have "y # ys = [] @ x # ys \<and> filter Q [] = p \<and> filter Q ys = q" using True Cons.prems by auto
      then show ?thesis by blast
    next
      case (Cons z p')
      with True Cons.prems Cons.IH[of p'] obtain us vs where "y = z" "ys = us @ x # vs" "filter Q us = p'" "filter Q vs = q" by auto
      then have "y # ys = (z # us) @ x # vs \<and> filter Q (z # us) = p \<and> filter Q vs = q" using True Cons by auto
      then show ?thesis by blast
    qed
  next
    case False
    with Cons.prems Cons.IH[of p] obtain us vs where "ys = us @ x # vs" "filter Q us = p" "filter Q vs = q" by auto
    then have "y # ys = (y # us) @ x # vs \<and> filter Q (y # us) = p \<and> filter Q vs = q" using False by auto
    then show ?thesis by blast
  qed
qed simp

lemma cands_before:
  assumes "cur P S = p @ (False, j) # q @ (True, i) # r"
  shows "before P j i"
proof -
  from filter_split[OF assms[unfolded cur_def]] obtain us vs where
    uv: "toks P = us @ (False, j) # vs" "filter (\<lambda>t. snd t \<notin> S) vs = q @ (True, i) # r" by blast
  from filter_split[OF uv(2)] obtain us' vs' where "vs = us' @ (True, i) # vs'" by blast
  with uv(1) show ?thesis unfolding before_def by blast
qed

lemma before_cands:
  assumes "before P j i" "i \<notin> S" "j \<notin> S"
  shows "\<exists>p q r. cur P S = p @ (False, j) # q @ (True, i) # r"
proof -
  from assms(1) obtain xs ys zs where "toks P = xs @ (False, j) # ys @ (True, i) # zs" unfolding before_def by blast
  then have "cur P S = filter (\<lambda>t. snd t \<notin> S) xs @ (False, j) # filter (\<lambda>t. snd t \<notin> S) ys @ (True, i) # filter (\<lambda>t. snd t \<notin> S) zs"
    using assms(2,3) by (simp add: cur_def)
  then show ?thesis by blast
qed

lemma takeWhile_mem: "x \<notin> set p \<Longrightarrow> Q x \<Longrightarrow> x \<in> set (takeWhile Q (p @ x # q)) \<longleftrightarrow> (\<forall>y \<in> set p. Q y)"
proof (induction p)
  case (Cons y p)
  then show ?case by (cases "Q y") auto
qed simp

lemma cands_iff:
  assumes "wf_problem P"
  shows "i \<in> cands P S \<longleftrightarrow> i \<in> ops P - S \<and> (\<forall>j \<in> ops P - S. \<not> before P j i)"
proof (cases "i \<in> ops P - S")
  case True
  then have "(True, i) \<in> set (cur P S)" using wf_problemD(1)[OF assms] by (simp add: set_cur)
  then obtain p q where pq: "cur P S = p @ (True, i) # q" by (meson split_list)
  have dist: "distinct (p @ (True, i) # q)" using assms by (simp add: wf_problem_def cur_def flip: pq)
  have "i \<in> cands P S \<longleftrightarrow> (True, i) \<in> set (takeWhile fst (cur P S))"
  proof
    assume "i \<in> cands P S"
    then obtain c where "(c, i) \<in> set (takeWhile fst (cur P S))" by (auto simp: cands_def)
    then show "(True, i) \<in> set (takeWhile fst (cur P S))" using set_takeWhileD[of "(c, i)" fst "cur P S"] by simp
  qed (force simp: cands_def)
  also have "\<dots> \<longleftrightarrow> (\<forall>y \<in> set p. fst y)" using takeWhile_mem[of "(True, i)" p fst q] dist by (simp add: pq)
  also have "\<dots> \<longleftrightarrow> (\<forall>j \<in> ops P - S. \<not> before P j i)"
  proof (intro iffI ballI notI)
    fix j assume a: "\<forall>y \<in> set p. fst y" "j \<in> ops P - S" "before P j i"
    from before_cands[OF a(3), of S] a(2) True obtain p' q' r' where "cur P S = p' @ (False, j) # q' @ (True, i) # r'" by auto
    then have "p @ (True, i) # q = (p' @ (False, j) # q') @ (True, i) # r'" using pq by simp
    then have "p = p' @ (False, j) # q'"
      using dist by (metis append_Cons_eq_iff distinct_append disjoint_iff list.set_intros(1) distinct.simps(2))
    then show False using a(1) by auto
  next
    fix y assume a: "\<forall>j \<in> ops P - S. \<not> before P j i" "y \<in> set p"
    show "fst y"
    proof (rule ccontr)
      assume "\<not> fst y"
      then obtain j where y: "y = (False, j)" by (cases y) auto
      with a(2) obtain p1 p2 where "p = p1 @ (False, j) # p2" by (meson split_list)
      then have "before P j i" using pq cands_before[of P S p1 j p2 i q] by simp
      moreover have "y \<in> set (cur P S)" using a(2) pq by simp
      then have "j \<in> ops P - S" using y by (force simp: set_cur ops_def)
      ultimately show False using a(1) by blast
    qed
  qed
  finally show ?thesis using True by blast
next
  case False
  then show ?thesis by (force simp: cands_def ops_def cur_def dest: set_takeWhileD)
qed

lemma solvable_unfold:
  assumes "wf_problem P"
  shows "solvable P S s \<longleftrightarrow> ops P \<subseteq> S \<or>
    (\<exists>i \<in> cands P S. fst (stp P i s) \<and> solvable P (insert i S) (snd (stp P i s)))"
proof
  assume "solvable P S s"
  then obtain "is" where sol: "distinct is" "set is = ops P - S" "ordered P is" "legal P s is" by (auto simp: solvable_def)
  show "ops P \<subseteq> S \<or> (\<exists>i \<in> cands P S. fst (stp P i s) \<and> solvable P (insert i S) (snd (stp P i s)))"
  proof (cases "is")
    case Nil
    then show ?thesis using sol(2) by auto
  next
    case (Cons i js)
    have "\<not> before P j i" if "j \<in> ops P - S" for j
    proof (cases "j = i")
      case True
      have "i \<in> ops P" using sol(2) Cons by auto
      with assms obtain xs ys zs where t: "toks P = xs @ (True, i) # ys @ (False, i) # zs" "distinct (toks P)"
        unfolding wf_problem_def by blast
      show ?thesis
      proof
        assume "before P j i"
        then obtain as bs cs where "toks P = as @ (False, i) # bs @ (True, i) # cs" using True unfolding before_def by blast
        then have "xs @ (True, i) # ys @ (False, i) # zs = (as @ (False, i) # bs) @ (True, i) # cs" using t(1) by simp
        moreover have "(True, i) \<notin> set xs \<and> (True, i) \<notin> set (ys @ (False, i) # zs)" using t by auto
        ultimately have "xs = as @ (False, i) # bs" by (metis append_Cons_eq_iff)
        then show False using t by auto
      qed
    next
      case False
      then show ?thesis using that sol(2,3) Cons by (auto simp: ordered_def)
    qed
    then have "i \<in> cands P S" using cands_iff[OF assms] sol(2) Cons by auto
    moreover have "solvable P (insert i S) (snd (stp P i s))"
      using sol Cons by (auto simp: solvable_def ordered_def intro!: exI[of _ js])
    ultimately show ?thesis using sol(4) Cons by auto
  qed
next
  assume "ops P \<subseteq> S \<or> (\<exists>i \<in> cands P S. fst (stp P i s) \<and> solvable P (insert i S) (snd (stp P i s)))"
  then show "solvable P S s"
  proof
    assume "ops P \<subseteq> S"
    then show ?thesis by (auto simp: solvable_def ordered_def intro!: exI[of _ "[]"])
  next
    assume "\<exists>i \<in> cands P S. fst (stp P i s) \<and> solvable P (insert i S) (snd (stp P i s))"
    then obtain i js where i: "i \<in> cands P S" "fst (stp P i s)"
      and js: "distinct js" "set js = ops P - insert i S" "ordered P js" "legal P (snd (stp P i s)) js"
      by (auto simp: solvable_def)
    then show ?thesis using i(1)[unfolded cands_iff[OF assms]]
      by (auto simp: solvable_def ordered_def intro!: exI[of _ "i # js"])
  qed
qed

section \<open>The invariant of the search\<close>

text \<open>After the operations \<open>is\<close> the operation \<open>i\<close> leads nowhere.\<close>

definition dead :: "'s problem \<Rightarrow> nat list \<Rightarrow> nat \<Rightarrow> bool" where
  "dead P is i \<longleftrightarrow> \<not> (fst (stp P i (run P is)) \<and> solvable P (insert i (set is)) (snd (stp P i (run P is))))"

text \<open>A round of choices: the operation chosen was a candidate, could be done, and the ones before it were dead.\<close>

definition chosen :: "'s problem \<Rightarrow> nat list \<Rightarrow> nat \<Rightarrow> bool" where
  "chosen P is i \<longleftrightarrow> fst (stp P i (run P is)) \<and>
     (\<exists>p q. cur P (set is) = p @ (True, i) # q \<and> (\<forall>t \<in> set p. fst t \<and> dead P is (snd t)))"

definition tried :: "'s problem \<Rightarrow> (nat set \<times> 's) set" where
  "tried P = (\<lambda>is. (set is, run P is)) ` {is. set is \<subseteq> ops P \<and> distinct is}"

definition search_inv :: "'s problem \<Rightarrow> nat list \<Rightarrow> (bool \<times> nat) list \<Rightarrow> (bool \<times> nat) list \<Rightarrow> (nat set \<times> 's) set \<Rightarrow> bool" where
  "search_inv P is pre suf cache \<longleftrightarrow> distinct is \<and> set is \<subseteq> ops P \<and> cur P (set is) = pre @ suf \<and>
     (\<forall>t \<in> set pre. fst t \<and> dead P is (snd t)) \<and> (\<forall>k < length is. chosen P (take k is) (is ! k)) \<and>
     (\<forall>(S, s) \<in> cache. (\<exists>k \<le> length is. S = set (take k is) \<and> s = run P (take k is)) \<or> \<not> solvable P S s) \<and>
     cache \<subseteq> tried P"

lemma run_snoc [simp]: "run P (is @ [i]) = snd (stp P i (run P is))"
  by (simp add: run_def)

lemma finite_tried: "finite (tried P)"
  unfolding tried_def by (rule finite_imageI, rule finite_subset_distinct) (simp add: ops_def)

lemma tried_run: "distinct is \<Longrightarrow> set is \<subseteq> ops P \<Longrightarrow> (set is, run P is) \<in> tried P"
  unfolding tried_def by blast

lemma inv_op: "search_inv P is pre ((c, i) # suf) cache \<Longrightarrow> i \<in> ops P \<and> i \<notin> set is"
proof -
  assume "search_inv P is pre ((c, i) # suf) cache"
  then have "(c, i) \<in> set (cur P (set is))" by (simp add: search_inv_def)
  then show ?thesis by (force simp: set_cur ops_def)
qed

lemma inv_cache:
  assumes "search_inv P is pre suf cache" "(S, s) \<in> cache"
  shows "(\<exists>k \<le> length is. S = set (take k is) \<and> s = run P (take k is)) \<or> \<not> solvable P S s"
proof -
  have "\<forall>x \<in> cache. case x of (S, s) \<Rightarrow> (\<exists>k \<le> length is. S = set (take k is) \<and> s = run P (take k is)) \<or> \<not> solvable P S s"
    using assms(1) by (simp add: search_inv_def)
  from bspec[OF this assms(2)] show ?thesis by simp
qed

lemma inv_parts:
  assumes "search_inv P is pre suf cache"
  shows "distinct is" "set is \<subseteq> ops P" "cur P (set is) = pre @ suf" "\<forall>t \<in> set pre. fst t \<and> dead P is (snd t)"
    "k < length is \<Longrightarrow> chosen P (take k is) (is ! k)" "cache \<subseteq> tried P"
  using assms by (simp_all add: search_inv_def)

lemma invI:
  assumes "distinct is" "set is \<subseteq> ops P" "cur P (set is) = pre @ suf" "\<forall>t \<in> set pre. fst t \<and> dead P is (snd t)"
    "\<And>k. k < length is \<Longrightarrow> chosen P (take k is) (is ! k)"
    "\<And>S s. (S, s) \<in> cache \<Longrightarrow> (\<exists>k \<le> length is. S = set (take k is) \<and> s = run P (take k is)) \<or> \<not> solvable P S s"
    "cache \<subseteq> tried P"
  shows "search_inv P is pre suf cache"
  unfolding search_inv_def by (intro conjI allI impI ballI case_prodI2) (use assms in simp_all)

lemma inv_init: "search_inv P [] [] (toks P) {}"
  by (simp add: search_inv_def cur_def)

lemma inv_skip:
  assumes "search_inv P is pre ((True, i) # suf) cache" "dead P is i"
  shows "search_inv P is (pre @ [(True, i)]) suf cache"
  using assms by (simp add: search_inv_def)

lemma cached_dead:
  assumes "search_inv P is pre ((True, i) # suf) cache" "(insert i (set is), snd (stp P i (run P is))) \<in> cache"
  shows "dead P is i"
proof -
  have "i \<notin> set (take k is)" for k using inv_op[OF assms(1)] set_take_subset by fast
  then have "insert i (set is) \<noteq> set (take k is)" for k by blast
  then have "\<not> solvable P (insert i (set is)) (snd (stp P i (run P is)))"
    using inv_cache[OF assms] by simp
  then show ?thesis by (simp add: dead_def)
qed

lemma inv_push:
  assumes "search_inv P is pre ((True, i) # suf) cache" "fst (stp P i (run P is))"
  shows "search_inv P (is @ [i]) [] (cur P (set (is @ [i]))) (insert (set (is @ [i]), run P (is @ [i])) cache)"
proof -
  have i: "i \<in> ops P" "i \<notin> set is" using inv_op[OF assms(1)] by auto
  have d: "distinct (is @ [i])" "set (is @ [i]) \<subseteq> ops P" using inv_parts(1,2)[OF assms(1)] i by auto
  have "chosen P is i" unfolding chosen_def using inv_parts(3,4)[OF assms(1)] assms(2) by blast
  then have ch: "chosen P (take k (is @ [i])) ((is @ [i]) ! k)" if "k < length (is @ [i])" for k
    using inv_parts(5)[OF assms(1), of k] that by (cases "k = length is") (simp_all add: nth_append)
  have "(\<exists>k \<le> length (is @ [i]). S = set (take k (is @ [i])) \<and> s = run P (take k (is @ [i]))) \<or> \<not> solvable P S s"
    if "(S, s) \<in> insert (set (is @ [i]), run P (is @ [i])) cache" for S s
  proof (cases "(S, s) \<in> cache")
    case True
    then consider k where "k \<le> length is" "S = set (take k is)" "s = run P (take k is)" | "\<not> solvable P S s"
      using inv_cache[OF assms(1)] by blast
    then show ?thesis
    proof cases
      case 1
      then have "take k (is @ [i]) = take k is" by simp
      with 1 show ?thesis by (intro disjI1 exI[of _ k]) simp
    qed simp
  next
    case False
    then have "S = set (take (length (is @ [i])) (is @ [i]))" "s = run P (take (length (is @ [i])) (is @ [i]))" using that by auto
    then show ?thesis by blast
  qed
  then show ?thesis by (intro invI d ch) (use tried_run[OF d] inv_parts(6)[OF assms(1)] in auto)
qed

lemma all_dead:
  assumes "wf_problem P" "search_inv P is pre ((False, j) # suf) cache"
  shows "\<not> solvable P (set is) (run P is)"
proof -
  have c: "cur P (set is) = pre @ (False, j) # suf" "\<forall>t \<in> set pre. fst t \<and> dead P is (snd t)"
    using assms(2) by (auto simp: search_inv_def)
  then have "takeWhile fst (cur P (set is)) = pre" by (simp add: takeWhile_tail)
  then have "\<forall>i \<in> cands P (set is). dead P is i" using c(2) by (auto simp: cands_def)
  moreover have "\<not> ops P \<subseteq> set is" using inv_op[OF assms(2)] by blast
  ultimately show ?thesis using solvable_unfold[OF assms(1), of "set is" "run P is"] by (auto simp: dead_def)
qed

lemma inv_pop:
  assumes "wf_problem P" "search_inv P (is @ [i]) pre ((False, j) # suf) cache"
  obtains p q where "cur P (set is) = p @ (True, i) # q" "search_inv P is (p @ [(True, i)]) q cache"
proof -
  have last: "\<not> solvable P (set (is @ [i])) (run P (is @ [i]))" by (rule all_dead[OF assms])
  have ch: "chosen P (take k (is @ [i])) ((is @ [i]) ! k)" if "k < length (is @ [i])" for k
    using assms(2) that by (simp add: search_inv_def)
  from ch[of "length is"] obtain p q where pq: "cur P (set is) = p @ (True, i) # q" "\<forall>t \<in> set p. fst t \<and> dead P is (snd t)"
    by (auto simp: chosen_def)
  have "dead P is i" using last by (simp add: dead_def)
  moreover have "chosen P (take k is) (is ! k)" if "k < length is" for k
    using ch[of k] that by (simp add: nth_append)
  moreover have "(\<exists>k \<le> length is. S = set (take k is) \<and> s = run P (take k is)) \<or> \<not> solvable P S s" if "(S, s) \<in> cache" for S s
  proof -
    from inv_cache[OF assms(2) that] consider k where "k \<le> Suc (length is)" "S = set (take k (is @ [i]))" "s = run P (take k (is @ [i]))" | "\<not> solvable P S s"
      by fastforce
    then show ?thesis
    proof cases
      case 1
      show ?thesis
      proof (cases "k = Suc (length is)")
        case True
        then show ?thesis using 1 last by simp
      next
        case False
        then have "k \<le> length is" "take k (is @ [i]) = take k is" using 1(1) by auto
        with 1 show ?thesis by auto
      qed
    qed simp
  qed
  ultimately have "search_inv P is (p @ [(True, i)]) q cache"
    using inv_parts[OF assms(2)] pq by (intro invI) auto
  with pq(1) that show ?thesis by blast
qed

lemma inv_stuck:
  assumes "wf_problem P" "search_inv P [] pre ((False, j) # suf) cache"
  shows "\<not> solvable P {} (start P)"
  using all_dead[OF assms] by (simp add: run_def)

lemma legal_chosen:
  "(\<And>k. k < length is \<Longrightarrow> fst (stp P (is ! k) (fold (\<lambda>i s. snd (stp P i s)) (take k is) s))) \<Longrightarrow> legal P s is"
proof (induction "is" arbitrary: s)
  case (Cons i "is")
  have "fst (stp P i s)" using Cons.prems[of 0] by simp
  moreover have "legal P (snd (stp P i s)) is"
  proof (rule Cons.IH)
    fix k assume "k < length is"
    then show "fst (stp P (is ! k) (fold (\<lambda>i s. snd (stp P i s)) (take k is) (snd (stp P i s))))"
      using Cons.prems[of "Suc k"] by simp
  qed
  ultimately show ?case by simp
qed simp

text \<open>A prefix of a linearization, as far as the order goes: nothing left out precedes what is in it.\<close>

definition partial_lin :: "'s problem \<Rightarrow> nat list \<Rightarrow> bool" where
  "partial_lin P is \<longleftrightarrow> distinct is \<and> set is \<subseteq> ops P \<and> legal P (start P) is \<and>
     (\<forall>k < length is. \<forall>j \<in> ops P - set (take k is). \<not> before P j (is ! k))"

lemma inv_partial:
  assumes "wf_problem P" "search_inv P is pre suf cache"
  shows "partial_lin P is"
proof -
  have "\<not> before P j (is ! k)" if "k < length is" "j \<in> ops P - set (take k is)" for k j
  proof -
    from inv_parts(5)[OF assms(2) that(1)] obtain p q where
      "cur P (set (take k is)) = p @ (True, is ! k) # q" "\<forall>t \<in> set p. fst t" by (auto simp: chosen_def)
    then have "is ! k \<in> cands P (set (take k is))" by (simp add: cands_def takeWhile_append)
    then show ?thesis using cands_iff[OF assms(1)] that(2) by blast
  qed
  moreover have "legal P (start P) is"
    using inv_parts(5)[OF assms(2)] by (intro legal_chosen) (simp add: chosen_def run_def)
  ultimately show ?thesis using inv_parts(1,2)[OF assms(2)] by (simp add: partial_lin_def)
qed

lemma partial_lin_ordered:
  assumes "partial_lin P is"
  shows "ordered P is"
  unfolding ordered_def sorted_wrt_iff_nth_less
proof (intro allI impI)
  fix k l assume kl: "k < l" "l < length is"
  have d: "distinct is" "set is \<subseteq> ops P" using assms by (auto simp: partial_lin_def)
  have "is ! l \<in> ops P" using d(2) kl(2) nth_mem by blast
  moreover have "is ! l \<notin> set (take k is)" using d(1) kl by (auto simp: in_set_conv_nth nth_eq_iff_index_eq)
  ultimately show "\<not> before P (is ! l) (is ! k)" using assms kl by (simp add: partial_lin_def)
qed

lemma cur_Nil:
  assumes "wf_problem P" "cur P S = []"
  shows "ops P \<subseteq> S"
proof
  fix i assume i: "i \<in> ops P"
  then show "i \<in> S" using wf_problemD(1)[OF assms(1) i] assms(2) set_cur[of P S] by force
qed

lemma inv_done:
  assumes "wf_problem P" "search_inv P is [] [] cache"
  shows "set is = ops P" "solvable P {} (start P)"
proof -
  show "set is = ops P" using cur_Nil[OF assms(1)] inv_parts(2,3)[OF assms(2)] by force
  then show "solvable P {} (start P)"
    using inv_partial[OF assms] partial_lin_ordered[of P "is"] unfolding solvable_def partial_lin_def by auto
qed

text \<open>The search always has an entry to look at, as the last one in the list is a return.\<close>

lemma inv_suf:
  assumes "wf_problem P" "search_inv P is pre [] cache"
  shows "pre = []"
proof (rule ccontr)
  assume "pre \<noteq> []"
  then obtain c i where "(c, i) \<in> set (cur P (set is))" using inv_parts(3)[OF assms(2)] by (cases pre) auto
  then have "i \<in> ops P" "i \<notin> set is" by (force simp: set_cur ops_def)+
  then have "(False, i) \<in> set (cur P (set is))" using wf_problemD(2)[OF assms(1)] by (simp add: set_cur)
  then show False using inv_parts(3,4)[OF assms(2)] by auto
qed

lemma cur_insert:
  assumes "wf_problem P" "i \<in> ops P" "i \<notin> S"
  obtains p q r where "cur P S = p @ (True, i) # q @ (False, i) # r" "cur P (insert i S) = p @ q @ r"
proof -
  from assms obtain xs ys zs where t: "toks P = xs @ (True, i) # ys @ (False, i) # zs" "distinct (toks P)"
    unfolding wf_problem_def by blast
  have other: "snd t \<noteq> i" if "t \<in> set (xs @ ys @ zs)" for t
  proof
    assume "snd t = i"
    then have "t = (True, i) \<or> t = (False, i)" by (cases t) auto
    then show False using t that by auto
  qed
  then have "filter (\<lambda>t. snd t \<notin> insert i S) ws = filter (\<lambda>t. snd t \<notin> S) ws" if "set ws \<subseteq> set (xs @ ys @ zs)" for ws
    using that by (intro filter_cong) auto
  from this[of xs] this[of ys, OF subsetI] this[of zs, OF subsetI] show ?thesis
    using assms(3) that[of "filter (\<lambda>t. snd t \<notin> S) xs" "filter (\<lambda>t. snd t \<notin> S) ys" "filter (\<lambda>t. snd t \<notin> S) zs"]
    by (simp add: cur_def t(1))
qed

end
