(* ===== verification/Porcupine_Simulation.thy ===== *)
theory Porcupine_Simulation
  imports Porcupine_List Porcupine_Search
begin

text \<open>
  The loop of \<open>checkSingle\<close> does the abstract search: its heap, bitset, cache and stack of calls represent the
  search's list of operations and set of pairs tried. Every round is a step of the search and never panics.
\<close>

section \<open>Representation\<close>

text \<open>The heap at the start: the head and then the entries of the problem, in order.\<close>

definition laid_out :: "('s, 'i, 'o) Model \<Rightarrow> 's problem \<Rightarrow> (bool \<times> nat \<Rightarrow> nat) \<Rightarrow> nat \<Rightarrow> ('i, 'o) heap \<Rightarrow> bool" where
  "laid_out model P adr hp h0 \<longleftrightarrow>
     inj_on adr (set (toks P)) \<and> hp \<notin> adr ` set (toks P) \<and> seg h0 None (hp # map adr (toks P)) None \<and>
     (\<forall>i \<in> ops P. nd_match (h0 ! adr (True, i)) = Some (adr (False, i)) \<and> nd_match (h0 ! adr (False, i)) = None \<and>
        nd_id (h0 ! adr (True, i)) = int i \<and>
        (\<forall>s. step_values model s (nd_value (h0 ! adr (True, i))) (nd_value (h0 ! adr (False, i))) = Some (stp P i s)))"

definition heap_at :: "('i, 'o) heap \<Rightarrow> (bool \<times> nat \<Rightarrow> nat) \<Rightarrow> nat list \<Rightarrow> ('i, 'o) heap option" where
  "heap_at h0 adr is = foldl (\<lambda>h i. Option.bind h (\<lambda>h. lift h (adr (True, i)))) (Some h0) is"

definition cache_rep :: "nat \<Rightarrow> 's cache \<Rightarrow> (nat set \<times> 's) set \<Rightarrow> bool" where
  "cache_rep cap cache C \<longleftrightarrow> (\<forall>k. \<forall>x \<in> set (cache k). bs_hash (fst x) = k \<and> length (fst x) = cap) \<and>
     C = (\<lambda>x. (elems (fst x), snd x)) ` (\<Union>k. set (cache k))"

text \<open>Every sequence in \<open>longest\<close> is a partial linearization that holds the operation it is kept for.\<close>

definition longest_ok :: "'s problem \<Rightarrow> nat \<Rightarrow> int list option list \<Rightarrow> bool" where
  "longest_ok P n longest \<longleftrightarrow> length longest = n \<and>
     (\<forall>k < n. \<forall>seq. longest ! k = Some seq \<longrightarrow> int k \<in> set seq \<and> (\<exists>is. seq = map int is \<and> partial_lin P is))"

definition calls_at :: "'s problem \<Rightarrow> (bool \<times> nat \<Rightarrow> nat) \<Rightarrow> nat list \<Rightarrow> (nat \<times> 's) list" where
  "calls_at P adr is = map (\<lambda>k. (adr (True, is ! k), run P (take k is))) [0..<length is]"

definition sim ::
    "'s problem \<Rightarrow> (bool \<times> nat \<Rightarrow> nat) \<Rightarrow> ('i, 'o) heap \<Rightarrow> nat \<Rightarrow> nat list \<Rightarrow> (bool \<times> nat) list \<Rightarrow> (nat set \<times> 's) set
      \<Rightarrow> ('s, 'i, 'o) search \<Rightarrow> bool" where
  "sim P adr h0 n is suf C st \<longleftrightarrow>
     heap_at h0 adr is = Some (se_heap st) \<and> se_calls st = calls_at P adr is \<and> se_state st = run P is \<and>
     length (se_linearized st) = length (newBitset n) \<and> elems (se_linearized st) = set is \<and>
     cache_rep (length (newBitset n)) (se_cache st) C \<and> longest_ok P n (se_longest st) \<and>
     se_entry st = first (map adr suf) None"

section \<open>The heap\<close>

lemma heap_at_Nil [simp]: "heap_at h0 adr [] = Some h0"
  by (simp add: heap_at_def)

lemma heap_at_snoc [simp]: "heap_at h0 adr (is @ [i]) = Option.bind (heap_at h0 adr is) (\<lambda>h. lift h (adr (True, i)))"
  by (simp add: heap_at_def)

lemma ops_toks: "wf_problem P \<Longrightarrow> i \<in> ops P \<Longrightarrow> (c, i) \<in> set (toks P)"
  using wf_problemD[of P i] by (cases c) auto

lemma distinct_addresses:
  assumes "wf_problem P" "laid_out model P adr hp h0"
  shows "distinct (hp # map adr (cur P S))"
proof -
  have "set (cur P S) \<subseteq> set (toks P)" by (auto simp: set_cur)
  moreover have "distinct (cur P S)" using assms(1) by (simp add: cur_def wf_problem_def)
  ultimately show ?thesis using assms(2) by (auto simp: laid_out_def distinct_map intro: inj_on_subset)
qed

lemma heap_step:
  assumes "wf_problem P" "laid_out model P adr hp h0" "i \<in> ops P" "i \<notin> S"
    "seg h None (hp # map adr (cur P S)) None" "same_nodes h h0"
  obtains h' where "lift h (adr (True, i)) = Some h'" "seg h' None (hp # map adr (cur P (insert i S))) None"
    "same_nodes h' h0" "unlift h' (adr (True, i)) = Some h"
proof -
  obtain p q r where pqr: "cur P S = p @ (True, i) # q @ (False, i) # r" "cur P (insert i S) = p @ q @ r"
    by (rule cur_insert[OF assms(1,3,4)])
  obtain xs x where xs: "hp # map adr p = xs @ [x]" by (metis append_butlast_last_id list.distinct(1))
  have eq: "xs @ [x] @ adr (True, i) # map adr q @ adr (False, i) # map adr r = hp # map adr (cur P S)"
    using xs pqr(1) by (metis append_Cons append_assoc list.simps(9) map_append)
  have eq': "xs @ [x] @ map adr q @ map adr r = hp # map adr (cur P (insert i S))"
    using xs pqr(2) by (metis append_Cons append_assoc map_append)
  have bound: "adr (True, i) < length h0"
    using assms(2) ops_toks[OF assms(1,3), of True] seg_bounded[of h0 None "hp # map adr (toks P)" None]
    by (auto simp: laid_out_def simp del: seg.simps)
  then have m: "nd_match (h ! adr (True, i)) = Some (adr (False, i))"
    using same_nodesD(3)[OF assms(6)] assms(2,3) by (simp add: laid_out_def)
  have d: "distinct (xs @ [x] @ adr (True, i) # map adr q @ adr (False, i) # map adr r)"
    unfolding eq by (rule distinct_addresses[OF assms(1,2)])
  have s: "seg h None (xs @ [x] @ adr (True, i) # map adr q @ adr (False, i) # map adr r) None" unfolding eq by (rule assms(5))
  from lifted[OF s d m] obtain h' where h': "lift h (adr (True, i)) = Some h'" "seg h' None (xs @ [x] @ map adr q @ map adr r) None"
    "same_nodes h' h" "unlift h' (adr (True, i)) = Some h" .
  then show ?thesis using that assms(6) unfolding eq' same_nodes_def by simp
qed

lemma heap_ok:
  assumes "wf_problem P" "laid_out model P adr hp h0" "distinct is" "set is \<subseteq> ops P"
  shows "\<exists>h. heap_at h0 adr is = Some h \<and> seg h None (hp # map adr (cur P (set is))) None \<and> same_nodes h h0"
  using assms(3,4)
proof (induction "is" rule: rev_induct)
  case Nil
  then show ?case using assms(2) by (simp add: cur_def laid_out_def same_nodes_def)
next
  case (snoc i "is")
  then obtain h where h: "heap_at h0 adr is = Some h" "seg h None (hp # map adr (cur P (set is))) None" "same_nodes h h0" by auto
  from snoc.prems have i: "i \<in> ops P" "i \<notin> set is" by auto
  from heap_step[OF assms(1,2) i h(2,3)] obtain h' where "lift h (adr (True, i)) = Some h'"
    "seg h' None (hp # map adr (cur P (insert i (set is)))) None" "same_nodes h' h0" by blast
  then show ?case using h(1) by (simp del: seg.simps)
qed

lemma heap_unlift:
  assumes "wf_problem P" "laid_out model P adr hp h0" "distinct (is @ [i])" "set (is @ [i]) \<subseteq> ops P"
    "heap_at h0 adr (is @ [i]) = Some h'"
  obtains h where "heap_at h0 adr is = Some h" "unlift h' (adr (True, i)) = Some h"
proof -
  obtain h where h: "heap_at h0 adr is = Some h" "seg h None (hp # map adr (cur P (set is))) None" "same_nodes h h0"
    using heap_ok[OF assms(1,2), of "is"] assms(3,4) by auto
  from assms(3,4) have i: "i \<in> ops P" "i \<notin> set is" by auto
  from heap_step[OF assms(1,2) i h(2,3)] obtain h2 where "lift h (adr (True, i)) = Some h2" "unlift h2 (adr (True, i)) = Some h" by blast
  then show ?thesis using that h(1) assms(5) by simp
qed

lemma node_facts:
  assumes "wf_problem P" "laid_out model P adr hp h0" "i \<in> ops P" "same_nodes h h0"
  shows "adr (c, i) < length h" "nd_match (h ! adr (True, i)) = Some (adr (False, i))" "nd_match (h ! adr (False, i)) = None"
    "nd_id (h ! adr (True, i)) = int i"
    "step_values model s (nd_value (h ! adr (True, i))) (nd_value (h ! adr (False, i))) = Some (stp P i s)"
proof -
  have b: "adr (c, i) < length h0" for c
    using assms(2) ops_toks[OF assms(1,3), of c] seg_bounded[of h0 None "hp # map adr (toks P)" None]
    by (auto simp: laid_out_def simp del: seg.simps)
  then show "adr (c, i) < length h" using same_nodesD(1)[OF assms(4)] by simp
  show "nd_match (h ! adr (True, i)) = Some (adr (False, i))" "nd_match (h ! adr (False, i)) = None"
    "nd_id (h ! adr (True, i)) = int i"
    "step_values model s (nd_value (h ! adr (True, i))) (nd_value (h ! adr (False, i))) = Some (stp P i s)"
    using same_nodesD(2-4)[OF assms(4) b] assms(2,3) by (simp_all add: laid_out_def)
qed

lemma seg_next:
  assumes "seg h p (xs @ x # ys) q"
  shows "nd_next (h ! x) = first ys q"
  using assms by (simp add: seg_append)

section \<open>The stack of calls and the cache\<close>

lemma calls_at_simps [simp]:
  "calls_at P adr [] = []" "calls_at P adr (is @ [i]) = calls_at P adr is @ [(adr (True, i), run P is)]"
  "length (calls_at P adr is) = length is"
  by (auto simp: calls_at_def nth_append)

lemma ids_of_calls:
  assumes "\<And>i. i \<in> set is \<Longrightarrow> adr (True, i) < length h \<and> nd_id (h ! adr (True, i)) = int i"
  shows "ids_of h (calls_at P adr is) = Some (map int is)"
proof -
  have app: "ids_of h (xs @ [(a, s)]) = do { is \<leftarrow> ids_of h xs; n \<leftarrow> deref h (Some a); Some (is @ [nd_id n]) }" for xs a s
    by (induction xs) (auto split: Option.bind_splits)
  show ?thesis using assms by (induction "is" rule: rev_induct) (simp_all add: app store_simps(1))
qed

lemma cache_repD:
  assumes "cache_rep cap cache C"
  shows "x \<in> set (cache k) \<Longrightarrow> length (fst x) = cap" "x \<in> set (cache k) \<Longrightarrow> bs_hash (fst x) = k"
    "c \<in> C \<longleftrightarrow> (\<exists>k. \<exists>x \<in> set (cache k). c = (elems (fst x), snd x))"
  using assms unfolding cache_rep_def by (simp_all, blast)

lemma cacheContains_iff:
  assumes "m_Equal model = (=)" "cache_rep cap cache C" "length b = cap"
  shows "cacheContains model cache (b, s) \<longleftrightarrow> (elems b, s) \<in> C"
proof
  assume "cacheContains model cache (b, s)"
  then obtain x where x: "x \<in> set (cache (bs_hash b))" "bs_equals b (fst x)" "s = snd x"
    unfolding cacheContains_def list_ex_iff assms(1) by auto
  then have "elems b = elems (fst x)" using bs_equals_iff[of b "fst x"] cache_repD(1)[OF assms(2) x(1)] assms(3) by simp
  then show "(elems b, s) \<in> C" unfolding cache_repD(3)[OF assms(2)] using x by blast
next
  assume "(elems b, s) \<in> C"
  then obtain k x where x: "x \<in> set (cache k)" "elems b = elems (fst x)" "s = snd x"
    unfolding cache_repD(3)[OF assms(2)] by blast
  have "length b = length (fst x)" using cache_repD(1)[OF assms(2) x(1)] assms(3) by simp
  then have "b = fst x" "bs_equals b (fst x)" using x(2) bs_elems_inj bs_equals_iff by blast+
  moreover from this have "x \<in> set (cache (bs_hash b))" using cache_repD(2)[OF assms(2) x(1)] x(1) by simp
  ultimately show "cacheContains model cache (b, s)"
    unfolding cacheContains_def list_ex_iff assms(1) fst_conv snd_conv using x(3) by blast
qed

lemma cache_rep_insert:
  assumes "cache_rep cap cache C" "length b = cap"
  shows "cache_rep cap (cache(bs_hash b := cache (bs_hash b) @ [(b, s)])) (insert (elems b, s) C)"
proof -
  let ?cache = "cache(bs_hash b := cache (bs_hash b) @ [(b, s)])"
  have "x \<in> (\<Union>k. set (?cache k)) \<longleftrightarrow> x = (b, s) \<or> x \<in> (\<Union>k. set (cache k))" for x
  proof
    assume "x = (b, s) \<or> x \<in> (\<Union>k. set (cache k))"
    then show "x \<in> (\<Union>k. set (?cache k))"
    proof
      assume "x \<in> (\<Union>k. set (cache k))"
      then obtain k where "x \<in> set (cache k)" by blast
      then have "x \<in> set (?cache k)" by auto
      then show ?thesis by blast
    next
      assume "x = (b, s)"
      then have "x \<in> set (?cache (bs_hash b))" by simp
      then show ?thesis by blast
    qed
  qed (auto split: if_splits)
  then have "(\<Union>k. set (?cache k)) = insert (b, s) (\<Union>k. set (cache k))" by blast
  moreover have "bs_hash (fst x) = k \<and> length (fst x) = cap" if "x \<in> set (?cache k)" for k x
    using that assms by (auto simp: cache_rep_def split: if_splits)
  ultimately show ?thesis using assms(1) unfolding cache_rep_def by simp
qed

lemma longest_loop_ok:
  assumes "partial_lin P is" "set js \<subseteq> set is" "set is \<subseteq> {..<n}" "longest_ok P n longest"
  shows "\<exists>longest'. longest_loop (map int is) (map int js) longest = Some longest' \<and> longest_ok P n longest'"
  using assms(2,4)
proof (induction js arbitrary: longest)
  case (Cons j js)
  have j: "j \<in> set is" "j < n" "length longest = n" using Cons.prems assms(3) by (auto simp: longest_ok_def)
  have "longest_ok P n (longest[j := Some (map int is)])"
    using Cons.prems(2) j assms(1) by (auto simp: longest_ok_def nth_list_update)
  with Cons.IH[of longest] Cons.IH[of "longest[j := Some (map int is)]"] Cons.prems j show ?case
    by (auto simp: go_nth_def go_set_def)
qed simp

end
