(* ===== verification/Porcupine_Rounds.thy ===== *)
theory Porcupine_Rounds
  imports Porcupine_Simulation
begin

text \<open>
  The rounds of \<open>checkSingle\<close> one by one, and then its loop: it ends, and returns true exactly if the problem
  has a linearization.
\<close>

section \<open>Rounds\<close>

definition running :: "('s, 'i, 'o) Model \<Rightarrow> 's problem \<Rightarrow> (bool \<times> nat \<Rightarrow> nat) \<Rightarrow> nat \<Rightarrow> ('i, 'o) heap \<Rightarrow> nat \<Rightarrow> bool" where
  "running model P adr hp h0 n \<longleftrightarrow> wf_problem P \<and> laid_out model P adr hp h0 \<and> ops P = {..<n} \<and> m_Equal model = (=)"

lemma runningD:
  assumes "running model P adr hp h0 n"
  shows "wf_problem P" "laid_out model P adr hp h0" "i \<in> ops P \<Longrightarrow> i < n" "m_Equal model = (=)"
  using assms by (auto simp: running_def)

definition never :: "nat \<Rightarrow> bool" where
  "never r = False"

text \<open>What the simulation gives in every round.\<close>

lemma sim_heap:
  assumes "running model P adr hp h0 n" "search_inv P is pre suf C" "sim P adr h0 n is suf C st"
  shows "seg (se_heap st) None (hp # map adr pre @ map adr suf) None" "same_nodes (se_heap st) h0"
    "ids_of (se_heap st) (se_calls st) = Some (map int is)"
    "deref (se_heap st) (Some hp) = Some (se_heap st ! hp)" "nd_next (se_heap st ! hp) = first (map adr (pre @ suf)) None"
proof -
  note r = runningD[OF assms(1)]
  have h: "heap_at h0 adr is = Some (se_heap st)" using assms(3) by (simp add: sim_def)
  from heap_ok[OF r(1,2) inv_parts(1,2)[OF assms(2)]] h
  have "seg (se_heap st) None (hp # map adr (cur P (set is))) None" "same_nodes (se_heap st) h0" by auto
  then show s: "seg (se_heap st) None (hp # map adr pre @ map adr suf) None" "same_nodes (se_heap st) h0"
    using inv_parts(3)[OF assms(2)] by simp_all
  have "ids_of (se_heap st) (calls_at P adr is) = Some (map int is)"
  proof (rule ids_of_calls)
    fix i assume "i \<in> set is"
    then have "i \<in> ops P" using inv_parts(2)[OF assms(2)] by blast
    from node_facts(1,4)[OF r(1,2) this s(2)]
    show "adr (True, i) < length (se_heap st) \<and> nd_id (se_heap st ! adr (True, i)) = int i" by blast
  qed
  then show "ids_of (se_heap st) (se_calls st) = Some (map int is)" using assms(3) by (simp add: sim_def)
  show "deref (se_heap st) (Some hp) = Some (se_heap st ! hp)" "nd_next (se_heap st ! hp) = first (map adr (pre @ suf)) None"
    using s(1) by (simp_all add: store_simps(1))
qed

lemma round_done:
  assumes "running model P adr hp h0 n" "search_inv P is [] [] C" "sim P adr h0 n is [] C st"
  shows "check_round model computePartial never hp st = Some (Inl (True, replicate n (Some (map int is))))"
proof -
  have "length (se_longest st) = n" using assms(3) by (simp add: sim_def longest_ok_def)
  then show ?thesis using sim_heap(3-5)[OF assms] by (simp add: check_round_def map_replicate_const)
qed

text \<open>The entry is a call: its step, and the entry for the cache.\<close>

lemma call_facts:
  assumes "running model P adr hp h0 n" "search_inv P is pre ((True, i) # suf) C" "sim P adr h0 n is ((True, i) # suf) C st"
  shows "se_entry st = Some (adr (True, i))" "deref (se_heap st) (Some (adr (c, i))) = Some (se_heap st ! adr (c, i))"
    "nd_match (se_heap st ! adr (True, i)) = Some (adr (False, i))" "nd_id (se_heap st ! adr (True, i)) = int i"
    "step_values model s (nd_value (se_heap st ! adr (True, i))) (nd_value (se_heap st ! adr (False, i))) = Some (stp P i s)"
    "nd_next (se_heap st ! adr (True, i)) = first (map adr suf) None" "nd_next (se_heap st ! hp) \<noteq> None"
    "se_state st = run P is"
    "\<exists>b. bs_set (se_linearized st) i = Some b \<and> length b = length (newBitset n) \<and> elems b = insert i (set is)"
proof -
  note r = runningD[OF assms(1)]
  note h = sim_heap[OF assms]
  have i: "i \<in> ops P" using inv_op[OF assms(2)] by blast
  show "deref (se_heap st) (Some (adr (c, i))) = Some (se_heap st ! adr (c, i))"
    using node_facts(1)[OF r(1,2) i h(2)] by (simp add: store_simps(1))
  show "nd_match (se_heap st ! adr (True, i)) = Some (adr (False, i))" "nd_id (se_heap st ! adr (True, i)) = int i"
    "step_values model s (nd_value (se_heap st ! adr (True, i))) (nd_value (se_heap st ! adr (False, i))) = Some (stp P i s)"
    by (fact node_facts[OF r(1,2) i h(2)])+
  have "seg (se_heap st) None ((hp # map adr pre) @ adr (True, i) # map adr suf) None" using h(1) by simp
  from seg_next[OF this] show "nd_next (se_heap st ! adr (True, i)) = first (map adr suf) None" .
  show "nd_next (se_heap st ! hp) \<noteq> None" using h(5) by (cases pre) simp_all
  show "se_entry st = Some (adr (True, i))" "se_state st = run P is" using assms(3) by (simp_all add: sim_def)
  have "length (se_linearized st) = length (newBitset n)" "elems (se_linearized st) = set is" using assms(3) by (simp_all add: sim_def)
  then show "\<exists>b. bs_set (se_linearized st) i = Some b \<and> length b = length (newBitset n) \<and> elems b = insert i (set is)"
    using bs_set_elems[of i "se_linearized st"] new_capacity[OF r(3)[OF i]] by simp
qed

lemma round_skip:
  assumes "running model P adr hp h0 n" "search_inv P is pre ((True, i) # suf) C" "sim P adr h0 n is ((True, i) # suf) C st"
    "fst (stp P i (run P is)) \<longrightarrow> (insert i (set is), snd (stp P i (run P is))) \<in> C"
  shows "\<exists>st'. check_round model computePartial never hp st = Some (Inr st') \<and> sim P adr h0 n is suf C st'"
proof -
  note c = call_facts[OF assms(1-3)]
  from c(9) obtain b where b: "bs_set (se_linearized st) i = Some b" "length b = length (newBitset n)" "elems b = insert i (set is)" by blast
  have rep: "cache_rep (length (newBitset n)) (se_cache st) C" using assms(3) by (simp add: sim_def)
  have contains: "cacheContains model (se_cache st) (b, snd (stp P i (run P is)))" if "fst (stp P i (run P is))"
    using cacheContains_iff[OF runningD(4)[OF assms(1)] rep b(2)] b(3) assms(4) that by simp
  let ?st' = "st\<lparr>se_entry := first (map adr suf) None, se_round := se_round st + 1\<rparr>"
  have "check_round model computePartial never hp st = Some (Inr ?st')"
    using contains b(1) sim_heap(4)[OF assms(1-3)] c
    by (cases "stp P i (run P is)") (simp add: check_round_def never_def as_uint_def bs_clone_def Let_def del: not_None_eq)
  moreover have "sim P adr h0 n is suf C ?st'" using assms(3) by (simp add: sim_def)
  ultimately show ?thesis by blast
qed

lemma round_push:
  assumes "running model P adr hp h0 n" "search_inv P is pre ((True, i) # suf) C" "sim P adr h0 n is ((True, i) # suf) C st"
    "fst (stp P i (run P is))" "(insert i (set is), snd (stp P i (run P is))) \<notin> C"
  shows "\<exists>st'. check_round model computePartial never hp st = Some (Inr st') \<and>
    sim P adr h0 n (is @ [i]) (cur P (set (is @ [i]))) (insert (set (is @ [i]), run P (is @ [i])) C) st'"
proof -
  note r = runningD[OF assms(1)]
  note c = call_facts[OF assms(1-3)]
  note h = sim_heap[OF assms(1-3)]
  have i: "i \<in> ops P" "i \<notin> set is" using inv_op[OF assms(2)] by auto
  from c(9) obtain b where b: "bs_set (se_linearized st) i = Some b" "length b = length (newBitset n)" "elems b = insert i (set is)" by blast
  let ?s = "snd (stp P i (run P is))"
  have rep: "cache_rep (length (newBitset n)) (se_cache st) C" using assms(3) by (simp add: sim_def)
  have new: "\<not> cacheContains model (se_cache st) (b, ?s)"
    using cacheContains_iff[OF r(4) rep b(2)] b(3) assms(5) by simp
  have "seg (se_heap st) None (hp # map adr (cur P (set is))) None" using h(1) inv_parts(3)[OF assms(2)] by simp
  from heap_step[OF r(1,2) i this h(2)] obtain h' where h': "lift (se_heap st) (adr (True, i)) = Some h'"
    "seg h' None (hp # map adr (cur P (insert i (set is)))) None" by blast
  then have hd: "deref h' (Some hp) = Some (h' ! hp)" "nd_next (h' ! hp) = first (map adr (cur P (insert i (set is)))) None"
    by (simp_all add: store_simps(1))
  let ?st' = "st\<lparr>se_heap := h', se_entry := first (map adr (cur P (insert i (set is)))) None, se_linearized := b,
    se_cache := (se_cache st)(bs_hash b := se_cache st (bs_hash b) @ [(b, ?s)]),
    se_calls := se_calls st @ [(adr (True, i), se_state st)], se_state := ?s, se_round := se_round st + 1\<rparr>"
  have "check_round model computePartial never hp st = Some (Inr ?st')"
    using new b(1) h(4) c assms(4) h'(1) hd
    by (cases "stp P i (run P is)") (simp add: check_round_def never_def as_uint_def bs_clone_def Let_def del: not_None_eq)
  moreover have "sim P adr h0 n (is @ [i]) (cur P (set (is @ [i]))) (insert (set (is @ [i]), run P (is @ [i])) C) ?st'"
    using assms(3) h'(1) b(2,3) cache_rep_insert[OF rep b(2), of ?s] by (simp add: sim_def)
  ultimately show ?thesis by blast
qed

text \<open>The entry is a return: the search is stuck, or steps back.\<close>

lemma return_facts:
  assumes "running model P adr hp h0 n" "search_inv P is pre ((False, j) # suf) C" "sim P adr h0 n is ((False, j) # suf) C st"
  shows "se_entry st = Some (adr (False, j))" "deref (se_heap st) (Some (adr (False, j))) = Some (se_heap st ! adr (False, j))"
    "nd_match (se_heap st ! adr (False, j)) = None" "nd_next (se_heap st ! hp) \<noteq> None"
proof -
  note r = runningD[OF assms(1)]
  note h = sim_heap[OF assms]
  have j: "j \<in> ops P" using inv_op[OF assms(2)] by blast
  show "deref (se_heap st) (Some (adr (False, j))) = Some (se_heap st ! adr (False, j))"
    using node_facts(1)[OF r(1,2) j h(2)] by (simp add: store_simps(1))
  show "nd_match (se_heap st ! adr (False, j)) = None" by (rule node_facts(3)[OF r(1,2) j h(2)])
  show "nd_next (se_heap st ! hp) \<noteq> None" using h(5) by (cases pre) simp_all
  show "se_entry st = Some (adr (False, j))" using assms(3) by (simp add: sim_def)
qed

lemma round_stuck:
  assumes "running model P adr hp h0 n" "search_inv P [] pre ((False, j) # suf) C" "sim P adr h0 n [] ((False, j) # suf) C st"
  shows "check_round model computePartial never hp st = Some (Inl (False, se_longest st))"
proof -
  have "se_calls st = []" using assms(3) by (simp add: sim_def)
  then show ?thesis using return_facts[OF assms] sim_heap(4)[OF assms] by (simp add: check_round_def never_def del: not_None_eq)
qed

lemma round_pop:
  assumes "running model P adr hp h0 n" "search_inv P (is @ [i]) pre ((False, j) # suf) C"
    "sim P adr h0 n (is @ [i]) ((False, j) # suf) C st" "cur P (set is) = p @ (True, i) # q"
  shows "\<exists>st'. check_round model computePartial never hp st = Some (Inr st') \<and> sim P adr h0 n is q C st'"
proof -
  note r = runningD[OF assms(1)]
  note c = return_facts[OF assms(1-3)]
  note h = sim_heap[OF assms(1-3)]
  note d = inv_parts(1,2)[OF assms(2)]
  have i: "i \<in> ops P" "i \<notin> set is" using d by auto
  have at: "heap_at h0 adr (is @ [i]) = Some (se_heap st)" using assms(3) by (simp add: sim_def)
  from heap_unlift[OF r(1,2) d at] obtain h' where h': "heap_at h0 adr is = Some h'" "unlift (se_heap st) (adr (True, i)) = Some h'" .
  have ok: "seg h' None (hp # map adr (cur P (set is))) None" "same_nodes h' h0" using heap_ok[OF r(1,2), of "is"] d h'(1) by auto
  then have "seg h' None ((hp # map adr p) @ adr (True, i) # map adr q) None" using assms(4) by simp
  from seg_next[OF this] have next_i: "nd_next (h' ! adr (True, i)) = first (map adr q) None" .
  have deref: "deref h' (Some (adr (True, i))) = Some (h' ! adr (True, i))"
    "deref (se_heap st) (Some (adr (True, i))) = Some (se_heap st ! adr (True, i))" "nd_id (se_heap st ! adr (True, i)) = int i"
    using node_facts(1)[OF r(1,2) i(1) ok(2)] node_facts(1,4)[OF r(1,2) i(1) h(2)] by (simp_all add: store_simps(1))
  have calls: "se_calls st = calls_at P adr is @ [(adr (True, i), run P is)]" using assms(3) by (simp add: sim_def)
  have lin: "length (se_linearized st) = length (newBitset n)" "elems (se_linearized st) = insert i (set is)" using assms(3) by (simp_all add: sim_def)
  then obtain b where b: "bs_clear (se_linearized st) i = Some b" "length b = length (newBitset n)" "elems b = set is"
    using bs_clear_elems[of i "se_linearized st"] new_capacity[OF r(3)[OF i(1)]] i(2) by auto
  have "set (is @ [i]) \<subseteq> {..<n}" using d(2) r(3) by auto
  from longest_loop_ok[OF inv_partial[OF r(1) assms(2)] subset_refl this, of "se_longest st"] obtain longest where
    "longest_loop (map int (is @ [i])) (map int (is @ [i])) (se_longest st) = Some longest" "longest_ok P n longest"
    using assms(3) by (auto simp: sim_def)
  then obtain longest' where l: "(if computePartial then longest_loop (map int (is @ [i])) (map int (is @ [i])) (se_longest st)
      else Some (se_longest st)) = Some longest'" "longest_ok P n longest'"
    using assms(3) by (cases computePartial) (auto simp: sim_def)
  let ?st' = "st\<lparr>se_heap := h', se_entry := first (map adr q) None, se_linearized := b,
    se_calls := calls_at P adr is, se_state := run P is, se_longest := longest', se_round := se_round st + 1\<rparr>"
  have "check_round model computePartial never hp st = Some (Inr ?st')"
    using c h(3,4) calls deref b(1) h'(2) next_i l(1) by (simp add: check_round_def never_def as_uint_def Let_def del: not_None_eq cong: if_cong)
  moreover have "sim P adr h0 n is q C ?st'" using assms(3) h'(1) b(2,3) l(2) by (simp add: sim_def)
  ultimately show ?thesis by blast
qed

section \<open>The loop\<close>

definition checked :: "'s problem \<Rightarrow> nat \<Rightarrow> bool \<times> int list option list \<Rightarrow> bool" where
  "checked P n result \<longleftrightarrow> (fst result \<longleftrightarrow> solvable P {} (start P)) \<and> longest_ok P n (snd result) \<and>
     (fst result \<longrightarrow> (\<exists>is. set is = ops P \<and> partial_lin P is \<and> snd result = replicate n (Some (map int is))))"

definition fewer :: "'s problem \<Rightarrow> ((nat set \<times> 's) set \<times> nat list \<times> (bool \<times> nat) list) rel" where
  "fewer P = inv_image (less_than <*lex*> less_than <*lex*> less_than) (\<lambda>(C, is, suf). (card (tried P - C), length is, length suf))"

lemma wf_fewer: "wf (fewer P)"
  unfolding fewer_def by (intro wf_inv_image wf_lex_prod wf_less_than)

lemma fewer_cache:
  assumes "c \<in> tried P" "c \<notin> C"
  shows "((insert c C, is', suf'), (C, is, suf)) \<in> fewer P"
proof -
  have "tried P - insert c C \<subset> tried P - C" using assms by blast
  then have "card (tried P - insert c C) < card (tried P - C)" by (intro psubset_card_mono finite_Diff finite_tried)
  then show ?thesis by (simp add: fewer_def)
qed

lemma round_ok:
  assumes "running model P adr hp h0 n" "search_inv P is pre suf C" "sim P adr h0 n is suf C st"
  shows "(\<exists>result. check_round model computePartial never hp st = Some (Inl result) \<and> checked P n result) \<or>
    (\<exists>st' is' pre' suf' C'. check_round model computePartial never hp st = Some (Inr st') \<and> search_inv P is' pre' suf' C' \<and>
       sim P adr h0 n is' suf' C' st' \<and> ((C', is', suf'), (C, is, suf)) \<in> fewer P)"
proof (cases suf)
  case Nil
  have pre: "pre = []" using inv_suf[OF runningD(1)[OF assms(1)]] assms(2) Nil by simp
  note inv = assms(2)[unfolded Nil pre]
  have part: "partial_lin P is" "set is = ops P" "solvable P {} (start P)"
    using inv_partial[OF runningD(1)[OF assms(1)] inv] inv_done[OF runningD(1)[OF assms(1)] inv] by auto
  have "longest_ok P n (replicate n (Some (map int is)))"
    using part assms(1) unfolding running_def by (auto simp: longest_ok_def)
  then show ?thesis using round_done[OF assms(1) inv] assms(3) Nil part by (auto simp: checked_def)
next
  case (Cons t suf')
  obtain c i where t: "t = (c, i)" by (cases t)
  note inv = assms(2)[unfolded Cons t] and sm = assms(3)[unfolded Cons t]
  show ?thesis
  proof (cases c)
    case True
    then have c: "c = True" by simp
    note inv = inv[unfolded c] and sm = sm[unfolded c]
    let ?new = "(insert i (set is), snd (stp P i (run P is)))"
    show ?thesis
    proof (cases "fst (stp P i (run P is)) \<and> ?new \<notin> C")
      case True
      then have ok: "fst (stp P i (run P is))" "?new \<notin> C" by auto
      note inv' = inv_push[OF inv ok(1)]
      have "((insert (set (is @ [i]), run P (is @ [i])) C, is @ [i], cur P (set (is @ [i]))), (C, is, suf)) \<in> fewer P"
        using inv_parts(6)[OF inv'] ok(2) by (intro fewer_cache) auto
      then show ?thesis using round_push[OF assms(1) inv sm ok] inv' by blast
    next
      case False
      then have "dead P is i" using cached_dead[OF inv] by (auto simp: dead_def)
      note inv' = inv_skip[OF inv this]
      have "((C, is, suf'), (C, is, suf)) \<in> fewer P" using Cons by (simp add: fewer_def)
      then show ?thesis using round_skip[OF assms(1) inv sm] inv' False by blast
    qed
  next
    case False
    then have c: "c = False" by simp
    note inv = inv[unfolded c] and sm = sm[unfolded c]
    show ?thesis
    proof (cases "is" rule: rev_exhaust)
      case Nil
      have "checked P n (False, se_longest st)"
        using inv_stuck[OF runningD(1)[OF assms(1)] inv[unfolded Nil]] assms(3) by (simp add: checked_def sim_def)
      then show ?thesis using round_stuck[OF assms(1) inv[unfolded Nil] sm[unfolded Nil]] by blast
    next
      case (snoc is' k)
      from inv_pop[OF runningD(1)[OF assms(1)] inv[unfolded snoc]] obtain p q where
        pq: "cur P (set is') = p @ (True, k) # q" "search_inv P is' (p @ [(True, k)]) q C" .
      have "((C, is', q), (C, is, suf)) \<in> fewer P" using snoc by (simp add: fewer_def)
      then show ?thesis using round_pop[OF assms(1) inv[unfolded snoc] sm[unfolded snoc] pq(1)] pq(2) by blast
    qed
  qed
qed

lemma loop_ok:
  assumes "running model P adr hp h0 n" "search_inv P is pre suf C" "sim P adr h0 n is suf C st"
  shows "\<exists>result. check_loop model computePartial never hp st = Some result \<and> checked P n result"
  using assms(2,3)
proof (induction "(C, is, suf)" arbitrary: C "is" pre suf st rule: wf_induct_rule[OF wf_fewer[of P]])
  case 1
  from round_ok[OF assms(1) 1(2,3), of computePartial] show ?case
  proof (elim disjE exE conjE)
    fix result assume "check_round model computePartial never hp st = Some (Inl result)" "checked P n result"
    then show ?case by (subst check_loop.simps) simp
  next
    fix st' is' pre' suf' C' assume r: "check_round model computePartial never hp st = Some (Inr st')"
      "search_inv P is' pre' suf' C'" "sim P adr h0 n is' suf' C' st'" "((C', is', suf'), (C, is, suf)) \<in> fewer P"
    from 1(1)[OF r(4,2,3)] show ?case using r(1) by (subst check_loop.simps) simp
  qed
qed

end
