(* ===== verification/Porcupine_Correct.thy ===== *)
theory Porcupine_Correct
  imports Porcupine_Rounds
begin

text \<open>
  \<open>checkSingle\<close> on a list of entries: the list that \<open>makeLinkedEntries\<close> builds lays the entries out for the search.
\<close>

section \<open>The problem of a list of entries\<close>

definition tok :: "('i, 'o) entry \<Rightarrow> bool \<times> nat" where
  "tok e = (is_call (en_value e), nat (en_id e))"

definition problem_of :: "('s, 'i, 'o) Model \<Rightarrow> (nat \<Rightarrow> 'i) \<Rightarrow> (nat \<Rightarrow> 'o) \<Rightarrow> ('i, 'o) entry list \<Rightarrow> 's problem" where
  "problem_of model inp out es = \<lparr>toks = map tok es, stp = (\<lambda>i s. m_Step model s (inp i) (out i)), start = m_Init model\<rparr>"

text \<open>The entries carry the inputs and outputs of the operations.\<close>

definition carries :: "(nat \<Rightarrow> 'i) \<Rightarrow> (nat \<Rightarrow> 'o) \<Rightarrow> ('i, 'o) entry \<Rightarrow> bool" where
  "carries inp out e \<longleftrightarrow> 0 \<le> en_id e \<and>
     (en_value e = CallOf (inp (nat (en_id e))) \<or> en_value e = ReturnOf (out (nat (en_id e))))"

definition adr_of :: "('i, 'o) entry list \<Rightarrow> bool \<times> nat \<Rightarrow> nat" where
  "adr_of es t = length es - 1 - length (takeWhile (\<lambda>x. x \<noteq> t) (map tok es))"

lemma takeWhile_nth: "distinct ts \<Longrightarrow> j < length ts \<Longrightarrow> length (takeWhile (\<lambda>x. x \<noteq> ts ! j) ts) = j"
proof (induction ts arbitrary: j)
  case (Cons t ts)
  then show ?case by (cases j) (auto simp: nth_Cons' in_set_conv_nth)
qed simp

lemma adr_of_nth: "distinct (map tok es) \<Longrightarrow> j < length es \<Longrightarrow> adr_of es (tok (es ! j)) = length es - 1 - j"
  unfolding adr_of_def using takeWhile_nth[of "map tok es" j] by simp

lemma map_adr_of: "distinct (map tok es) \<Longrightarrow> map (adr_of es) (map tok es) = rev [0..<length es]"
  by (rule nth_equalityI) (simp_all add: adr_of_nth rev_nth)

lemma inj_adr_of:
  assumes "distinct (map tok es)"
  shows "inj_on (adr_of es) (set (map tok es))"
proof -
  have "distinct (map (adr_of es) (map tok es))" unfolding map_adr_of[OF assms] by simp
  then show ?thesis by (simp only: distinct_map)
qed

text \<open>The returns that \<open>link_loop\<close> has seen.\<close>

fun returns :: "('i, 'o) entry list \<Rightarrow> nat \<Rightarrow> (int \<Rightarrow> nat option) \<Rightarrow> int \<Rightarrow> nat option" where
  "returns [] a match = match"
| "returns (e # es) a match = returns es (Suc a) (if is_call (en_value e) then match else match(en_id e \<mapsto> a))"

lemma link_fixed_append: "link_fixed (xs @ ys) a match = link_fixed xs a match @ link_fixed ys (a + length xs) (returns xs a match)"
  by (induction xs arbitrary: a match) (simp_all cong: if_cong)

lemma link_fixed_length [simp]: "length (link_fixed xs a match) = length xs"
  by (induction xs arbitrary: a match) simp_all

lemma returns_other: "\<forall>e \<in> set xs. is_call (en_value e) \<or> en_id e \<noteq> i \<Longrightarrow> returns xs a match i = match i"
  by (induction xs arbitrary: a match) auto

lemma returns_append: "returns (xs @ ys) a match = returns ys (a + length xs) (returns xs a match)"
  by (induction xs arbitrary: a match) simp_all

lemma link_fixed_nth:
  assumes "k < length xs"
  shows "link_fixed xs a match ! k = (Some (en_value (xs ! k)),
    if is_call (en_value (xs ! k)) then returns (take k xs) a match (en_id (xs ! k)) else None, en_id (xs ! k))"
proof -
  have "link_fixed (take k xs @ xs ! k # drop (Suc k) xs) a match ! length (link_fixed (take k xs) a match) = (Some (en_value (xs ! k)),
    if is_call (en_value (xs ! k)) then returns (take k xs) a match (en_id (xs ! k)) else None, en_id (xs ! k))"
    unfolding link_fixed_append nth_append_length link_fixed.simps by simp
  then show ?thesis using assms id_take_nth_drop[OF assms] by (simp add: min.absorb2)
qed

lemma returns_take:
  assumes "distinct (map tok xs)" "\<forall>e \<in> set xs. 0 \<le> en_id e" "m < k" "k \<le> length xs" "\<not> is_call (en_value (xs ! m))"
  shows "returns (take k xs) a match (en_id (xs ! m)) = Some (a + m)"
proof -
  have split: "take k xs = take m xs @ xs ! m # drop (Suc m) (take k xs)"
    using assms(3,4) id_take_nth_drop[of m "take k xs"] by (simp add: min.absorb2)
  have "is_call (en_value e) \<or> en_id e \<noteq> en_id (xs ! m)" if "e \<in> set (drop (Suc m) (take k xs))" for e
  proof -
    from that obtain j0 where "j0 < k - Suc m" "e = drop (Suc m) (take k xs) ! j0"
      using assms(4) by (auto simp: in_set_conv_nth min.absorb2)
    then have j: "Suc m + j0 < k" "e = xs ! (Suc m + j0)" using assms(4) by simp_all
    have "map tok xs ! (Suc m + j0) \<noteq> map tok xs ! m"
      using assms(1,4) j(1) by (subst nth_eq_iff_index_eq) simp_all
    then have "tok (xs ! (Suc m + j0)) \<noteq> tok (xs ! m)" using assms(4) j(1) by simp
    then show ?thesis using assms(5) j by (auto simp: tok_def)
  qed
  then show ?thesis
    by (subst split, subst returns_append) (use assms(3-5) in \<open>simp add: returns_other\<close>)
qed

section \<open>The list laid out\<close>

lemma positions:
  assumes "wf_problem (problem_of model inp out es)" "i \<in> ops (problem_of model inp out es)"
  obtains c r where "c < r" "r < length es" "tok (es ! c) = (True, i)" "tok (es ! r) = (False, i)"
proof -
  from assms obtain xs ys zs where t: "map tok es = xs @ (True, i) # ys @ (False, i) # zs"
    unfolding wf_problem_def problem_of_def by auto
  have "length es = length (xs @ (True, i) # ys @ (False, i) # zs)" by (metis t length_map)
  then have l: "length xs < length es" "Suc (length xs + length ys) < length es" by simp_all
  have "map tok es ! length xs = (True, i)" "map tok es ! Suc (length xs + length ys) = (False, i)"
    unfolding t by (simp_all add: nth_append)
  then show ?thesis using l that[of "length xs" "Suc (length xs + length ys)"] by simp
qed

lemma linked_nodes:
  assumes "wf_problem (problem_of model inp out es)" "i \<in> ops (problem_of model inp out es)" "\<forall>e \<in> set es. carries inp out e"
  defines "l \<equiv> link_fixed (rev es) 0 (\<lambda>_. None)"
  shows "adr_of es (c, i) < length es"
    "l ! adr_of es (True, i) = (Some (CallOf (inp i)), Some (adr_of es (False, i)), int i)"
    "l ! adr_of es (False, i) = (Some (ReturnOf (out i)), None, int i)"
proof -
  from positions[OF assms(1,2)] obtain c r where cr: "c < r" "r < length es" "tok (es ! c) = (True, i)" "tok (es ! r) = (False, i)" .
  have d: "distinct (map tok es)" using assms(1) by (simp add: wf_problem_def problem_of_def)
  have adr: "adr_of es (True, i) = length es - 1 - c" "adr_of es (False, i) = length es - 1 - r"
    using adr_of_nth[OF d, of c] adr_of_nth[OF d, of r] cr by simp_all
  then show "adr_of es (b, i) < length es" for b using cr by (cases b) simp_all
  have ent: "rev es ! (length es - 1 - c) = es ! c" "rev es ! (length es - 1 - r) = es ! r" using cr by (simp_all add: rev_nth)
  have "carries inp out (es ! c)" "carries inp out (es ! r)" using assms(3) cr by simp_all
  then have val: "en_value (es ! c) = CallOf (inp i)" "en_value (es ! r) = ReturnOf (out i)" "en_id (es ! c) = int i" "en_id (es ! r) = int i"
    using cr(3,4) by (auto simp: carries_def tok_def)
  show "l ! adr_of es (False, i) = (Some (ReturnOf (out i)), None, int i)"
    using link_fixed_nth[of "length es - 1 - r" "rev es" 0 "\<lambda>_. None"] cr val ent(2) unfolding l_def adr(2) by simp
  have "distinct (map tok (rev es))" using d by (simp flip: rev_map)
  then have "returns (take (length es - 1 - c) (rev es)) 0 (\<lambda>_. None) (int i) = Some (length es - 1 - r)"
    using returns_take[of "rev es" "length es - 1 - r" "length es - 1 - c" 0 "\<lambda>_. None"] assms(3) cr val ent(2)
    by (simp add: carries_def diff_less_mono2)
  then show "l ! adr_of es (True, i) = (Some (CallOf (inp i)), Some (adr_of es (False, i)), int i)"
    using link_fixed_nth[of "length es - 1 - c" "rev es" 0 "\<lambda>_. None"] cr val ent(1) unfolding l_def adr by simp
qed

lemma laid_out_entries:
  assumes "wf_problem (problem_of model inp out es)" "\<forall>e \<in> set es. carries inp out e"
    "map fixed h = link_fixed (rev es) 0 (\<lambda>_. None) @ [x]" "seg h None (length es # rev [0..<length es]) None"
  shows "laid_out model (problem_of model inp out es) (adr_of es) (length es) h"
proof -
  let ?P = "problem_of model inp out es"
  have d: "distinct (map tok es)" and toks: "toks ?P = map tok es" using assms(1) by (simp_all add: wf_problem_def problem_of_def)
  have adr: "adr_of es ` set (toks ?P) = {0..<length es}"
    using map_adr_of[OF d] unfolding toks set_map[symmetric] by simp
  have len: "length h = Suc (length es)" using arg_cong[OF assms(3), of length] by simp
  have "fixed (h ! a) = link_fixed (rev es) 0 (\<lambda>_. None) ! a" if "a < length es" for a
    using arg_cong[OF assms(3), of "\<lambda>l. l ! a"] that len by (simp add: nth_append)
  then have nodes: "fixed (h ! adr_of es (c, i)) = link_fixed (rev es) 0 (\<lambda>_. None) ! adr_of es (c, i)" if "i \<in> ops ?P" for c i
    using linked_nodes(1)[OF assms(1) that assms(2)] by simp
  have "nd_match (h ! adr_of es (True, i)) = Some (adr_of es (False, i)) \<and> nd_match (h ! adr_of es (False, i)) = None \<and>
      nd_id (h ! adr_of es (True, i)) = int i \<and>
      (\<forall>s. step_values model s (nd_value (h ! adr_of es (True, i))) (nd_value (h ! adr_of es (False, i))) = Some (stp ?P i s))"
    if "i \<in> ops ?P" for i
    using nodes[OF that, of True] nodes[OF that, of False] linked_nodes(2,3)[OF assms(1) that assms(2)]
    by (simp add: fixed_def problem_of_def)
  moreover have "seg h None (length es # map (adr_of es) (toks ?P)) None" unfolding toks map_adr_of[OF d] by (rule assms(4))
  moreover have "inj_on (adr_of es) (set (toks ?P))" unfolding toks by (rule inj_adr_of[OF d])
  ultimately show ?thesis using adr by (simp add: laid_out_def del: seg.simps)
qed

lemma problem_length:
  assumes "wf_problem P" "ops P = {..<n}"
  shows "length (toks P) = 2 * n"
proof -
  have "set (toks P) = UNIV \<times> {..<n}" using ops_toks[OF assms(1)] assms(2) by (force simp: ops_def)
  moreover have "distinct (toks P)" using assms(1) by (simp add: wf_problem_def)
  ultimately show ?thesis using distinct_card[of "toks P"] by (simp add: card_cartesian_product)
qed

lemma checkSingle_problem:
  assumes "wf_problem (problem_of model inp out es)" "ops (problem_of model inp out es) = {..<n}"
    "\<forall>e \<in> set es. carries inp out e" "m_Equal model = (=)"
  shows "\<exists>result. checkSingle model es computePartial never = Some result \<and> checked (problem_of model inp out es) n result"
proof -
  let ?P = "problem_of model inp out es"
  from link_loop_seg[of "[]" "rev es" "\<lambda>_. None"] obtain h where h:
    "makeLinkedEntries es = Some (h, first (rev [0..<length es]) None)" "length h = length es" "seg h None (rev [0..<length es]) None"
    "map fixed h = link_fixed (rev es) 0 (\<lambda>_. None)"
    by (auto simp: makeLinkedEntries_def)
  let ?n = "\<lparr>nd_value = None, nd_match = None, nd_id = -1, nd_next = None, nd_prev = None\<rparr> :: ('b, 'c) node"
  obtain h1 where h1: "insertBefore (h @ [?n]) (length h) (first (rev [0..<length es]) None) = Some h1"
    "seg h1 None (length h # rev [0..<length es]) None" "same_nodes h1 (h @ [?n])"
    by (rule insertBefore_seg[OF h(3), of ?n]) simp_all
  have lay: "laid_out model ?P (adr_of es) (length es) h1"
    using h1(2,3) h(2,4) by (intro laid_out_entries[OF assms(1,3)]) (simp_all add: same_nodes_def)
  have len: "length es = 2 * n" using problem_length[OF assms(1,2)] by (simp add: problem_of_def)
  have run: "running model ?P (adr_of es) (length es) h1 n" using assms lay by (simp add: running_def)
  let ?st = "\<lparr>se_heap = h1, se_entry = first (rev [0..<length es]) None, se_linearized = newBitset n, se_cache = (\<lambda>_. []), se_calls = [],
    se_state = m_Init model, se_longest = replicate n None, se_round = 0\<rparr>"
  have d: "distinct (map tok es)" using assms(1) by (simp add: wf_problem_def problem_of_def)
  have "sim ?P (adr_of es) h1 n [] (toks ?P) {} ?st"
    using map_adr_of[OF d] by (simp add: sim_def cache_rep_def longest_ok_def run_def problem_of_def)
  from loop_ok[OF run inv_init this] obtain result where
    "check_loop model computePartial never (length es) ?st = Some result" "checked ?P n result" by blast
  then show ?thesis using h(1,2) h1(1) list_length_seg[OF h(3)] len by (simp add: checkSingle_def Let_def)
qed

end
