(* ===== verification/Porcupine_Histories.thy ===== *)
theory Porcupine_Histories
  imports Porcupine_Correct Go_Sort
begin

text \<open>
  Histories of operations with their times of call and return: \<open>makeEntries\<close> sorts their entries so that an operation
  returns before another is called in the list exactly if it does in time, and \<open>checkSingle\<close> decides whether the
  history is linearizable.
\<close>

section \<open>Linearizability\<close>

fun legal_ops :: "('s, 'i, 'o) Model \<Rightarrow> 's \<Rightarrow> ('i, 'o) Operation list \<Rightarrow> bool" where
  "legal_ops model s [] = True"
| "legal_ops model s (x # xs) =
     (fst (m_Step model s (op_Input x) (op_Output x)) \<and> legal_ops model (snd (m_Step model s (op_Input x) (op_Output x))) xs)"

text \<open>No operation returned before the call of one that is ahead of it.\<close>

definition real_time :: "('i, 'o) Operation list \<Rightarrow> bool" where
  "real_time xs \<longleftrightarrow> sorted_wrt (\<lambda>a b. \<not> op_Return b < op_Call a) xs"

text \<open>The history can be put in an order that respects real time and that the model allows.\<close>

definition linearizable :: "('s, 'i, 'o) Model \<Rightarrow> ('i, 'o) Operation list \<Rightarrow> bool" where
  "linearizable model history \<longleftrightarrow> (\<exists>xs. mset xs = mset history \<and> real_time xs \<and> legal_ops model (m_Init model) xs)"

section \<open>Entries\<close>

definition call_entry :: "nat \<Rightarrow> ('i, 'o) Operation \<Rightarrow> ('i, 'o) entry" where
  "call_entry i x = \<lparr>en_value = CallOf (op_Input x), en_id = int i, en_time = op_Call x, en_clientId = op_ClientId x\<rparr>"

definition return_entry :: "nat \<Rightarrow> ('i, 'o) Operation \<Rightarrow> ('i, 'o) entry" where
  "return_entry i x = \<lparr>en_value = ReturnOf (op_Output x), en_id = int i, en_time = op_Return x, en_clientId = op_ClientId x\<rparr>"

lemma op_entries_concat:
  "op_entries (int b) history = concat (map (\<lambda>k. [call_entry (b + k) (history ! k), return_entry (b + k) (history ! k)]) [0..<length history])"
proof (induction history arbitrary: b)
  case (Cons x history)
  have "map (\<lambda>k. [call_entry (b + k) ((x # history) ! k), return_entry (b + k) ((x # history) ! k)]) [0..<length (x # history)] =
    [call_entry b x, return_entry b x] # map (\<lambda>k. [call_entry (Suc b + k) (history ! k), return_entry (Suc b + k) (history ! k)]) [0..<length history]"
    by (subst upt_conv_Cons) (simp_all add: map_Suc_upt[symmetric] o_def del: upt_Suc)
  then show ?case using Cons.IH[of "Suc b"] by (simp add: call_entry_def return_entry_def add.commute)
qed simp

lemma entry_simps [simp]:
  "tok (call_entry i x) = (True, i)" "tok (return_entry i x) = (False, i)"
  "is_call (en_value (call_entry i x))" "\<not> is_call (en_value (return_entry i x))"
  "en_time (call_entry i x) = op_Call x" "en_time (return_entry i x) = op_Return x"
  by (simp_all add: tok_def call_entry_def return_entry_def)

lemma set_op_entries: "set (op_entries 0 history) = (\<Union>k < length history. {call_entry k (history ! k), return_entry k (history ! k)})"
  using op_entries_concat[of 0 history] by auto

lemma distinct_pairs: "distinct (concat (map (\<lambda>k. [(True, k), (False, k)]) [0..<n]))"
  by (induction n) auto

lemma distinct_op_entries: "distinct (map tok (op_entries 0 history))"
proof -
  have "map tok (op_entries 0 history) = concat (map (\<lambda>k. [(True, k), (False, k)]) [0..<length history])"
    using op_entries_concat[of 0 history] by (simp add: map_concat o_def)
  then show ?thesis using distinct_pairs by simp
qed

lemma byTime_weak: "strict_weak_on A byTime_Less"
  by (auto simp: strict_weak_on_def byTime_Less_def split: if_splits)

lemma makeEntries_facts:
  assumes "sort_slice_ok srt"
  shows "mset (makeEntries srt history) = mset (op_entries 0 history)" "sorted_wrt (\<lambda>x y. \<not> byTime_Less y x) (makeEntries srt history)"
  using assms byTime_weak unfolding sort_slice_ok_def makeEntries_def by blast+

lemma sorted_order:
  assumes "sorted_wrt (\<lambda>x y. \<not> byTime_Less y x) es" "x \<in> set es" "y \<in> set es" "byTime_Less x y"
  shows "\<exists>xs ys zs. es = xs @ x # ys @ y # zs"
proof -
  from assms(2) obtain us vs where uv: "es = us @ x # vs" by (meson split_list)
  have "y \<noteq> x" using assms(4) by (auto simp: byTime_Less_def)
  moreover have "y \<notin> set us" using assms(1,4) uv by (auto simp: sorted_wrt_append)
  ultimately have "y \<in> set vs" using assms(3) uv by auto
  then obtain ys zs where "vs = ys @ y # zs" by (meson split_list)
  with uv show ?thesis by blast
qed

section \<open>The problem of a history\<close>

definition history_problem ::
    "((('i, 'o) entry \<Rightarrow> ('i, 'o) entry \<Rightarrow> bool) \<Rightarrow> ('i, 'o) entry list \<Rightarrow> ('i, 'o) entry list)
      \<Rightarrow> ('s, 'i, 'o) Model \<Rightarrow> ('i, 'o) Operation list \<Rightarrow> 's problem" where
  "history_problem srt model history =
     problem_of model (\<lambda>i. op_Input (history ! i)) (\<lambda>i. op_Output (history ! i)) (makeEntries srt history)"

lemma set_makeEntries:
  assumes "sort_slice_ok srt"
  shows "set (makeEntries srt history) = (\<Union>k < length history. {call_entry k (history ! k), return_entry k (history ! k)})"
  using mset_eq_setD[OF makeEntries_facts(1)[OF assms]] set_op_entries by metis

lemma history_toks:
  "toks (history_problem srt model history) = map tok (makeEntries srt history)"
  by (simp add: history_problem_def problem_of_def)

lemma history_distinct:
  assumes "sort_slice_ok srt"
  shows "distinct (toks (history_problem srt model history))"
proof -
  have "mset (map tok (makeEntries srt history)) = mset (map tok (op_entries 0 history))"
    using makeEntries_facts(1)[OF assms, of history] by simp
  from mset_eq_imp_distinct_iff[OF this] show ?thesis unfolding history_toks using distinct_op_entries by blast
qed

lemma history_ops:
  assumes "sort_slice_ok srt"
  shows "ops (history_problem srt model history) = {..<length history}"
proof -
  have "snd ` tok ` {call_entry k x, return_entry k x} = {k}" for k and x :: "('a, 'b) Operation" by simp
  then show ?thesis unfolding ops_def history_toks set_map set_makeEntries[OF assms] image_UN by simp
qed

lemma history_entries:
  assumes "sort_slice_ok srt" "i < length history"
  shows "call_entry i (history ! i) \<in> set (makeEntries srt history)" "return_entry i (history ! i) \<in> set (makeEntries srt history)"
  unfolding set_makeEntries[OF assms(1)] using assms(2) by blast+

lemma tok_entry:
  assumes "sort_slice_ok srt" "e \<in> set (makeEntries srt history)"
  shows "tok e = (True, i) \<Longrightarrow> e = call_entry i (history ! i) \<and> i < length history"
    "tok e = (False, i) \<Longrightarrow> e = return_entry i (history ! i) \<and> i < length history"
proof -
  have "e \<in> (\<Union>k < length history. {call_entry k (history ! k), return_entry k (history ! k)})"
    using assms(2) unfolding set_makeEntries[OF assms(1)] .
  then show "tok e = (True, i) \<Longrightarrow> e = call_entry i (history ! i) \<and> i < length history"
    "tok e = (False, i) \<Longrightarrow> e = return_entry i (history ! i) \<and> i < length history" by auto
qed

lemma history_wf:
  assumes "sort_slice_ok srt" "\<forall>x \<in> set history. op_Call x \<le> op_Return x"
  shows "wf_problem (history_problem srt model history)"
  unfolding wf_problem_def
proof (intro conjI ballI)
  let ?es = "makeEntries srt history"
  show "distinct (toks (history_problem srt model history))" by (rule history_distinct[OF assms(1)])
  fix i assume "i \<in> ops (history_problem srt model history)"
  then have i: "i < length history" by (simp add: history_ops[OF assms(1)])
  then have "op_Call (history ! i) \<le> op_Return (history ! i)" using assms(2) by simp
  then have "byTime_Less (call_entry i (history ! i)) (return_entry i (history ! i))" by (simp add: byTime_Less_def)
  from sorted_order[OF makeEntries_facts(2)[OF assms(1)] _ _ this] history_entries[OF assms(1) i] obtain xs ys zs where
    "?es = xs @ call_entry i (history ! i) # ys @ return_entry i (history ! i) # zs" by blast
  then have "toks (history_problem srt model history) = map tok xs @ (True, i) # map tok ys @ (False, i) # map tok zs"
    by (simp add: history_toks)
  then show "\<exists>xs ys zs. toks (history_problem srt model history) = xs @ (True, i) # ys @ (False, i) # zs" by blast
qed

lemma map_split:
  assumes "map f xs = ps @ y # qs"
  shows "\<exists>us x vs. xs = us @ x # vs \<and> f x = y \<and> map f vs = qs"
proof -
  from assms obtain us ws where w: "xs = us @ ws" "map f ws = y # qs" by (auto simp: map_eq_append_conv)
  then show ?thesis by (cases ws) auto
qed

lemma history_before:
  assumes "sort_slice_ok srt" "i < length history" "j < length history"
  shows "before (history_problem srt model history) j i \<longleftrightarrow> op_Return (history ! j) < op_Call (history ! i)"
proof
  let ?es = "makeEntries srt history"
  assume "before (history_problem srt model history) j i"
  then obtain xs ys zs where t: "map tok ?es = xs @ (False, j) # ys @ (True, i) # zs"
    unfolding before_def history_toks by blast
  then obtain us r es' where r: "?es = us @ r # es'" "tok r = (False, j)" "map tok es' = ys @ (True, i) # zs"
    using map_split[OF t] by blast
  obtain vs c ws where c: "es' = vs @ c # ws" "tok c = (True, i)" using map_split[OF r(3)] by blast
  note e = r(1)[unfolded c(1)] r(2) c(2)
  then have "r = return_entry j (history ! j)" "c = call_entry i (history ! i)"
    using tok_entry[OF assms(1), of r history j] tok_entry[OF assms(1), of c history i] by auto
  moreover have "\<not> byTime_Less c r" using makeEntries_facts(2)[OF assms(1), of history] unfolding e(1) by (simp add: sorted_wrt_append)
  ultimately show "op_Return (history ! j) < op_Call (history ! i)" by (auto simp: byTime_Less_def split: if_splits)
next
  let ?es = "makeEntries srt history"
  assume "op_Return (history ! j) < op_Call (history ! i)"
  then have "byTime_Less (return_entry j (history ! j)) (call_entry i (history ! i))" by (simp add: byTime_Less_def)
  from sorted_order[OF makeEntries_facts(2)[OF assms(1)] _ _ this] history_entries[OF assms(1,2)] history_entries[OF assms(1,3)]
  obtain xs ys zs where "?es = xs @ return_entry j (history ! j) # ys @ call_entry i (history ! i) # zs" by blast
  then have "toks (history_problem srt model history) = map tok xs @ (False, j) # map tok ys @ (True, i) # map tok zs"
    by (simp add: history_toks)
  then show "before (history_problem srt model history) j i" unfolding before_def by blast
qed

lemma history_legal: "legal (history_problem srt model history) s is = legal_ops model s (map ((!) history) is)"
  by (induction "is" arbitrary: s) (simp_all add: history_problem_def problem_of_def)

lemma history_ordered:
  assumes "sort_slice_ok srt" "set is \<subseteq> {..<length history}"
  shows "ordered (history_problem srt model history) is \<longleftrightarrow> real_time (map ((!) history) is)"
proof -
  have "before (history_problem srt model history) b a \<longleftrightarrow> op_Return (history ! b) < op_Call (history ! a)" if "a \<in> set is" "b \<in> set is" for a b
    using that assms(2) by (intro history_before[OF assms(1)]) auto
  then show ?thesis unfolding ordered_def real_time_def sorted_wrt_map by (intro iffI; elim sorted_wrt_mono_rel[rotated]) auto
qed

text \<open>A linearization by positions is one by operations, as equal operations are interchangeable.\<close>

lemma image_mset_list: "image_mset f M = mset xs \<Longrightarrow> \<exists>is. mset is = M \<and> map f is = xs"
proof (induction xs arbitrary: M)
  case Nil
  then have "mset [] = M \<and> map f [] = []" by simp
  then show ?case by blast
next
  case (Cons x xs)
  then have "image_mset f M = add_mset x (mset xs)" by simp
  from msed_map_invR[OF this] obtain N a where n: "M = add_mset a N" "f a = x" "image_mset f N = mset xs" by blast
  from Cons.IH[OF n(3)] obtain "is" where "mset is = N" "map f is = xs" by blast
  then have "mset (a # is) = M \<and> map f (a # is) = x # xs" using n by simp
  then show ?case by (rule exI)
qed

lemma positions_mset:
  "(\<exists>is. distinct is \<and> set is = {..<length history} \<and> Q (map ((!) history) is)) \<longleftrightarrow> (\<exists>xs. mset xs = mset history \<and> Q xs)"
proof
  assume "\<exists>is. distinct is \<and> set is = {..<length history} \<and> Q (map ((!) history) is)"
  then obtain "is" where i: "distinct is" "set is = {..<length history}" "Q (map ((!) history) is)" by blast
  have "mset is = mset [0..<length history]"
    using set_eq_iff_mset_eq_distinct[OF i(1) distinct_upt, of 0 "length history"] i(2) by (simp add: lessThan_atLeast0)
  then have "mset (map ((!) history) is) = mset (map ((!) history) [0..<length history])" by (simp only: mset_map)
  then have "mset (map ((!) history) is) = mset history" by (simp only: map_nth)
  then show "\<exists>xs. mset xs = mset history \<and> Q xs" using i(3) by (intro exI conjI)
next
  assume "\<exists>xs. mset xs = mset history \<and> Q xs"
  then obtain xs where xs: "mset xs = mset history" "Q xs" by blast
  have "image_mset ((!) history) (mset [0..<length history]) = mset xs" by (simp only: xs(1) map_nth flip: mset_map)
  from image_mset_list[OF this] obtain "is" where i: "mset is = mset [0..<length history]" "map ((!) history) is = xs" by blast
  have "distinct is" using mset_eq_imp_distinct_iff[OF i(1)] by simp
  moreover have "set is = {..<length history}" using mset_eq_setD[OF i(1)] by (simp add: lessThan_atLeast0)
  moreover have "Q (map ((!) history) is)" using i(2) xs(2) by (simp only:)
  ultimately show "\<exists>is. distinct is \<and> set is = {..<length history} \<and> Q (map ((!) history) is)" by (intro exI conjI)
qed

lemma history_solvable:
  assumes "sort_slice_ok srt"
  shows "solvable (history_problem srt model history) {} (m_Init model) \<longleftrightarrow> linearizable model history"
proof -
  let ?P = "history_problem srt model history"
  have "solvable ?P {} (m_Init model) \<longleftrightarrow>
    (\<exists>is. distinct is \<and> set is = {..<length history} \<and> (real_time (map ((!) history) is) \<and> legal_ops model (m_Init model) (map ((!) history) is)))"
    unfolding solvable_def history_ops[OF assms] history_legal Diff_empty using history_ordered[OF assms, of _ history model] by (metis order_refl)
  then show ?thesis unfolding linearizable_def
    using positions_mset[of history "\<lambda>xs. real_time xs \<and> legal_ops model (m_Init model) xs"] by simp
qed

lemma checkSingle_history:
  assumes "sort_slice_ok srt" "\<forall>x \<in> set history. op_Call x \<le> op_Return x" "m_Equal model = (=)"
  shows "\<exists>longest. checkSingle model (makeEntries srt history) computePartial never = Some (linearizable model history, longest) \<and>
    checked (history_problem srt model history) (length history) (linearizable model history, longest)"
proof -
  let ?P = "history_problem srt model history"
  have "carries (\<lambda>i. op_Input (history ! i)) (\<lambda>i. op_Output (history ! i)) e" if "e \<in> set (makeEntries srt history)" for e
    using that unfolding set_makeEntries[OF assms(1)]
    by (auto simp: carries_def call_entry_def return_entry_def)
  then obtain r where r: "checkSingle model (makeEntries srt history) computePartial never = Some r" "checked ?P (length history) r"
    using checkSingle_problem[OF history_wf[OF assms(1,2), unfolded history_problem_def] history_ops[OF assms(1), unfolded history_problem_def] _ assms(3)]
    unfolding history_problem_def by blast
  have "start ?P = m_Init model" by (simp add: history_problem_def problem_of_def)
  then have "fst r = linearizable model history" using r(2) history_solvable[OF assms(1)] by (simp add: checked_def)
  then obtain longest where "r = (linearizable model history, longest)" by (cases r) simp
  then show ?thesis using r by blast
qed

text \<open>What \<open>checkSingle\<close> returns in terms of the history.\<close>

definition partial_history :: "('s, 'i, 'o) Model \<Rightarrow> ('i, 'o) Operation list \<Rightarrow> nat list \<Rightarrow> bool" where
  "partial_history model history is \<longleftrightarrow> distinct is \<and> set is \<subseteq> {..<length history} \<and>
     real_time (map ((!) history) is) \<and> legal_ops model (m_Init model) (map ((!) history) is)"

lemma partial_lin_history:
  assumes "sort_slice_ok srt" "partial_lin (history_problem srt model history) is"
  shows "partial_history model history is"
proof -
  have d: "distinct is" "set is \<subseteq> {..<length history}" "legal (history_problem srt model history) (m_Init model) is"
    using assms(2) by (simp_all add: partial_lin_def history_ops[OF assms(1)]) (simp add: history_problem_def problem_of_def)
  then show ?thesis
    using history_ordered[OF assms(1) d(2), THEN iffD1, OF partial_lin_ordered[OF assms(2)]]
    by (simp add: partial_history_def history_legal)
qed

lemma checkSingle_partial:
  assumes "sort_slice_ok srt" "\<forall>x \<in> set history. op_Call x \<le> op_Return x" "m_Equal model = (=)"
  shows "\<exists>longest. checkSingle model (makeEntries srt history) computePartial never = Some (linearizable model history, longest) \<and>
    length longest = length history \<and>
    (\<forall>k < length history. \<forall>seq. longest ! k = Some seq \<longrightarrow>
       int k \<in> set seq \<and> (\<exists>is. seq = map int is \<and> partial_history model history is)) \<and>
    (linearizable model history \<longrightarrow> (\<exists>is. set is = {..<length history} \<and> longest = replicate (length history) (Some (map int is))))"
proof -
  from checkSingle_history[OF assms, of computePartial] obtain longest where r:
    "checkSingle model (makeEntries srt history) computePartial never = Some (linearizable model history, longest)"
    "checked (history_problem srt model history) (length history) (linearizable model history, longest)" by blast
  have "int k \<in> set seq \<and> (\<exists>is. seq = map int is \<and> partial_history model history is)"
    if "k < length history" "longest ! k = Some seq" for k seq
  proof -
    have "longest_ok (history_problem srt model history) (length history) longest" using r(2) by (simp add: checked_def)
    with that have "int k \<in> set seq" "\<exists>is. seq = map int is \<and> partial_lin (history_problem srt model history) is"
      by (auto simp: longest_ok_def)
    then show ?thesis using partial_lin_history[OF assms(1)] by blast
  qed
  moreover have "\<exists>is. set is = {..<length history} \<and> longest = replicate (length history) (Some (map int is))" if "linearizable model history"
    using r(2) that by (auto simp: checked_def history_ops[OF assms(1)])
  moreover have "length longest = length history" using r(2) by (simp add: checked_def longest_ok_def)
  ultimately show ?thesis using r(1) by blast
qed

end
