(* ===== verification/Porcupine_API.thy ===== *)
theory Porcupine_API
  imports Porcupine_Histories
begin

text \<open>
  The partitions of a history, checked in parallel (\<open>checker.go\<close>), and the functions of \<open>porcupine.go\<close>. The goroutines run
  to their end, as the flag \<open>kill\<close> is only set when no more results are read; the order in which their results arrive
  is a parameter, as is the number of results that arrive before the timeout, if it fires.
  What the verbose functions return for the visualisation is not modelled.
\<close>

section \<open>Operations\<close>

definition arrivals :: "(bool list \<Rightarrow> bool list) \<Rightarrow> nat option \<Rightarrow> bool list \<Rightarrow> selected list" where
  "arrivals arrival timeout results =
     (case timeout of
        None \<Rightarrow> map Result (arrival results)
      | Some k \<Rightarrow> map Result (take k (arrival results)) @ [TimeoutFired])"

definition run_partitions ::
    "(bool list \<Rightarrow> bool list) \<Rightarrow> ('s, 'i, 'o) Model \<Rightarrow> ('i, 'o) entry list list \<Rightarrow> bool \<Rightarrow> nat option \<Rightarrow> CheckResult option" where
  "run_partitions arrival model l computeInfo timeout =
     do { results \<leftarrow> those (map (\<lambda>subhistory. map_option fst (checkSingle model subhistory computeInfo never)) l);
          checkParallel computeInfo (length l) (arrivals arrival timeout results) }"

definition checkEvents ::
    "(bool list \<Rightarrow> bool list) \<Rightarrow> ('s, 'i, 'o) PartialModel \<Rightarrow> ('i, 'o) Event list \<Rightarrow> bool \<Rightarrow> nat option \<Rightarrow> CheckResult option" where
  "checkEvents arrival model history verbose timeout =
     (let model = fillDefault model;
          partitions = m_PartitionEvent model history;
          l = map (\<lambda>subhistory. convertEntries (renumber subhistory)) partitions
      in run_partitions arrival model l verbose timeout)"

definition checkOperations ::
    "((('i, 'o) entry \<Rightarrow> ('i, 'o) entry \<Rightarrow> bool) \<Rightarrow> ('i, 'o) entry list \<Rightarrow> ('i, 'o) entry list) \<Rightarrow> (bool list \<Rightarrow> bool list)
      \<Rightarrow> ('s, 'i, 'o) PartialModel \<Rightarrow> ('i, 'o) Operation list \<Rightarrow> bool \<Rightarrow> nat option \<Rightarrow> CheckResult option" where
  "checkOperations srt arrival model history verbose timeout =
     (let model = fillDefault model;
          partitions = m_Partition model history;
          l = map (makeEntries srt) partitions
      in run_partitions arrival model l verbose timeout)"

definition CheckOperations where
  "CheckOperations srt arrival model history =
     do { res \<leftarrow> checkOperations srt arrival model history False None; Some (res = Ok) }"

definition CheckOperationsTimeout where
  "CheckOperationsTimeout srt arrival model history timeout = checkOperations srt arrival model history False timeout"

definition CheckOperationsVerbose where
  "CheckOperationsVerbose srt arrival model history timeout = checkOperations srt arrival model history True timeout"

definition CheckEvents where
  "CheckEvents arrival model history = do { res \<leftarrow> checkEvents arrival model history False None; Some (res = Ok) }"

definition CheckEventsTimeout where
  "CheckEventsTimeout arrival model history timeout = checkEvents arrival model history False timeout"

definition CheckEventsVerbose where
  "CheckEventsVerbose arrival model history timeout = checkEvents arrival model history True timeout"

section \<open>The results together\<close>

lemma collect_all:
  assumes "ok \<or> computeInfo" "rs \<noteq> []" "cnt + length rs = n"
  shows "map_option parallel_result (collect computeInfo n ok cnt (map Result rs @ rest)) =
    Some (if ok \<and> (\<forall>r \<in> set rs. r) then Ok else Illegal)"
  using assms
proof (induction rs arbitrary: ok cnt)
  case (Cons r rs)
  note IH = Cons.IH[of "ok \<and> r" "cnt + 1"]
  consider "\<not> (ok \<and> r)" "\<not> computeInfo" | "rs = []" | "rs \<noteq> []" "(ok \<and> r) \<or> computeInfo" by blast
  then show ?case
  proof cases
    case 1
    then show ?thesis by (simp add: Let_def parallel_result_def) blast
  next
    case 2
    then have "collect computeInfo n ok cnt (map Result (r # rs) @ rest) = Some (ok \<and> r, False)" using Cons.prems(3) by (auto simp: Let_def)
    then show ?thesis using 2 by (simp add: parallel_result_def)
  next
    case 3
    then have "collect computeInfo n ok cnt (map Result (r # rs) @ rest) = collect computeInfo n (ok \<and> r) (cnt + 1) (map Result rs @ rest)"
      using Cons.prems(3) by (cases rs) (auto simp: Let_def)
    then show ?thesis using IH 3 Cons.prems(3) by simp
  qed
qed simp

lemma collect_timeout:
  assumes "ok \<or> computeInfo" "cnt + length rs < n"
  shows "map_option parallel_result (collect computeInfo n ok cnt (map Result rs @ [TimeoutFired])) =
    Some (if ok \<and> (\<forall>r \<in> set rs. r) then Unknown else Illegal)"
  using assms
proof (induction rs arbitrary: ok cnt)
  case (Cons r rs)
  note IH = Cons.IH[of "ok \<and> r" "cnt + 1"]
  show ?case
  proof (cases "\<not> (ok \<and> r) \<and> \<not> computeInfo")
    case True
    then show ?thesis by (simp add: Let_def parallel_result_def) blast
  next
    case False
    then have "collect computeInfo n ok cnt (map Result (r # rs) @ [TimeoutFired]) = collect computeInfo n (ok \<and> r) (cnt + 1) (map Result rs @ [TimeoutFired])"
      using Cons.prems(2) by (auto simp: Let_def)
    then show ?thesis using IH False Cons.prems by simp
  qed
qed (simp add: parallel_result_def)

text \<open>The results of all partitions decide, unless the timeout fires first.\<close>

lemma checkParallel_result:
  assumes "mset (arrival results) = mset results" "results \<noteq> []"
  shows "\<exists>r. checkParallel computeInfo (length results) (arrivals arrival timeout results) = Some r \<and>
    (r = Ok \<longrightarrow> (\<forall>x \<in> set results. x)) \<and> (r = Illegal \<longrightarrow> (\<exists>x \<in> set results. \<not> x)) \<and> (timeout = None \<longrightarrow> r \<noteq> Unknown)"
proof -
  let ?rs = "arrival results"
  have s: "set ?rs = set results" "length ?rs = length results" "?rs \<noteq> []"
    using mset_eq_setD[OF assms(1)] mset_eq_length[OF assms(1)] assms(2) by auto
  show ?thesis
  proof (cases "\<exists>k < length results. timeout = Some k")
    case True
    then obtain k where k: "k < length results" "timeout = Some k" by blast
    have "checkParallel computeInfo (length results) (arrivals arrival timeout results) =
      Some (if \<forall>r \<in> set (take k ?rs). r then Unknown else Illegal)"
      using collect_timeout[of True computeInfo 0 "take k ?rs" "length results"] k s(2)
      by (simp add: checkParallel_def arrivals_def)
    then show ?thesis using set_take_subset[of k ?rs] s(1) k(2) by auto
  next
    case False
    have "\<exists>rest. arrivals arrival timeout results = map Result ?rs @ rest"
      using False s(2) by (cases timeout) (auto simp: arrivals_def)
    then obtain rest where "arrivals arrival timeout results = map Result ?rs @ rest" by blast
    then have "checkParallel computeInfo (length results) (arrivals arrival timeout results) =
      Some (if \<forall>r \<in> set ?rs. r then Ok else Illegal)"
      using collect_all[of True computeInfo ?rs 0 "length results" rest] s(2,3) by (simp add: checkParallel_def)
    then show ?thesis using s(1) by auto
  qed
qed

lemma those_map: "(\<And>x. x \<in> set xs \<Longrightarrow> f x = Some (g x)) \<Longrightarrow> those (map f xs) = Some (map g xs)"
  by (induction xs) auto

lemma checkOperations_result:
  assumes "sort_slice_ok srt" "\<forall>xs. mset (arrival xs) = mset xs" "pm_Equal model = None"
    "m_Partition (fillDefault model) history \<noteq> []"
    "\<forall>p \<in> set (m_Partition (fillDefault model) history). \<forall>x \<in> set p. op_Call x \<le> op_Return x"
  shows "\<exists>r. checkOperations srt arrival model history verbose timeout = Some r \<and>
    (r = Ok \<longrightarrow> (\<forall>p \<in> set (m_Partition (fillDefault model) history). linearizable (fillDefault model) p)) \<and>
    (r = Illegal \<longrightarrow> (\<exists>p \<in> set (m_Partition (fillDefault model) history). \<not> linearizable (fillDefault model) p)) \<and>
    (timeout = None \<longrightarrow> r \<noteq> Unknown)"
proof -
  let ?m = "fillDefault model"
  let ?ps = "m_Partition ?m history"
  have eq: "m_Equal ?m = (=)" using assms(3) by (simp add: fillDefault_def ShallowEqual_def fun_eq_iff)
  have "map_option fst (checkSingle ?m (makeEntries srt p) verbose never) = Some (linearizable ?m p)" if "p \<in> set ?ps" for p
    using checkSingle_history[OF assms(1) _ eq, of p verbose] assms(5) that by fastforce
  then have those: "those (map (\<lambda>p. map_option fst (checkSingle ?m (makeEntries srt p) verbose never)) ?ps) = Some (map (linearizable ?m) ?ps)"
    by (rule those_map)
  have "checkOperations srt arrival model history verbose timeout =
    checkParallel verbose (length (map (linearizable ?m) ?ps)) (arrivals arrival timeout (map (linearizable ?m) ?ps))"
    using those by (simp add: checkOperations_def run_partitions_def Let_def o_def)
  then show ?thesis using checkParallel_result[of arrival "map (linearizable ?m) ?ps" verbose timeout] assms(2,4) by simp
qed

end
