(* ===== verification/Porcupine_KV.thy ===== *)
theory Porcupine_KV
  imports Porcupine_API "HOL-Library.List_Lexorder" "HOL-Library.Char_ord"
begin

text \<open>
  \<open>src/src/models/kv.go\<close>: the model of a key/value store that the tests check histories against. It models one key and splits
  a history by key; the main result is that this decides whether the history is linearizable as a history of the whole store.
\<close>

section \<open>The model\<close>

record KvInput =
  ki_Op :: "8 word"
  ki_Key :: string
  ki_Value :: string

record KvOutput =
  ko_Value :: string

type_synonym kv_op = "(KvInput, KvOutput) Operation"

fun partition_loop :: "kv_op list \<Rightarrow> (string, kv_op list) gomap \<Rightarrow> (string, kv_op list) gomap" where
  "partition_loop [] m = m"
| "partition_loop (v # history) m =
     (let key = ki_Key (op_Input v) in partition_loop history (AList.update key (mget [] m key @ [v]) m))"

definition Kv_Partition :: "kv_op list \<Rightarrow> kv_op list list" where
  "Kv_Partition history =
     (let m = partition_loop history [];
          keys = sort (map fst m)
      in map (mget [] m) keys)"

definition Kv_Init :: string where
  "Kv_Init = []"

definition Kv_Step :: "string \<Rightarrow> KvInput \<Rightarrow> KvOutput \<Rightarrow> bool \<times> string" where
  "Kv_Step st inp out =
     (if ki_Op inp = 0 then (ko_Value out = st, st)
      else if ki_Op inp = 1 then (True, ki_Value inp)
      else (True, st @ ki_Value inp))"

definition quoted :: "string \<Rightarrow> string" where
  "quoted s = [CHR 0x27] @ s @ [CHR 0x27]"

definition Kv_DescribeOperation :: "KvInput \<Rightarrow> KvOutput \<Rightarrow> string" where
  "Kv_DescribeOperation inp out =
     (if ki_Op inp = 0 then ''get('' @ quoted (ki_Key inp) @ '') -> '' @ quoted (ko_Value out)
      else if ki_Op inp = 1 then ''put('' @ quoted (ki_Key inp) @ '', '' @ quoted (ki_Value inp) @ '')''
      else if ki_Op inp = 2 then ''append('' @ quoted (ki_Key inp) @ '', '' @ quoted (ki_Value inp) @ '')''
      else ''<invalid>'')"

definition KvModel :: "(string, KvInput, KvOutput) PartialModel" where
  "KvModel = \<lparr>pm_Partition = Some Kv_Partition, pm_PartitionEvent = None, pm_Init = Kv_Init, pm_Step = Kv_Step, pm_Equal = None\<rparr>"

section \<open>The whole store\<close>

text \<open>A store as a map from keys to values, each key as the model has it.\<close>

definition store_step :: "(string \<Rightarrow> string) \<Rightarrow> KvInput \<Rightarrow> KvOutput \<Rightarrow> bool \<times> (string \<Rightarrow> string)" where
  "store_step m inp out = (let (ok, v) = Kv_Step (m (ki_Key inp)) inp out in (ok, m(ki_Key inp := v)))"

definition store_model :: "(string \<Rightarrow> string, KvInput, KvOutput) Model" where
  "store_model = \<lparr>m_Partition = NoPartition, m_PartitionEvent = NoPartitionEvent, m_Init = (\<lambda>_. []), m_Step = store_step, m_Equal = (=)\<rparr>"

abbreviation key_of :: "kv_op \<Rightarrow> string" where
  "key_of x \<equiv> ki_Key (op_Input x)"

lemma partition_loop_mget: "mget [] (partition_loop history m) k = mget [] m k @ filter (\<lambda>x. key_of x = k) history"
  by (induction history arbitrary: m) (auto simp: Let_def)

lemma partition_loop_keys: "fst ` set (partition_loop history m) = fst ` set m \<union> key_of ` set history"
  by (induction history arbitrary: m) (auto simp: Let_def)

lemma set_Kv_Partition: "set (Kv_Partition history) = (\<lambda>k. filter (\<lambda>x. key_of x = k) history) ` key_of ` set history"
  by (simp add: Kv_Partition_def Let_def partition_loop_mget partition_loop_keys)

lemma Kv_Partition_Nil: "Kv_Partition history = [] \<longleftrightarrow> history = []"
proof -
  have "set (Kv_Partition history) = {} \<longleftrightarrow> history = []" unfolding set_Kv_Partition by simp
  then show ?thesis by simp
qed

abbreviation key_model :: "(string, KvInput, KvOutput) Model" where
  "key_model \<equiv> fillDefault KvModel"

lemma key_model_simps [simp]: "m_Init key_model = []" "m_Step key_model = Kv_Step" "m_Partition key_model = Kv_Partition"
  "m_Init store_model = (\<lambda>_. [])" "m_Step store_model = store_step" "pm_Equal KvModel = None"
  by (simp_all add: fillDefault_def KvModel_def Kv_Init_def store_model_def)

lemma legal_store: "legal_ops store_model m xs \<longleftrightarrow> (\<forall>k. legal_ops key_model (m k) (filter (\<lambda>x. key_of x = k) xs))"
proof (induction xs arbitrary: m)
  case (Cons x xs)
  let ?r = "Kv_Step (m (key_of x)) (op_Input x) (op_Output x)"
  have "legal_ops store_model m (x # xs) \<longleftrightarrow> fst ?r \<and> (\<forall>k. legal_ops key_model ((m(key_of x := snd ?r)) k) (filter (\<lambda>x. key_of x = k) xs))"
    by (simp only: Cons.IH[symmetric]) (simp add: store_step_def case_prod_beta fun_upd_def)
  also have "\<dots> \<longleftrightarrow> (\<forall>k. legal_ops key_model (m k) (filter (\<lambda>x. key_of x = k) (x # xs)))"
    by (auto split: if_splits)
  finally show ?case .
qed simp

section \<open>Merging the linearizations of the keys\<close>

text \<open>The first operation of some key can go first: take the key of the operation that returns first.\<close>

lemma some_head:
  assumes "M \<noteq> {#}" "\<forall>x \<in># M. op_Call x \<le> op_Return x" "\<And>k. real_time (sq k)" "\<And>k. mset (sq k) = filter_mset (\<lambda>x. f x = k) M"
  obtains k x xs where "sq k = x # xs" "\<forall>y \<in># M. \<not> op_Return y < op_Call x"
proof -
  have "finite (op_Return ` set_mset M)" "op_Return ` set_mset M \<noteq> {}" using assms(1) by auto
  then obtain z where z: "z \<in># M" "\<forall>y \<in># M. op_Return z \<le> op_Return y"
    using Min_in[of "op_Return ` set_mset M"] Min_le[of "op_Return ` set_mset M"] by (metis (no_types, lifting) imageE imageI)
  have "z \<in> set (sq (f z))" using z(1) assms(4)[of "f z"] by (metis (mono_tags) mem_Collect_eq set_mset_filter set_mset_mset)
  then obtain x xs where s: "sq (f z) = x # xs" "z = x \<or> z \<in> set xs" by (cases "sq (f z)") auto
  have "\<not> op_Return z < op_Call x"
  proof (cases "z = x")
    case True
    then show ?thesis using z(1) assms(2) by auto
  next
    case False
    then show ?thesis using s assms(3)[of "f z"] by (simp add: real_time_def)
  qed
  then have "\<forall>y \<in># M. \<not> op_Return y < op_Call x" using z(2) by (meson not_less order_trans)
  with s(1) that show ?thesis by blast
qed

lemma merge:
  assumes "\<forall>x \<in># M. op_Call x \<le> op_Return x" "\<And>k. real_time (sq k)" "\<And>k. mset (sq k) = filter_mset (\<lambda>x. f x = k) M"
  shows "\<exists>xs. mset xs = M \<and> real_time xs \<and> (\<forall>k. filter (\<lambda>x. f x = k) xs = sq k)"
  using assms
proof (induction "size M" arbitrary: M sq)
  case 0
  then have "mset [] = M \<and> real_time [] \<and> (\<forall>k. filter (\<lambda>x. f x = k) [] = sq k)" by (simp add: real_time_def)
  then show ?case by blast
next
  case (Suc n)
  then have "M \<noteq> {#}" by auto
  from some_head[OF this Suc.prems] obtain k x xs where h: "sq k = x # xs" "\<forall>y \<in># M. \<not> op_Return y < op_Call x" by blast
  have "x \<in># filter_mset (\<lambda>x. f x = k) M" using Suc.prems(3)[of k] h(1) by (metis list.set_intros(1) set_mset_mset)
  then have x: "x \<in># M" "f x = k" by auto
  let ?M = "M - {#x#}" and ?sq = "sq(k := xs)"
  have M: "M = add_mset x ?M" using x(1) by simp
  have "n = size ?M" using Suc.hyps(2) x(1) by (simp add: size_Diff_singleton)
  moreover have "\<forall>x \<in># ?M. op_Call x \<le> op_Return x" using Suc.prems(1) by (meson in_diffD)
  moreover have "real_time (?sq j)" for j using Suc.prems(2)[of j] Suc.prems(2)[of k] h(1) by (auto simp: real_time_def)
  moreover have "mset (?sq j) = filter_mset (\<lambda>x. f x = j) ?M" for j
  proof (cases "j = k")
    case True
    have "add_mset x (mset xs) = add_mset x (filter_mset (\<lambda>x. f x = k) ?M)"
      using Suc.prems(3)[of k] h(1) x(2) by (subst (asm) M) simp
    then show ?thesis using True by simp
  next
    case False
    then show ?thesis using Suc.prems(3)[of j] x(2) by (subst (asm) M) simp
  qed
  ultimately obtain ys where ys: "mset ys = ?M" "real_time ys" "\<forall>j. filter (\<lambda>x. f x = j) ys = ?sq j"
    using Suc.hyps(1)[of ?M ?sq] by blast
  have "\<forall>y \<in> set ys. \<not> op_Return y < op_Call x" using h(2) ys(1) by (metis in_diffD set_mset_mset)
  then have "real_time (x # ys)" using ys(2) by (simp add: real_time_def)
  moreover have "filter (\<lambda>x. f x = j) (x # ys) = sq j" for j using ys(3) x(2) h(1) by (cases "j = k") simp_all
  moreover have "mset (x # ys) = M" using ys(1) M by simp
  ultimately show ?case by blast
qed

lemma locality:
  assumes "\<forall>x \<in> set history. op_Call x \<le> op_Return x"
  shows "(\<forall>p \<in> set (Kv_Partition history). linearizable key_model p) \<longleftrightarrow> linearizable store_model history"
proof
  assume "linearizable store_model history"
  then obtain xs where xs: "mset xs = mset history" "real_time xs" "legal_ops store_model (\<lambda>_. []) xs" by (auto simp: linearizable_def)
  have "linearizable key_model (filter (\<lambda>x. key_of x = k) history)" for k
  proof -
    have "mset (filter (\<lambda>x. key_of x = k) xs) = mset (filter (\<lambda>x. key_of x = k) history)" using xs(1) by (simp add: mset_filter)
    moreover have "real_time (filter (\<lambda>x. key_of x = k) xs)" using xs(2) by (simp add: real_time_def sorted_wrt_filter)
    moreover have "legal_ops key_model [] (filter (\<lambda>x. key_of x = k) xs)" using xs(3) by (simp add: legal_store)
    ultimately show ?thesis unfolding linearizable_def key_model_simps by (intro exI conjI)
  qed
  then show "\<forall>p \<in> set (Kv_Partition history). linearizable key_model p" by (auto simp: set_Kv_Partition)
next
  assume all: "\<forall>p \<in> set (Kv_Partition history). linearizable key_model p"
  have "\<exists>sq. mset sq = mset (filter (\<lambda>x. key_of x = k) history) \<and> real_time sq \<and> legal_ops key_model [] sq" for k
  proof (cases "k \<in> key_of ` set history")
    case True
    then have "linearizable key_model (filter (\<lambda>x. key_of x = k) history)" using all by (auto simp: set_Kv_Partition)
    then show ?thesis by (simp add: linearizable_def)
  next
    case False
    then have "filter (\<lambda>x. key_of x = k) history = []" by (auto simp: filter_empty_conv)
    then show ?thesis by (simp add: real_time_def)
  qed
  then obtain sq where sq: "\<And>k. mset (sq k) = mset (filter (\<lambda>x. key_of x = k) history)" "\<And>k. real_time (sq k)" "\<And>k. legal_ops key_model [] (sq k)"
    by metis
  from merge[of "mset history" sq key_of] assms sq(1,2) obtain xs where
    "mset xs = mset history" "real_time xs" "\<forall>k. filter (\<lambda>x. key_of x = k) xs = sq k" by (auto simp: mset_filter)
  then show "linearizable store_model history" using sq(3) by (auto simp: linearizable_def legal_store)
qed

section \<open>Properties\<close>

lemma CheckOperations_linearizable:
  assumes "sort_slice_ok srt" "\<forall>xs. mset (arrival xs) = mset xs" "history \<noteq> []" "\<forall>x \<in> set history. op_Call x \<le> op_Return x"
  shows "CheckOperations srt arrival KvModel history = Some (linearizable store_model history)"
proof -
  have "pm_Equal KvModel = None" "m_Partition key_model history \<noteq> []" by (simp_all add: Kv_Partition_Nil assms(3))
  moreover have "\<forall>p \<in> set (m_Partition key_model history). \<forall>x \<in> set p. op_Call x \<le> op_Return x"
    using assms(4) by (auto simp: set_Kv_Partition)
  ultimately obtain r where r: "checkOperations srt arrival KvModel history False None = Some r"
    "r = Ok \<longrightarrow> (\<forall>p \<in> set (Kv_Partition history). linearizable key_model p)"
    "r = Illegal \<longrightarrow> (\<exists>p \<in> set (Kv_Partition history). \<not> linearizable key_model p)" "r \<noteq> Unknown"
    using checkOperations_result[OF assms(1,2), of KvModel history False None] by auto
  then have "r = Ok \<longleftrightarrow> linearizable store_model history" using locality[OF assms(4)] by (cases r) auto
  then show ?thesis using r(1) by (simp add: CheckOperations_def)
qed

text \<open>C7. The checker that the tests use is correct: for a history of operations that do not return before they are called,
  \<open>CheckOperations\<close> with \<open>KvModel\<close> ends without a panic, in whatever order the results of its goroutines arrive, and returns true exactly if
  the history as a whole, over all keys, is linearizable: it can be put in an order that respects which
  operation returned before which was called, and in which a store of key/value pairs gives these outputs.\<close>

theorem CheckOperations_kv:
  assumes "sort_slice_ok srt" "\<forall>xs. mset (arrival xs) = mset xs" "history \<noteq> []" "\<forall>x \<in> set history. op_Call x \<le> op_Return x"
  shows "CheckOperations srt arrival KvModel history = Some (linearizable store_model history)"
  using assms by (rule CheckOperations_linearizable)

text \<open>A put and a get that overlap in time; the get sees the put.\<close>

definition put_x :: kv_op where
  "put_x = \<lparr>op_ClientId = 0, op_Input = \<lparr>ki_Op = 1, ki_Key = ''x'', ki_Value = ''1''\<rparr>, op_Call = 1, op_Output = \<lparr>ko_Value = []\<rparr>, op_Return = 4\<rparr>"

definition get_x :: "string \<Rightarrow> kv_op" where
  "get_x v = \<lparr>op_ClientId = 1, op_Input = \<lparr>ki_Op = 0, ki_Key = ''x'', ki_Value = []\<rparr>, op_Call = 2, op_Output = \<lparr>ko_Value = v\<rparr>, op_Return = 3\<rparr>"

lemma demo_linearizable: "linearizable store_model [get_x ''1'', put_x]"
  unfolding linearizable_def
  by (rule exI[of _ "[put_x, get_x ''1'']"])
    (simp add: real_time_def put_x_def get_x_def store_step_def Kv_Step_def add_mset_commute)

theorem CheckOperations_kv_witness: "CheckOperations sort_slice rev KvModel [get_x ''1'', put_x] = Some True"
proof -
  have "CheckOperations sort_slice rev KvModel [get_x ''1'', put_x] = Some (linearizable store_model [get_x ''1'', put_x])"
    by (rule CheckOperations_kv) (simp_all add: sort_slice_sorts put_x_def get_x_def)
  then show ?thesis using demo_linearizable by simp
qed

text \<open>C12. The search decides linearizability for every model: on the entries of a history, in any order that sorting by time allows for
  equal times, \<open>checkSingle\<close> ends without a panic and returns whether the history is linearizable. Every sequence it returns
  for the visualisation is a partial linearization that holds the operation it is kept for, and when the history is linearizable
  all of them are one complete linearization.\<close>

theorem checkSingle_decides:
  assumes "sort_slice_ok srt" "\<forall>x \<in> set history. op_Call x \<le> op_Return x" "m_Equal model = (=)"
  shows "\<exists>longest. checkSingle model (makeEntries srt history) computePartial never = Some (linearizable model history, longest) \<and>
    length longest = length history \<and>
    (\<forall>k < length history. \<forall>seq. longest ! k = Some seq \<longrightarrow>
       int k \<in> set seq \<and> (\<exists>is. seq = map int is \<and> partial_history model history is)) \<and>
    (linearizable model history \<longrightarrow> (\<exists>is. set is = {..<length history} \<and> longest = replicate (length history) (Some (map int is))))"
  using assms by (rule checkSingle_partial)

theorem checkSingle_decides_witness:
  "\<exists>longest. checkSingle store_model (makeEntries sort_slice [get_x ''1'', put_x]) True never = Some (True, longest) \<and> length longest = 2"
  using checkSingle_decides[of sort_slice "[get_x ''1'', put_x]" store_model True] demo_linearizable
  by (auto simp: sort_slice_sorts get_x_def put_x_def store_model_def)

text \<open>C13. With a timeout the checker is never wrong: whenever the timeout fires, and in whatever order the results of the
  partitions arrive, \<open>Ok\<close> means that every partition is linearizable and \<open>Illegal\<close> that one is not; without a
  timeout the result is never \<open>Unknown\<close>.\<close>

theorem CheckOperationsTimeout_sound:
  assumes "sort_slice_ok srt" "\<forall>xs. mset (arrival xs) = mset xs" "pm_Equal model = None"
    "m_Partition (fillDefault model) history \<noteq> []"
    "\<forall>p \<in> set (m_Partition (fillDefault model) history). \<forall>x \<in> set p. op_Call x \<le> op_Return x"
  shows "\<exists>r. CheckOperationsTimeout srt arrival model history timeout = Some r \<and>
    (r = Ok \<longrightarrow> (\<forall>p \<in> set (m_Partition (fillDefault model) history). linearizable (fillDefault model) p)) \<and>
    (r = Illegal \<longrightarrow> (\<exists>p \<in> set (m_Partition (fillDefault model) history). \<not> linearizable (fillDefault model) p)) \<and>
    (timeout = None \<longrightarrow> r \<noteq> Unknown)"
  unfolding CheckOperationsTimeout_def by (rule checkOperations_result[OF assms])

theorem CheckOperationsTimeout_sound_witness:
  "\<exists>r. CheckOperationsTimeout sort_slice rev KvModel [get_x ''2''] (Some 0) = Some r \<and> r \<noteq> Ok"
proof -
  have part: "Kv_Partition [get_x ''2''] = [[get_x ''2'']]" by (simp add: Kv_Partition_def Let_def mget_Cons)
  have "\<not> linearizable key_model [get_x ''2'']"
    by (auto simp: linearizable_def get_x_def Kv_Step_def)
  moreover have "op_Call (get_x ''2'') \<le> op_Return (get_x ''2'')" by (simp add: get_x_def)
  ultimately show ?thesis
    using CheckOperationsTimeout_sound[of sort_slice rev KvModel "[get_x ''2'']" "Some 0"]
    by (auto simp: sort_slice_sorts part)
qed


end
