(* ===== verification/Spec2Isabelle.thy ===== *)
theory Spec2Isabelle
  imports KV_Properties Ctrler_Order Ctrler_Service Shard_Properties Clerk_Properties
    Vector_Format Search_Properties KV_Linearizable
begin

text \<open>
  A verification library for Nexus-Mind, a sharded and replicated store written in Go.

  \<^bold>\<open>The program.\<close> A service is replicated by Raft: clerks send requests to the servers of a group, the
  leader puts them in its log, Raft replicates and commits the log, and every server applies the
  committed commands to its state machine in the same order. On this pattern stand a key/value
  server (\<open>kvraft\<close>), a controller that assigns ten shards to replica groups and keeps the
  history of its configurations (\<open>shardctrler\<close>), and a sharded key/value server (\<open>shardkv\<close>) whose groups
  follow the configurations of the controller and hand shards over to each other. Beside it stands a
  store of vectors with metadata (\<open>models\<close>, \<open>vector\<close>): collections of vectors, indexes over them and a processor for
  similarity queries. The tests of the services record what clients see and check with \<open>porcupine\<close> that it is
  linearizable.

  \<^bold>\<open>Conventions.\<close> A Go struct is a \<open>record\<close>, an enumeration a \<open>datatype\<close>, \<open>int\<close> is \<^typ>\<open>int\<close>. A panic is
  \<^term>\<open>None\<close>; slices are lists with Go's range checks (\<open>go_nth\<close>, \<open>go_set\<close>, \<open>go_from\<close>). A Go map that is
  ranged over is an association list whose order is the order of the iteration, any order
  being possible; other maps are functions to \<^typ>\<open>'a option\<close>. The methods of a server run under its
  lock, so each is a function on the state; a goroutine is cut where it gives up the lock
  (an RPC, a channel, a sleep) into functions for the sections between. The gob encoding, the
  clock and the random numbers are parameters (\<open>codec\<close>, \<open>snap_codec\<close>, \<open>env\<close>), with the round trip of the encoding
  as a hypothesis that concrete codecs (\<open>cell_codec\<close>, \<open>sum_codec\<close>) satisfy.

  \<^bold>\<open>Raft\<close> (\<open>src/src/raft\<close>).
  \<^item> \<open>Raft_Log\<close>: \<open>raft_log.go\<close>, the log with its snapshot; the locale \<open>indexed_log\<close> is its contract, the
    interpretation \<open>rl\<close> shows that the log keeps it.
  \<^item> \<open>Raft_Persist\<close>: \<open>persister.go\<close> and the encoding of the log.
  \<^item> \<open>Raft_Peer\<close>: \<open>raft.go\<close> and \<open>raft_persistence.go\<close>, the state of a peer and its role changes.
  \<^item> \<open>Raft_Handlers\<close>: elections, replication, compaction and application, from the files of these names.
  \<^item> \<open>Raft_Invariants\<close>: the invariants of one peer (a well-formed log, indexes in range, everything that
    must survive a crash is in the persister) and that every operation keeps them.
  \<^item> \<open>Raft_Cluster\<close>: a cluster as the step relation \<open>cstep\<close>, with lost, delayed, reordered and repeated
    messages, crashes and restarts; one leader per term, one vote per term, recovery after a crash.
  \<^item> \<open>Raft_Properties\<close>: what each handler does, on every branch.

  \<^bold>\<open>Services.\<close>
  \<^item> \<open>Service_Common\<close>: error codes, notification channels and the locales \<open>dedup_service\<close> and \<open>dedup_static\<close>, in
    which the duplicate table of a server is shown to make retried writes take effect once.
  \<^item> \<open>KV_Server\<close> and \<open>KV_Properties\<close>: \<open>src/src/kvraft\<close>. The locale \<open>kv_store\<close> is the contract of the state
    machine, interpreted here and in \<open>Shard_KV\<close>; \<open>kvd\<close> interprets \<open>dedup_static\<close>.
  \<^item> \<open>Ctrler_State_Machine\<close>, \<open>Ctrler_Balance\<close>, \<open>Ctrler_Properties\<close>, \<open>Ctrler_Order\<close>: \<open>state_machine.go\<close> of
    \<open>src/src/shardctrler\<close>. The rebalancing loop ends and balances, and its result does not depend on the
    order in which Go iterates over maps, so replicas agree.
  \<^item> \<open>Ctrler_Server\<close>, \<open>Ctrler_Service\<close>: \<open>server.go\<close> of \<open>src/src/shardctrler\<close> and the history of configurations.
  \<^item> \<open>Shard_KV\<close>: \<open>server.go\<close>, \<open>task.go\<close>, \<open>conf_change.go\<close>, \<open>state_machine.go\<close> of \<open>src/src/shardkv\<close>. \<open>Shard_Steps\<close>: the
    effect of each command on a group. \<open>Shard_Groups\<close>: all groups together; a group is its committed
    log, a replica has applied a prefix of it, and \<open>gstep\<close> lets any replica run any handler or task, with
    late and repeated messages. \<open>Shard_Safety\<close>, \<open>Shard_Transfer\<close>, \<open>Shard_Properties\<close>: a shard is served by
    one group at a time and moves with its data. Assumed of the controller: \<open>history_ok\<close>, which
    \<open>Ctrler_Service\<close> supports, and \<open>never_orphaned\<close>; without the second the property fails, as shown.
  \<^item> \<open>Clerks\<close>, \<open>Clerk_Properties\<close>: the three \<open>client.go\<close>. The servers are a parameter that maps a state of the world
    and a request to the next state and the answer, if any. The loops may run forever: they are
    partial functions, \<^term>\<open>None\<close> means no return, and that they return is proved under the stated conditions.

  \<^bold>\<open>Vectors.\<close> A floating-point number is its bit pattern; its arithmetic is a parameter (\<open>float32_ops\<close>,
  \<open>float64_ops\<close>), and the few laws of it that a theorem needs are hypotheses of the theorem.
  \<^item> \<open>Vector_Data\<close>, \<open>Vector_Format\<close>: \<open>models/vector.go\<close>. Writing and reading a vector, on any bytes.
  \<^item> \<open>Metadata_Filter\<close>, \<open>Metadata_Properties\<close>: \<open>models/metadata.go\<close>. Schemas, comparisons and filters.
  \<^item> \<open>Vector_Distance\<close>: \<open>vector/distance.go\<close>. The metrics and their optimised variants.
  \<^item> \<open>Linear_Index\<close>: \<open>vector/index/linear.go\<close>. The order in which the workers of a search deliver and the
    unstable \<open>sort.Slice\<close> are parameters.
  \<^item> \<open>Vector_Collection\<close>: \<open>models/vector_collection.go\<close>. The locale \<open>vector_index\<close> is the contract of the
    interface \<open>VectorIndex\<close>; \<open>linear\<close> interprets it for the linear index.
  \<^item> \<open>Query_Processor\<close>: \<open>vector/query/processor.go\<close>. Results refer to the vectors of the index, and post-processing
    writes through these references. \<open>Search_Properties\<close>: nearest neighbours, indexes as maps, batches, and
    the loss of metadata in queries.

  \<^bold>\<open>The linearizability checker\<close> (\<open>src/src/porcupine\<close>, \<open>src/src/models/kv.go\<close>).
  \<^item> \<open>Porcupine_Bitset\<close>: \<open>bitset.go\<close>; bitsets are sets.
  \<^item> \<open>Porcupine_Checker\<close>: \<open>model.go\<close> and \<open>checker.go\<close>. The doubly linked list is a heap of nodes. The loop of \<open>checkSingle\<close> is a partial
    function, \<^term>\<open>None\<close> means that it never ends or panics.
  \<^item> \<open>Porcupine_List\<close>: taking a call and its return out of the list and putting them back restores the heap.
  \<^item> \<open>Porcupine_Search\<close>: the search without its data structures, its invariant and its measure.
    \<open>Porcupine_Simulation\<close>, \<open>Porcupine_Rounds\<close>: the rounds of \<open>checkSingle\<close> implement it and never panic, so the loop ends.
    \<open>Porcupine_Correct\<close>: the list that \<open>makeLinkedEntries\<close> builds starts it.
  \<^item> \<open>Porcupine_Histories\<close>: histories of operations in time; \<open>checkSingle\<close> decides whether one is linearizable.
    \<open>Porcupine_API\<close>: the partitions in parallel, with a timeout, and \<open>porcupine.go\<close>; the order in which results arrive is a parameter.
  \<^item> \<open>Porcupine_KV\<close>: the model of the key/value store; checking each key alone decides for the whole store.
  \<^item> \<open>KV_Linearizable\<close>: what clients see of a log that a key/value server applies is accepted by the checker.
  \<^item> \<open>Go_Sort\<close>: the contract of Go's \<open>sort\<close>, a parameter wherever the order of equal elements is not fixed.

  \<^bold>\<open>Not modelled.\<close> Log output, the HTTP layer \<open>vector/query/api.go\<close>, the SIMD distances, the visualisation of the checker, the network simulation \<open>labrpc\<close> (the step
  relations allow all it can do), the reflection of \<open>labgob\<close>, the test drivers, and \<open>main.go\<close>.
\<close>

end
